(* ===== verification/Prelude.thy ===== *)
theory Prelude
  imports Main "HOL-Library.State_Monad"
begin

text \<open>
  What every component shares.  A Go \<open>string\<close> is a sequence of bytes, so it is
  an Isabelle \<open>string\<close> (a list of 8-bit characters).  A Go pointer that may be
  \<open>nil\<close> is an \<open>option\<close>.  A Go function that returns \<open>(v, err)\<close> and touches the
  database, Redis, the clock or a random source is a computation of the state monad
  whose value is a sum: \<open>Inl\<close> the error, \<open>Inr\<close> the value.
\<close>

type_synonym gostring = string
type_synonym gotime = int \<comment> \<open>nanoseconds since the epoch, UTC\<close>

named_theorems run_simps "unfolding of the monadic operations"
named_theorems frame "what an operation leaves unchanged"

section \<open>Go error values\<close>

text \<open>
  The sentinels of the packages \<open>service\<close>, \<open>repository\<close> and \<open>cache\<close>, the
  sentinels of the two drivers the code tests for, other failures of a driver
  (\<open>Infra\<close>), a run-time panic, \<open>errors.New\<close> with a text, and \<open>fmt.Errorf\<close> with one \<open>%w\<close>:
  the text before it, the wrapped error, the text after it.
\<close>

datatype goerr =
    ErrEmailTaken | ErrEmailOrPasswordWrong
  | ErrUnsupportedGrantType | ErrPublicClientCredentialsGrant
  | ErrInvalidGrant | ErrInvalidClient | ErrUnauthorizedClient | ErrInvalidScope
  | ErrSessionNotFound | ErrAuthCodeNotFound | ErrRedisKeyNotFound
  | RedisNil | SqlNoRows | Infra gostring | Panic gostring
  | ErrNew gostring
  | Errorf gostring goerr gostring

text \<open>\<open>errors.Is\<close>: the error itself or one it wraps.\<close>

fun err_is :: "goerr \<Rightarrow> goerr \<Rightarrow> bool" where
  "err_is (Errorf pre e post) t \<longleftrightarrow> Errorf pre e post = t \<or> err_is e t"
| "err_is e t \<longleftrightarrow> e = t"

text \<open>\<open>err.Error()\<close>.\<close>

fun err_text :: "goerr \<Rightarrow> gostring" where
  "err_text ErrEmailTaken = ''email already in use''"
| "err_text ErrEmailOrPasswordWrong = ''email or password wrong''"
| "err_text ErrUnsupportedGrantType = ''unsupported grant_type''"
| "err_text ErrPublicClientCredentialsGrant =
     ''client_credentials requires a confidential client''"
| "err_text ErrInvalidGrant = ''invalid_grant''"
| "err_text ErrInvalidClient = ''invalid_client''"
| "err_text ErrUnauthorizedClient = ''unauthorized_client''"
| "err_text ErrInvalidScope = ''invalid_scope''"
| "err_text ErrSessionNotFound = ''session not found''"
| "err_text ErrAuthCodeNotFound = ''authorization code not found''"
| "err_text ErrRedisKeyNotFound = ''cache: key not found''"
| "err_text RedisNil = ''redis: nil''"
| "err_text SqlNoRows = ''sql: no rows in result set''"
| "err_text (Infra m) = m"
| "err_text (Panic m) = ''runtime error: '' @ m"
| "err_text (ErrNew m) = m"
| "err_text (Errorf pre e post) = pre @ err_text e @ post"

abbreviation wrap :: "gostring \<Rightarrow> goerr \<Rightarrow> goerr" where
  "wrap m e \<equiv> Errorf (m @ '': '') e []"

lemma err_is_refl [simp]: "err_is e e"
  by (cases e) auto

section \<open>Computations\<close>

abbreviation ret :: "'a \<Rightarrow> ('s, 'a) state" where
  "ret \<equiv> State_Monad.return"

abbreviation run :: "('s, 'a) state \<Rightarrow> 's \<Rightarrow> 'a \<times> 's" where
  "run \<equiv> run_state"

abbreviation result_of :: "('s, 'a) state \<Rightarrow> 's \<Rightarrow> 'a" where
  "result_of m s \<equiv> fst (run_state m s)"

abbreviation state_after :: "('s, 'a) state \<Rightarrow> 's \<Rightarrow> 's" where
  "state_after m s \<equiv> snd (run_state m s)"

text \<open>
  A predicate on states that a computation keeps, and a relation between the states
  before and after it: each composes along \<open>bind\<close>.
\<close>

definition keeps :: "('s \<Rightarrow> bool) \<Rightarrow> ('s, 'a) state \<Rightarrow> bool" where
  "keeps P m \<longleftrightarrow> (\<forall>s. P s \<longrightarrow> P (state_after m s))"

definition keeps_field :: "('s \<Rightarrow> 'f) \<Rightarrow> ('s, 'a) state \<Rightarrow> bool" where
  "keeps_field f m \<longleftrightarrow> (\<forall>s. f (state_after m s) = f s)"

lemma keepsI: "(\<And>s. P s \<Longrightarrow> P (state_after m s)) \<Longrightarrow> keeps P m"
  by (simp add: keeps_def)

lemma keepsD: "keeps P m \<Longrightarrow> P s \<Longrightarrow> P (state_after m s)"
  by (simp add: keeps_def)

lemma keeps_runD: "keeps P m \<Longrightarrow> P s \<Longrightarrow> run m s = (r, s') \<Longrightarrow> P s'"
  by (auto simp: keeps_def dest: spec [of _ s])

lemma keeps_ret [intro, simp]: "keeps P (ret x)"
  by (simp add: keeps_def)

lemma keeps_get [intro, simp]: "keeps P State_Monad.get"
  by (simp add: keeps_def)

lemma keeps_bind [intro]:
  "keeps P m \<Longrightarrow> (\<And>x. keeps P (f x)) \<Longrightarrow> keeps P (State_Monad.bind m f)"
  by (simp add: keeps_def case_prod_beta)

lemma keeps_if [intro]: "keeps P m \<Longrightarrow> keeps P n \<Longrightarrow> keeps P (if b then m else n)"
  by simp

lemma keeps_case_sum [intro]:
  "(\<And>e. keeps P (f e)) \<Longrightarrow> (\<And>v. keeps P (g v)) \<Longrightarrow> keeps P (case r of Inl e \<Rightarrow> f e | Inr v \<Rightarrow> g v)"
  by (cases r) auto

lemma keeps_case_option [intro]:
  "keeps P m \<Longrightarrow> (\<And>v. keeps P (g v)) \<Longrightarrow> keeps P (case r of None \<Rightarrow> m | Some v \<Rightarrow> g v)"
  by (cases r) auto

lemma keeps_field_case_sum [intro]:
  "(\<And>e. keeps_field h (f e)) \<Longrightarrow> (\<And>v. keeps_field h (g v))
    \<Longrightarrow> keeps_field h (case r of Inl e \<Rightarrow> f e | Inr v \<Rightarrow> g v)"
  by (cases r) auto

lemma keeps_field_case_option [intro]:
  "keeps_field h m \<Longrightarrow> (\<And>v. keeps_field h (g v))
    \<Longrightarrow> keeps_field h (case r of None \<Rightarrow> m | Some v \<Rightarrow> g v)"
  by (cases r) auto

lemma keeps_field_case_prod [intro]:
  "(\<And>a b. keeps_field h (f a b)) \<Longrightarrow> keeps_field h (case p of (a, b) \<Rightarrow> f a b)"
  by (cases p) simp

lemma keeps_field_ret [intro, simp]: "keeps_field f (ret x)"
  by (simp add: keeps_field_def)

lemma keeps_field_get [intro, simp]: "keeps_field f State_Monad.get"
  by (simp add: keeps_field_def)

lemma keeps_field_bind [intro]:
  "keeps_field f m \<Longrightarrow> (\<And>x. keeps_field f (g x)) \<Longrightarrow> keeps_field f (State_Monad.bind m g)"
  by (simp add: keeps_field_def case_prod_beta)

lemma keeps_field_if [intro]:
  "keeps_field f m \<Longrightarrow> keeps_field f n \<Longrightarrow> keeps_field f (if b then m else n)"
  by simp

lemma keeps_fieldD: "keeps_field f m \<Longrightarrow> f (state_after m s) = f s"
  by (simp add: keeps_field_def)

lemma keeps_field_runD: "keeps_field f m \<Longrightarrow> run m s = (r, s') \<Longrightarrow> f s' = f s"
  by (metis keeps_fieldD snd_conv)

lemma run_bind_Pair: "run m w = (x, w1) \<Longrightarrow> run (State_Monad.bind m f) w = run (f x) w1"
  by simp

lemmas keeps_intros = keeps_ret keeps_get keeps_bind keeps_if keeps_case_sum keeps_case_option
lemmas keeps_field_intros = keeps_field_ret keeps_field_get keeps_field_bind keeps_field_if
  keeps_field_case_sum keeps_field_case_option

section \<open>Lists\<close>

lemma find_SomeD: "List.find P xs = Some x \<Longrightarrow> x \<in> set xs \<and> P x"
  by (auto simp: find_Some_iff)

lemma find_None_conv: "List.find P xs = None \<longleftrightarrow> (\<forall>x \<in> set xs. \<not> P x)"
  by (auto simp: find_None_iff)

lemma find_append:
  "List.find P (xs @ ys) = (case List.find P xs of None \<Rightarrow> List.find P ys | Some x \<Rightarrow> Some x)"
  by (induction xs) auto

end
