(* ===== verification/GoText.thy ===== *)
theory GoText
  imports Prelude
begin

text \<open>
  The parts of Go's \<open>strings\<close>, \<open>slices\<close> and \<open>unicode/utf8\<close> packages that the
  service uses, on byte strings, and \<open>internal/utils/slices.go\<close>.
\<close>

section \<open>Bytes and runes\<close>

abbreviation byte :: "char \<Rightarrow> nat" where
  "byte c \<equiv> of_char c"

definition cont :: "nat \<Rightarrow> nat \<Rightarrow> char \<Rightarrow> bool" where
  "cont lo hi c \<longleftrightarrow> lo \<le> byte c \<and> byte c \<le> hi"

definition runeError :: nat where
  "runeError = 65533"

text \<open>
  \<open>utf8.DecodeRuneInString\<close>: the rune at the front of the string and its width; a byte
  that starts no well-formed sequence is \<open>(RuneError, 1)\<close>.
\<close>

fun decode_rune :: "gostring \<Rightarrow> nat \<times> nat" where
  "decode_rune [] = (runeError, 0)"
| "decode_rune (c0 # cs) =
     (let b0 = byte c0 in
      if b0 < 128 then (b0, 1)
      else if b0 < 194 \<or> 244 < b0 then (runeError, 1)
      else if b0 < 224 then
        (case cs of
           c1 # _ \<Rightarrow> if cont 128 191 c1 then ((b0 - 192) * 64 + (byte c1 - 128), 2)
                    else (runeError, 1)
         | _ \<Rightarrow> (runeError, 1))
      else if b0 < 240 then
        (case cs of
           c1 # c2 # _ \<Rightarrow>
             if cont (if b0 = 224 then 160 else 128) (if b0 = 237 then 159 else 191) c1
                \<and> cont 128 191 c2
             then ((b0 - 224) * 4096 + (byte c1 - 128) * 64 + (byte c2 - 128), 3)
             else (runeError, 1)
         | _ \<Rightarrow> (runeError, 1))
      else
        (case cs of
           c1 # c2 # c3 # _ \<Rightarrow>
             if cont (if b0 = 240 then 144 else 128) (if b0 = 244 then 143 else 191) c1
                \<and> cont 128 191 c2 \<and> cont 128 191 c3
             then ((b0 - 240) * 262144 + (byte c1 - 128) * 4096 + (byte c2 - 128) * 64
                   + (byte c3 - 128), 4)
             else (runeError, 1)
         | _ \<Rightarrow> (runeError, 1)))"

abbreviation rune_width :: "gostring \<Rightarrow> nat" where
  "rune_width s \<equiv> snd (decode_rune s)"

lemma rune_width_bounds:
  "s \<noteq> [] \<Longrightarrow> 0 < rune_width s \<and> rune_width s \<le> length s"
  by (cases s) (auto simp: Let_def split: list.splits)

lemma rune_width_pos [simp]: "0 < rune_width (c # cs)"
  using rune_width_bounds [of "c # cs"] by simp

lemma drop_rune_less: "s \<noteq> [] \<Longrightarrow> length s - rune_width s < length s"
  using rune_width_bounds [of s] by (cases s) auto

lemma decode_rune_ascii [simp]: "byte c < 128 \<Longrightarrow> decode_rune (c # cs) = (byte c, 1)"
  by simp

declare decode_rune.simps(2) [simp del]

text \<open>Every rune of a string, as \<open>for _, r := range s\<close> yields them.\<close>

function runes :: "gostring \<Rightarrow> nat list" where
  "runes s = (if s = [] then []
              else fst (decode_rune s) # runes (drop (rune_width s) s))"
  by pat_completeness auto
termination
  by (relation "measure length") (simp_all add: drop_rune_less)

declare runes.simps [simp del]

text \<open>\<open>utf8.ValidString\<close>.\<close>

function utf8_valid :: "gostring \<Rightarrow> bool" where
  "utf8_valid s =
     (if s = [] then True
      else if decode_rune s = (runeError, 1) then False
      else utf8_valid (drop (rune_width s) s))"
  by pat_completeness auto
termination
  by (relation "measure length") (simp_all add: drop_rune_less)

declare utf8_valid.simps [simp del]

lemma utf8_valid_Nil [simp]: "utf8_valid []"
  by (simp add: utf8_valid.simps)

text \<open>A string of ASCII bytes.\<close>

definition ascii :: "gostring \<Rightarrow> bool" where
  "ascii s \<longleftrightarrow> (\<forall>c \<in> set s. byte c < 128)"

lemma ascii_simps [simp]:
  "ascii []" "ascii (c # cs) \<longleftrightarrow> byte c < 128 \<and> ascii cs"
  "ascii (xs @ ys) \<longleftrightarrow> ascii xs \<and> ascii ys"
  by (auto simp: ascii_def)

lemma ascii_valid: "ascii s \<Longrightarrow> utf8_valid s"
proof (induction s)
  case Nil
  then show ?case by simp
next
  case (Cons c cs)
  then show ?case
    by (simp add: utf8_valid.simps [of "c # cs"] runeError_def)
qed

lemma runes_ascii: "ascii s \<Longrightarrow> runes s = map of_char s"
proof (induction s)
  case Nil
  then show ?case by (simp add: runes.simps)
next
  case (Cons c cs)
  then show ?case by (simp add: runes.simps [of "c # cs"])
qed

text \<open>
  Decoding looks only at the bytes of the rune: bytes after it do not matter, and an
  ASCII byte never continues a rune.
\<close>

lemma decode_rune_classes:
  "byte c0 < 128 \<Longrightarrow> decode_rune (c0 # cs) = (byte c0, 1)"
  "128 \<le> byte c0 \<Longrightarrow> byte c0 < 194 \<or> 244 < byte c0 \<Longrightarrow> decode_rune (c0 # cs) = (runeError, 1)"
  "194 \<le> byte c0 \<Longrightarrow> byte c0 < 224 \<Longrightarrow> decode_rune (c0 # cs) =
     (case cs of c1 # _ \<Rightarrow>
        if cont 128 191 c1 then ((byte c0 - 192) * 64 + (byte c1 - 128), 2) else (runeError, 1)
      | _ \<Rightarrow> (runeError, 1))"
  "224 \<le> byte c0 \<Longrightarrow> byte c0 < 240 \<Longrightarrow> decode_rune (c0 # cs) =
     (case cs of c1 # c2 # _ \<Rightarrow>
        if cont (if byte c0 = 224 then 160 else 128) (if byte c0 = 237 then 159 else 191) c1
           \<and> cont 128 191 c2
        then ((byte c0 - 224) * 4096 + (byte c1 - 128) * 64 + (byte c2 - 128), 3)
        else (runeError, 1)
      | _ \<Rightarrow> (runeError, 1))"
  "240 \<le> byte c0 \<Longrightarrow> byte c0 \<le> 244 \<Longrightarrow> decode_rune (c0 # cs) =
     (case cs of c1 # c2 # c3 # _ \<Rightarrow>
        if cont (if byte c0 = 240 then 144 else 128) (if byte c0 = 244 then 143 else 191) c1
           \<and> cont 128 191 c2 \<and> cont 128 191 c3
        then ((byte c0 - 240) * 262144 + (byte c1 - 128) * 4096 + (byte c2 - 128) * 64
              + (byte c3 - 128), 4)
        else (runeError, 1)
      | _ \<Rightarrow> (runeError, 1))"
  by (simp_all add: decode_rune.simps Let_def del: of_char_eq_iff)

lemma byte_class_cases:
  obtains "byte c < 128" | "128 \<le> byte c" "byte c < 194 \<or> 244 < byte c"
  | "194 \<le> byte c" "byte c < 224" | "224 \<le> byte c" "byte c < 240"
  | "240 \<le> byte c" "byte c \<le> 244"
  by linarith

lemma decode_rune_prefix:
  assumes "p \<noteq> []" and w: "rune_width (p @ q) \<le> length p"
  shows "decode_rune (p @ q) = decode_rune p"
proof -
  from assms(1) obtain c0 ps where p: "p = c0 # ps" by (cases p) auto
  note [split del] = if_split
  show ?thesis
  proof (cases c0 rule: byte_class_cases)
    case 3
    then show ?thesis
      using w p by (cases ps) (auto simp: decode_rune_classes(3) split: list.splits if_split_asm if_split)
  next
    case 4
    then show ?thesis
      using w p by (cases ps; cases "tl ps")
        (auto simp: decode_rune_classes(4) split: list.splits if_split_asm)
  next
    case 5
    then show ?thesis
      using w p by (cases ps; cases "tl ps"; cases "tl (tl ps)")
        (auto simp: decode_rune_classes(5) split: list.splits if_split_asm)
  qed (simp_all add: p decode_rune_classes(1,2))
qed

lemma decode_rune_extend:
  assumes "p \<noteq> []" and ok: "decode_rune p \<noteq> (runeError, 1)"
  shows "decode_rune (p @ q) = decode_rune p"
proof -
  from assms(1) obtain c0 ps where p: "p = c0 # ps" by (cases p) auto
  show ?thesis
  proof (cases c0 rule: byte_class_cases)
    case 3
    then show ?thesis
      using ok p by (cases ps) (auto simp: decode_rune_classes(3) split: if_split_asm)
  next
    case 4
    then show ?thesis
      using ok p by (cases ps; cases "tl ps") (auto simp: decode_rune_classes(4))
  next
    case 5
    then show ?thesis
      using ok p by (cases ps; cases "tl ps"; cases "tl (tl ps)")
        (auto simp: decode_rune_classes(5))
  qed (simp_all add: p decode_rune_classes(1,2))
qed

lemma decode_rune_before_ascii:
  assumes "p \<noteq> []" and c: "byte c < 128"
  shows "decode_rune (p @ c # q) = decode_rune p"
proof -
  have no: "\<not> cont a b c" if "128 \<le> a" for a b using c that by (simp add: cont_def)
  from assms(1) obtain c0 ps where p: "p = c0 # ps" by (cases p) auto
  show ?thesis
  proof (cases c0 rule: byte_class_cases)
    case 3
    then show ?thesis using no by (simp add: p decode_rune_classes(3) split: list.split)
  next
    case 4
    then show ?thesis using no
      by (cases ps; cases "tl ps") (simp_all add: p decode_rune_classes(4) split: list.split)
  next
    case 5
    then show ?thesis using no
      by (cases ps; cases "tl ps"; cases "tl (tl ps)")
        (simp_all add: p decode_rune_classes(5) split: list.split)
  qed (simp_all add: p decode_rune_classes(1,2))
qed

section \<open>Package strings\<close>

definition has_prefix :: "gostring \<Rightarrow> gostring \<Rightarrow> bool" where
  "has_prefix s p \<longleftrightarrow> take (length p) s = p"

text \<open>\<open>strings.Join\<close>.\<close>

fun join :: "gostring list \<Rightarrow> gostring \<Rightarrow> gostring" where
  "join [] sep = []"
| "join [x] sep = x"
| "join (x # y # xs) sep = x @ sep @ join (y # xs) sep"

text \<open>\<open>unicode.IsSpace\<close>.\<close>

definition is_space :: "nat \<Rightarrow> bool" where
  "is_space r \<longleftrightarrow> r \<in> {9, 10, 11, 12, 13, 32, 133, 160, 5760, 8232, 8233, 8239, 8287, 12288}
     \<or> (8192 \<le> r \<and> r \<le> 8202)"

text \<open>
  \<open>strings.Fields\<close>: the maximal runs of runes that are not white space.  \<open>cur\<close> is the
  field being collected, empty between fields.
\<close>

function fields_from :: "gostring \<Rightarrow> gostring \<Rightarrow> gostring list" where
  "fields_from cur s =
     (if s = [] then (if cur = [] then [] else [cur])
      else let (r, n) = decode_rune s in
           if is_space r
           then (if cur = [] then fields_from [] (drop n s)
                 else cur # fields_from [] (drop n s))
           else fields_from (cur @ take n s) (drop n s))"
  by pat_completeness auto
termination
  by (relation "measure (\<lambda>(cur, s). length s)")
    (simp, (simp, metis drop_rune_less snd_conv)+)

declare fields_from.simps [simp del]

definition Fields :: "gostring \<Rightarrow> gostring list" where
  "Fields s = fields_from [] s"

text \<open>
  The proof view of \<open>Fields\<close>: cut the string into the byte chunks of its runes, then
  group the chunks between white space.
\<close>

function chunks :: "gostring \<Rightarrow> gostring list" where
  "chunks s = (if s = [] then []
               else take (rune_width s) s # chunks (drop (rune_width s) s))"
  by pat_completeness auto
termination
  by (relation "measure length") (simp_all add: drop_rune_less)

declare chunks.simps [simp del]

definition space_chunk :: "gostring \<Rightarrow> bool" where
  "space_chunk c \<longleftrightarrow> is_space (fst (decode_rune c))"

fun group_chunks :: "gostring \<Rightarrow> gostring list \<Rightarrow> gostring list" where
  "group_chunks cur [] = (if cur = [] then [] else [cur])"
| "group_chunks cur (c # cs) =
     (if space_chunk c
      then (if cur = [] then group_chunks [] cs else cur # group_chunks [] cs)
      else group_chunks (cur @ c) cs)"

lemma chunks_Nil [simp]: "chunks [] = []"
  by (simp add: chunks.simps)

lemma chunks_nonempty: "s \<noteq> [] \<Longrightarrow>
  chunks s = take (rune_width s) s # chunks (drop (rune_width s) s)"
  by (simp add: chunks.simps)

lemma decode_rune_take: "s \<noteq> [] \<Longrightarrow> decode_rune (take (rune_width s) s) = decode_rune s"
  using decode_rune_prefix [of "take (rune_width s) s" "drop (rune_width s) s"]
    rune_width_bounds [of s] by simp

lemma fields_from_group: "fields_from cur s = group_chunks cur (chunks s)"
proof (induction cur s rule: fields_from.induct)
  case (1 cur s)
  show ?case
  proof (cases "s = []")
    case True
    then show ?thesis by (simp add: fields_from.simps)
  next
    case False
    moreover obtain r n where "decode_rune s = (r, n)" by fastforce
    ultimately show ?thesis
      using "1.IH" decode_rune_take [of s]
      by (simp add: fields_from.simps [of cur s] chunks_nonempty space_chunk_def)
  qed
qed

lemma concat_chunks [simp]: "concat (chunks s) = s"
proof (induction s rule: chunks.induct)
  case (1 s)
  then show ?case by (cases "s = []") (simp_all add: chunks_nonempty)
qed

lemma chunks_nonempty_elem: "c \<in> set (chunks s) \<Longrightarrow> c \<noteq> []"
proof (induction s rule: chunks.induct)
  case (1 s)
  then show ?case
    using rune_width_bounds [of s] by (cases "s = []") (auto simp: chunks_nonempty)
qed

text \<open>A run of whole chunks cuts into those chunks again.\<close>

lemma chunks_of_prefix: "chunks s = xs @ ys \<Longrightarrow> chunks (concat xs) = xs"
proof (induction xs arbitrary: s)
  case Nil
  then show ?case by simp
next
  case (Cons x xs)
  then have ne: "s \<noteq> []" by auto
  with Cons.prems have x: "x = take (rune_width s) s"
    and rest: "chunks (drop (rune_width s) s) = xs @ ys"
    by (simp_all add: chunks_nonempty)
  have s: "s = x @ concat xs @ concat ys"
    using concat_chunks [of s] Cons.prems by simp
  have lx: "length x = rune_width s" "x \<noteq> []"
    using x rune_width_bounds [OF ne] ne by auto
  have "decode_rune (x @ concat xs) = decode_rune s"
    using decode_rune_prefix [of "x @ concat xs" "concat ys"] s lx by simp
  then show ?case
    using lx Cons.IH [OF rest] by (simp add: chunks_nonempty [of "x @ concat xs"])
qed

lemma chunks_of_suffix: "chunks s = xs @ ys \<Longrightarrow> chunks (concat ys) = ys"
proof (induction xs arbitrary: s)
  case Nil
  then show ?case by (metis append_Nil concat_chunks)
next
  case (Cons x xs)
  then have "s \<noteq> []" by auto
  with Cons.prems have "chunks (drop (rune_width s) s) = xs @ ys"
    by (simp add: chunks_nonempty)
  then show ?case by (rule Cons.IH)
qed

lemma chunks_before_ascii:
  "byte c < 128 \<Longrightarrow> chunks (t @ c # rest) = chunks t @ [c] # chunks rest"
proof (induction t rule: chunks.induct)
  case (1 t)
  show ?case
  proof (cases "t = []")
    case True
    with "1.prems" show ?thesis by (simp add: chunks_nonempty [of "c # rest"])
  next
    case False
    have w: "rune_width t \<le> length t" using rune_width_bounds [OF False] by simp
    have "chunks (drop (rune_width t) t @ c # rest)
        = chunks (drop (rune_width t) t) @ [c] # chunks rest"
      using "1.IH" [OF False "1.prems"] .
    with False w "1.prems" show ?thesis
      by (simp add: chunks_nonempty [of "t @ c # rest"] chunks_nonempty [of t]
        decode_rune_before_ascii)
  qed
qed

text \<open>The tokens \<open>Fields\<close> can produce: not empty, and no chunk of them is white space.\<close>

definition token :: "gostring \<Rightarrow> bool" where
  "token t \<longleftrightarrow> t \<noteq> [] \<and> (\<forall>c \<in> set (chunks t). \<not> space_chunk c)"

lemma group_chunks_tokens:
  assumes "\<forall>c \<in> set pre. \<not> space_chunk c" and "chunks s = ini @ pre @ cs"
  shows "\<forall>t \<in> set (group_chunks (concat pre) cs). token t"
  using assms
proof (induction cs arbitrary: ini pre)
  case Nil
  then have "chunks (concat pre) = pre" using chunks_of_suffix [of s ini pre] by simp
  with Nil show ?case by (auto simp: token_def)
next
  case (Cons c cs)
  have pre: "chunks (concat pre) = pre"
    using chunks_of_prefix [of "concat (pre @ c # cs)" pre "c # cs"]
      chunks_of_suffix [of s ini "pre @ c # cs"] Cons.prems(2) by simp
  show ?case
  proof (cases "space_chunk c")
    case True
    have "\<forall>t \<in> set (group_chunks (concat []) cs). token t"
      using Cons.IH [of "[]" "ini @ pre @ [c]"] Cons.prems(2) by simp
    with True pre Cons.prems(1) show ?thesis by (auto simp: token_def)
  next
    case False
    with Cons.IH [of "pre @ [c]" ini] Cons.prems show ?thesis by simp
  qed
qed

lemma fields_tokens: "t \<in> set (Fields s) \<Longrightarrow> token t"
  using group_chunks_tokens [of "[]" s "[]" "chunks s"]
  by (simp add: Fields_def fields_from_group)

lemma group_chunks_run:
  "\<forall>c \<in> set cs. \<not> space_chunk c \<Longrightarrow> group_chunks cur (cs @ ds) = group_chunks (cur @ concat cs) ds"
  by (induction cs arbitrary: cur) auto

lemma fields_join:
  assumes "\<forall>t \<in> set ts. token t"
  shows "Fields (join ts '' '') = ts"
proof -
  have sp: "space_chunk '' ''" by (simp add: space_chunk_def is_space_def)
  from assms show ?thesis
  proof (induction ts "'' ''" rule: join.induct)
    case 1
    show ?case by (simp add: Fields_def fields_from_group)
  next
    case (2 x)
    then show ?case
      using group_chunks_run [of "chunks x" "[]" "[]"]
      by (simp add: Fields_def fields_from_group token_def)
  next
    case (3 x y xs)
    have "chunks (join (x # y # xs) '' '') = chunks x @ '' '' # chunks (join (y # xs) '' '')"
      by (simp add: chunks_before_ascii)
    with 3 sp show ?case
      using group_chunks_run [of "chunks x" "[]" "'' '' # chunks (join (y # xs) '' '')"]
      by (simp add: Fields_def fields_from_group token_def)
  qed
qed

section \<open>internal/utils/slices.go\<close>

text \<open>The set of the first slice is built in a map, then every element of the second is
  looked up in it.\<close>

fun to_map :: "('a \<rightharpoonup> unit) \<Rightarrow> 'a list \<Rightarrow> ('a \<rightharpoonup> unit)" where
  "to_map m [] = m"
| "to_map m (v # vs) = to_map (m(v \<mapsto> ())) vs"

fun all_in_map :: "('a \<rightharpoonup> unit) \<Rightarrow> 'a list \<Rightarrow> bool" where
  "all_in_map m [] = True"
| "all_in_map m (v # vs) = (if m v = None then False else all_in_map m vs)"

definition ContainsAll :: "'a list \<Rightarrow> 'a list \<Rightarrow> bool" where
  "ContainsAll main sub = all_in_map (to_map Map.empty main) sub"

lemma dom_to_map: "dom (to_map m vs) = dom m \<union> set vs"
  by (induction vs arbitrary: m) auto

lemma all_in_map_iff: "all_in_map m vs \<longleftrightarrow> set vs \<subseteq> dom m"
  by (induction vs) auto

lemma ContainsAll_iff [simp]: "ContainsAll main sub \<longleftrightarrow> set sub \<subseteq> set main"
  by (simp add: ContainsAll_def all_in_map_iff dom_to_map)

end
