(* ===== verification/Strconv.thy ===== *)
theory Strconv
  imports GoText
begin

text \<open>
  \<open>strconv.Itoa\<close> (which is also how \<open>%d\<close> and \<open>encoding/json\<close> print an \<open>int\<close>) and
  \<open>strconv.Atoi\<close>, on the 64 bits of an \<open>int\<close>.
\<close>

definition digit :: "nat \<Rightarrow> char" where
  "digit n = char_of (48 + n)"

fun nat_text :: "nat \<Rightarrow> gostring" where
  "nat_text n = (if n < 10 then [digit n] else nat_text (n div 10) @ [digit (n mod 10)])"

declare nat_text.simps [simp del]

definition itoa :: "int \<Rightarrow> gostring" where
  "itoa i = (if i < 0 then CHR ''-'' # nat_text (nat (- i)) else nat_text (nat i))"

definition is_digit :: "char \<Rightarrow> bool" where
  "is_digit c \<longleftrightarrow> 48 \<le> byte c \<and> byte c \<le> 57"

definition digits_value :: "gostring \<Rightarrow> nat" where
  "digits_value s = foldl (\<lambda>n c. 10 * n + (byte c - 48)) 0 s"

definition int64 :: "int \<Rightarrow> bool" where
  "int64 i \<longleftrightarrow> - (2 ^ 63) \<le> i \<and> i < 2 ^ 63"

definition atoi :: "gostring \<Rightarrow> int option" where
  "atoi s =
    (let neg = s \<noteq> [] \<and> hd s = CHR ''-'';
         d = (if s \<noteq> [] \<and> (hd s = CHR ''-'' \<or> hd s = CHR ''+'') then tl s else s);
         v = (if neg then - int (digits_value d) else int (digits_value d))
     in if d = [] \<or> \<not> list_all is_digit d \<or> \<not> int64 v then None else Some v)"

section \<open>Reading back what was printed\<close>

lemma digit_simps:
  assumes "n < 10"
  shows "is_digit (digit n)" "byte (digit n) = 48 + n" "digit n \<noteq> CHR ''-''" "digit n \<noteq> CHR ''+''"
proof -
  have "\<forall>n \<in> set [0..<10]. is_digit (digit n) \<and> byte (digit n) = 48 + n
      \<and> digit n \<noteq> CHR ''-'' \<and> digit n \<noteq> CHR ''+''"
    by code_simp
  with assms show "is_digit (digit n)" "byte (digit n) = 48 + n" "digit n \<noteq> CHR ''-''"
    "digit n \<noteq> CHR ''+''"
    by simp_all
qed

lemma digits_value_snoc: "digits_value (s @ [c]) = 10 * digits_value s + (byte c - 48)"
  by (simp add: digits_value_def)

lemma nat_text_reads:
  "nat_text n \<noteq> [] \<and> list_all is_digit (nat_text n) \<and> digits_value (nat_text n) = n"
proof (induction n rule: nat_text.induct)
  case (1 n)
  show ?case
  proof (cases "n < 10")
    case True
    then show ?thesis by (simp add: nat_text.simps [of n] digit_simps digits_value_def)
  next
    case False
    with 1 show ?thesis
      by (simp add: nat_text.simps [of n] digits_value_snoc digit_simps)
  qed
qed

lemma nat_text_no_sign: "hd (nat_text n) \<noteq> CHR ''-'' \<and> hd (nat_text n) \<noteq> CHR ''+''"
proof -
  have "is_digit (hd (nat_text n))"
    using nat_text_reads [of n] by (cases "nat_text n") auto
  then show ?thesis by (auto simp: is_digit_def)
qed

lemma atoi_itoa: "int64 i \<Longrightarrow> atoi (itoa i) = Some i"
  using nat_text_reads nat_text_no_sign
  by (auto simp: atoi_def itoa_def Let_def)

end
