(* ===== verification/App.thy ===== *)
theory App
  imports Prelude Strconv "HOL-Library.Monad_Syntax"
begin

text \<open>
  Start-up: \<open>internal/app\<close>, \<open>internal/database\<close> and the constructor of \<open>internal/cache\<close>.  The
  environment, the files, the PEM and X.509 decoders and the two servers are the parameter
  \<open>host\<close>; the state is the list of the connection pools that are open.
\<close>

section \<open>The host\<close>

record rsa_public =
  pk_N :: int
  pk_E :: int

text \<open>Of a private key the code reads the public half.\<close>

record rsa_private =
  sk_PublicKey :: rsa_public
  sk_bytes :: gostring

datatype parsed_key = RsaPrivate rsa_private | RsaPublic rsa_public | OtherKey gostring

definition go_type :: "parsed_key \<Rightarrow> gostring" where
  "go_type k = (case k of RsaPrivate _ \<Rightarrow> ''*rsa.PrivateKey'' | RsaPublic _ \<Rightarrow> ''*rsa.PublicKey''
     | OtherKey t \<Rightarrow> t)"

record redis_options =
  ro_Addrs :: "gostring list"
  ro_Password :: gostring
  ro_DB :: int

record host =
  os_Getenv :: "gostring \<Rightarrow> gostring" \<comment> \<open>empty when unset\<close>
  os_ReadFile :: "gostring \<Rightarrow> goerr + gostring"
  is_not_exist :: "goerr \<Rightarrow> bool" \<comment> \<open>\<open>errors.Is\<close> with \<open>fs.ErrNotExist\<close>\<close>
  host_quote :: "gostring \<Rightarrow> gostring" \<comment> \<open>\<open>%q\<close>\<close>
  pem_Decode :: "gostring \<Rightarrow> gostring option"
  ParsePKCS1PrivateKey :: "gostring \<Rightarrow> goerr + rsa_private"
  ParsePKCS8PrivateKey :: "gostring \<Rightarrow> goerr + parsed_key"
  ParsePKIXPublicKey :: "gostring \<Rightarrow> goerr + parsed_key"
  sqlx_Open :: "gostring \<Rightarrow> goerr option" \<comment> \<open>the error for a data source name\<close>
  sql_Ping :: "gostring \<Rightarrow> goerr option"
  redis_Ping :: "redis_options \<Rightarrow> goerr option"

datatype pool = SqlPool | RedisPool

type_synonym 'a startup = "(pool list, goerr + 'a) state"

definition open_pool :: "pool \<Rightarrow> (pool list, unit) state" where
  "open_pool p = State (\<lambda>s. ((), p # s))"

definition close_pool :: "pool \<Rightarrow> (pool list, unit) state" where
  "close_pool p = State (\<lambda>s. ((), remove1 p s))"

lemma run_pool [simp]: "run (open_pool p) s = ((), p # s)" "run (close_pool p) s = ((), remove1 p s)"
  by (simp_all add: open_pool_def close_pool_def)

section \<open>Configuration\<close>

record config =
  cf_DBHost :: gostring
  cf_DBPort :: int
  cf_DBUser :: gostring
  cf_DBPassword :: gostring
  cf_DBName :: gostring
  cf_RedisAddr :: gostring
  cf_RedisPassword :: gostring
  cf_RedisDB :: int
  cf_RSAPrivateKeyPath :: gostring
  cf_RSAPublicKeyPath :: gostring
  cf_HTTPAddr :: gostring
  cf_CookieSecure :: bool
  cf_LoginURL :: gostring

definition env :: "host \<Rightarrow> gostring \<Rightarrow> gostring \<Rightarrow> gostring" where
  "env os key def = (let v = os_Getenv os key in if v \<noteq> [] then v else def)"

definition envInt :: "host \<Rightarrow> gostring \<Rightarrow> int \<Rightarrow> int" where
  "envInt os key def = (case atoi (os_Getenv os key) of Some v \<Rightarrow> v | None \<Rightarrow> def)"

definition Load :: "host \<Rightarrow> config" where
  "Load os = \<lparr>
     cf_DBHost = env os ''DB_HOST'' ''localhost'',
     cf_DBPort = envInt os ''DB_PORT'' 3306,
     cf_DBUser = env os ''DB_USER'' ''iam'',
     cf_DBPassword = env os ''DB_PASSWORD'' ''secret'',
     cf_DBName = env os ''DB_NAME'' ''iam_db'',
     cf_RedisAddr = env os ''REDIS_ADDR'' ''localhost:6379'',
     cf_RedisPassword = os_Getenv os ''REDIS_PASSWORD'',
     cf_RedisDB = envInt os ''REDIS_DB'' 0,
     cf_RSAPrivateKeyPath = env os ''RSA_PRIVATE_KEY'' ''.rsa/private.pem'',
     cf_RSAPublicKeyPath = env os ''RSA_PUBLIC_KEY'' ''.rsa/public.pem'',
     cf_HTTPAddr = '':'' @ env os ''PORT'' ''8080'',
     cf_CookieSecure = (env os ''COOKIE_SECURE'' ''true'' = ''true''),
     cf_LoginURL = env os ''LOGIN_URL'' ''/login''\<rparr>"

section \<open>The signing keys\<close>

definition read_pem :: "host \<Rightarrow> gostring \<Rightarrow> gostring \<Rightarrow> goerr + gostring" where
  "read_pem os what path = (case os_ReadFile os path of
     Inl err \<Rightarrow>
       if is_not_exist os err then Inl (wrap (what @ '' key not found at '' @ host_quote os path) err)
       else Inl (wrap (''read '' @ what @ '' key'') err)
   | Inr contents \<Rightarrow> (case pem_Decode os contents of
       None \<Rightarrow> Inl (ErrNew (''decode '' @ what @ '' key PEM: no PEM block found''))
     | Some block \<Rightarrow> Inr block))"

definition private_key :: "host \<Rightarrow> gostring \<Rightarrow> goerr + rsa_private" where
  "private_key os block = (case ParsePKCS1PrivateKey os block of
     Inr key \<Rightarrow> Inr key
   | Inl err \<Rightarrow> (case ParsePKCS8PrivateKey os block of
       Inl _ \<Rightarrow> Inl (wrap ''parse private key'' err)
     | Inr (RsaPrivate key) \<Rightarrow> Inr key
     | Inr k \<Rightarrow> Inl (ErrNew (''parse private key: unsupported key type '' @ go_type k))))"

definition public_key :: "host \<Rightarrow> gostring \<Rightarrow> goerr + rsa_public" where
  "public_key os block = (case ParsePKIXPublicKey os block of
     Inl err \<Rightarrow> Inl (wrap ''parse public key'' err)
   | Inr (RsaPublic key) \<Rightarrow> Inr key
   | Inr k \<Rightarrow> Inl (ErrNew (''parse public key: unsupported key type '' @ go_type k)))"

definition loadRSAKeys :: "host \<Rightarrow> gostring \<Rightarrow> gostring \<Rightarrow> goerr + rsa_private \<times> rsa_public" where
  "loadRSAKeys os privateKeyPath publicKeyPath =
    (case read_pem os ''private'' privateKeyPath of
       Inl err \<Rightarrow> Inl err
     | Inr privateBlock \<Rightarrow> (case private_key os privateBlock of
         Inl err \<Rightarrow> Inl err
       | Inr privateKey \<Rightarrow> (case read_pem os ''public'' publicKeyPath of
           Inl err \<Rightarrow> Inl err
         | Inr publicBlock \<Rightarrow> (case public_key os publicBlock of
             Inl err \<Rightarrow> Inl err
           | Inr publicKey \<Rightarrow>
               if pk_N (sk_PublicKey privateKey) \<noteq> pk_N publicKey
                  \<or> pk_E (sk_PublicKey privateKey) \<noteq> pk_E publicKey
               then Inl (ErrNew ''private/public RSA keys do not match'')
               else Inr (privateKey, publicKey)))))"

section \<open>Connections\<close>

definition dsn :: "gostring \<Rightarrow> gostring \<Rightarrow> gostring \<Rightarrow> gostring \<Rightarrow> gostring \<Rightarrow> gostring" where
  "dsn user password host port name = user @ '':'' @ password @ ''@tcp('' @ host @ '':'' @ port
     @ '')/'' @ name @ ''?parseTime=true&charset=utf8mb4''"

definition Connect :: "host \<Rightarrow> config \<Rightarrow> unit startup" where
  "Connect os cfg =
    (let name = dsn (cf_DBUser cfg) (cf_DBPassword cfg) (cf_DBHost cfg) (itoa (cf_DBPort cfg)) (cf_DBName cfg)
     in case sqlx_Open os name of
       Some err \<Rightarrow> ret (Inl (wrap ''sqlx.Open'' err))
     | None \<Rightarrow> do {
         _ \<leftarrow> open_pool SqlPool;
         ret (case sql_Ping os name of
           Some err \<Rightarrow> Inl (wrap ''db.Ping'' err)
         | None \<Rightarrow> Inr ())
       })"

definition NewRedisClient :: "host \<Rightarrow> redis_options \<Rightarrow> unit startup" where
  "NewRedisClient os opts = do {
     _ \<leftarrow> open_pool RedisPool;
     ret (case redis_Ping os opts of
       Some err \<Rightarrow> Inl (wrap ''cache.New ping'' err)
     | None \<Rightarrow> Inr ())
   }"

record app =
  app_Cfg :: config
  app_privateKey :: rsa_private
  app_publicKey :: rsa_public

definition New :: "host \<Rightarrow> config \<Rightarrow> app startup" where
  "New os cfg = do {
     db \<leftarrow> Connect os cfg;
     case db of
       Inl err \<Rightarrow> ret (Inl (wrap ''app.New: database'' err))
     | Inr _ \<Rightarrow> do {
         rdb \<leftarrow> NewRedisClient os \<lparr>ro_Addrs = [cf_RedisAddr cfg], ro_Password = cf_RedisPassword cfg,
           ro_DB = cf_RedisDB cfg\<rparr>;
         case rdb of
           Inl err \<Rightarrow> do {
             _ \<leftarrow> close_pool SqlPool;
             ret (Inl (wrap ''app.New: redis'' err))
           }
         | Inr _ \<Rightarrow> (case loadRSAKeys os (cf_RSAPrivateKeyPath cfg) (cf_RSAPublicKeyPath cfg) of
             Inl err \<Rightarrow> do {
               _ \<leftarrow> close_pool RedisPool;
               _ \<leftarrow> close_pool SqlPool;
               ret (Inl (wrap ''app.New: rsa keys'' err))
             }
           | Inr (privateKey, publicKey) \<Rightarrow>
               ret (Inr \<lparr>app_Cfg = cfg, app_privateKey = privateKey, app_publicKey = publicKey\<rparr>))
       }
   }"

text \<open>What \<open>Close\<close> returns is the errors of the two libraries joined; it closes both pools.\<close>

definition Close :: "(pool list, unit) state" where
  "Close = do {
     _ \<leftarrow> close_pool RedisPool;
     close_pool SqlPool
   }"

section \<open>What start-up leaves open\<close>

lemma loadRSAKeys_match: "loadRSAKeys os p q = Inr (sk, pk) \<Longrightarrow> sk_PublicKey sk = pk"
  by (auto simp: loadRSAKeys_def split: sum.splits if_splits)

text \<open>C33: Start-up ends with both pools open and a key pair whose halves match, and \<open>Close\<close> then closes
  both; or it fails.  A failure of the keys leaves nothing open, and a failure of Redis closes the
  database; but a pool that was opened and did not answer its ping is never closed: after a
  failed start-up exactly the pool whose ping failed is still open.\<close>

theorem start_up_pools:
  "case run (New os cfg) [] of
     (Inr a, pools) \<Rightarrow> pools = [RedisPool, SqlPool] \<and> sk_PublicKey (app_privateKey a) = app_publicKey a
       \<and> app_Cfg a = cfg \<and> run Close pools = ((), [])
   | (Inl (Errorf m e post), pools) \<Rightarrow>
       pools = (if m = ''app.New: database: '' \<and> (\<exists>e'. e = wrap ''db.Ping'' e') then [SqlPool]
         else if m = ''app.New: redis: '' then [RedisPool] else [])
       \<and> m \<in> {''app.New: database: '', ''app.New: redis: '', ''app.New: rsa keys: ''} \<and> post = []
   | _ \<Rightarrow> False"
  using loadRSAKeys_match [of os "cf_RSAPrivateKeyPath cfg" "cf_RSAPublicKeyPath cfg"]
  by (auto simp: New_def Connect_def NewRedisClient_def Close_def Let_def
      split: option.split sum.split prod.split)

end
