(* ===== verification/Base64.thy ===== *)
theory Base64
  imports GoText
begin

text \<open>
  Text encodings of the Go standard library: \<open>base64.RawURLEncoding\<close> (RFC 4648 section 5,
  no padding), its decoder as a receiver applies it, and the \<open>%x\<close> verb on byte arrays.
\<close>

section \<open>base64.RawURLEncoding\<close>

definition b64_alphabet :: gostring where
  "b64_alphabet = ''ABCDEFGHIJKLMNOPQRSTUVWXYZabcdefghijklmnopqrstuvwxyz0123456789-_''"

definition b64_char :: "nat \<Rightarrow> char" where
  "b64_char n = b64_alphabet ! n"

fun b64_encode :: "nat list \<Rightarrow> gostring" where
  "b64_encode [] = []"
| "b64_encode [a] = [b64_char (a div 4), b64_char (a mod 4 * 16)]"
| "b64_encode [a, b] =
     [b64_char (a div 4), b64_char (a mod 4 * 16 + b div 16), b64_char (b mod 16 * 4)]"
| "b64_encode (a # b # c # r) =
     b64_char (a div 4) # b64_char (a mod 4 * 16 + b div 16)
     # b64_char (b mod 16 * 4 + c div 64) # b64_char (c mod 64) # b64_encode r"

definition base64_raw_url :: "gostring \<Rightarrow> gostring" where
  "base64_raw_url s = b64_encode (map of_char s)"

definition b64_value :: "char \<Rightarrow> nat option" where
  "b64_value c = map_of (zip b64_alphabet [0..<64]) c"

text \<open>The bytes of one group of four, three or two characters.\<close>

definition b64_group :: "nat \<Rightarrow> nat \<Rightarrow> nat \<Rightarrow> nat \<Rightarrow> nat list" where
  "b64_group p q r s = [p * 4 + q div 16, q mod 16 * 16 + r div 4, r mod 4 * 64 + s]"

fun b64_decode :: "gostring \<Rightarrow> nat list option" where
  "b64_decode [] = Some []"
| "b64_decode [p] = None"
| "b64_decode [p, q] =
     (case (b64_value p, b64_value q) of
        (Some p', Some q') \<Rightarrow> Some (take 1 (b64_group p' q' 0 0)) | _ \<Rightarrow> None)"
| "b64_decode [p, q, r] =
     (case (b64_value p, b64_value q, b64_value r) of
        (Some p', Some q', Some r') \<Rightarrow> Some (take 2 (b64_group p' q' r' 0)) | _ \<Rightarrow> None)"
| "b64_decode (p # q # r # s # rest) =
     (case (b64_value p, b64_value q, b64_value r, b64_value s, b64_decode rest) of
        (Some p', Some q', Some r', Some s', Some bs) \<Rightarrow> Some (b64_group p' q' r' s' @ bs)
      | _ \<Rightarrow> None)"

definition base64_raw_url_decode :: "gostring \<Rightarrow> gostring option" where
  "base64_raw_url_decode s = map_option (map char_of) (b64_decode s)"

lemma b64_value_char [simp]: "n < 64 \<Longrightarrow> b64_value (b64_char n) = Some n"
proof -
  assume "n < 64"
  moreover have "\<forall>n \<in> set [0..<64]. b64_value (b64_char n) = Some n"
    by code_simp
  ultimately show ?thesis by simp
qed

lemma byte_parts:
  fixes a b :: nat
  assumes "a < 256" and "b < 256"
  shows "a div 4 < 64" "a mod 4 * 16 + b div 16 < 64" "a mod 16 * 4 + b div 64 < 64"
    "a mod 4 * 16 < 64" "a mod 16 * 4 < 64"
  using assms by auto

lemma b64_group_parts:
  fixes a b c :: nat
  assumes "a < 256" "b < 256" "c < 256"
  shows "b64_group (a div 4) (a mod 4 * 16 + b div 16) (b mod 16 * 4 + c div 64) (c mod 64)
      = [a, b, c]"
  using assms by (simp add: b64_group_def)

lemma b64_decode_encode:
  "\<forall>b \<in> set bs. b < 256 \<Longrightarrow> b64_decode (b64_encode bs) = Some bs"
proof (induction bs rule: b64_encode.induct)
  case 1
  show ?case by simp
next
  case (2 a)
  then show ?case
    using byte_parts [of a 0] b64_group_parts [of a 0 0] by simp
next
  case (3 a b)
  then show ?case
    using byte_parts [of a b] byte_parts [of b 0] b64_group_parts [of a b 0] by simp
next
  case (4 a b c r)
  then show ?case
    using byte_parts [of a b] byte_parts [of b c] b64_group_parts [of a b c] by simp
qed

lemma base64_roundtrip [simp]: "base64_raw_url_decode (base64_raw_url s) = Some s"
  using b64_decode_encode [of "map of_char s"]
  by (simp add: base64_raw_url_def base64_raw_url_decode_def comp_def)

lemma base64_inject [simp]: "base64_raw_url s = base64_raw_url t \<longleftrightarrow> s = t"
  by (metis base64_roundtrip option.inject)

lemma length_b64_encode: "length (b64_encode bs) = (4 * length bs + 2) div 3"
  by (induction bs rule: b64_encode.induct) auto

lemma length_base64: "length (base64_raw_url s) = (4 * length s + 2) div 3"
  by (simp add: base64_raw_url_def length_b64_encode)

text \<open>Only characters of the alphabet appear: the text is URL-safe ASCII.\<close>

lemma b64_char_alphabet: "n < 64 \<Longrightarrow> b64_char n \<in> set b64_alphabet"
  unfolding b64_char_def by (rule nth_mem) (simp add: b64_alphabet_def)

lemma b64_encode_alphabet:
  "\<forall>b \<in> set bs. b < 256 \<Longrightarrow> set (b64_encode bs) \<subseteq> set b64_alphabet"
proof (induction bs rule: b64_encode.induct)
  case (2 a)
  then show ?case using byte_parts [of a 0] by (simp add: b64_char_alphabet)
next
  case (3 a b)
  then show ?case
    using byte_parts [of a b] byte_parts [of b 0] by (simp add: b64_char_alphabet)
next
  case (4 a b c r)
  then show ?case
    using byte_parts [of a b] byte_parts [of b c] by (simp add: b64_char_alphabet)
qed simp

lemma base64_alphabet: "set (base64_raw_url s) \<subseteq> set b64_alphabet"
  using b64_encode_alphabet [of "map of_char s"]
  by (auto simp: base64_raw_url_def)

lemma b64_alphabet_ascii: "c \<in> set b64_alphabet \<Longrightarrow> byte c < 128"
  by (auto simp: b64_alphabet_def)

lemma base64_ascii [simp]: "ascii (base64_raw_url s)"
  using base64_alphabet [of s] b64_alphabet_ascii by (auto simp: ascii_def)

section \<open>The verb x of fmt\<close>

definition hex_char :: "nat \<Rightarrow> char" where
  "hex_char n = ''0123456789abcdef'' ! n"

definition hex :: "gostring \<Rightarrow> gostring" where
  "hex s = concat (map (\<lambda>c. [hex_char (byte c div 16), hex_char (byte c mod 16)]) s)"

definition lower_hex :: "gostring \<Rightarrow> bool" where
  "lower_hex s \<longleftrightarrow> set s \<subseteq> set ''0123456789abcdef''"

lemma hex_char_inject [simp]: "m < 16 \<Longrightarrow> n < 16 \<Longrightarrow> hex_char m = hex_char n \<longleftrightarrow> m = n"
proof -
  assume "m < 16" "n < 16"
  moreover have "\<forall>m \<in> set [0..<16]. \<forall>n \<in> set [0..<16]. hex_char m = hex_char n \<longrightarrow> m = n"
    by code_simp
  ultimately show ?thesis by auto
qed

lemma byte_div_mod: "byte c div 16 < 16" "byte c mod 16 < 16"
  by (rule less_mult_imp_div_less, simp) simp

lemma byte_div_mod_inject:
  "byte c div 16 = byte d div 16 \<Longrightarrow> byte c mod 16 = byte d mod 16 \<Longrightarrow> c = d"
  by (metis div_mult_mod_eq of_char_eq_iff)

lemma hex_inject [simp]: "hex s = hex t \<longleftrightarrow> s = t"
proof
  show "hex s = hex t \<Longrightarrow> s = t"
  proof (induction s arbitrary: t)
    case Nil
    then show ?case by (cases t) (auto simp: hex_def)
  next
    case (Cons c s)
    then obtain d u where t: "t = d # u" by (cases t) (auto simp: hex_def)
    with Cons.prems have "hex s = hex u" "c = d"
      by (auto simp: hex_def byte_div_mod intro: byte_div_mod_inject)
    with Cons.IH t show ?case by simp
  qed
qed simp

lemma length_hex [simp]: "length (hex s) = 2 * length s"
  by (induction s) (auto simp: hex_def)

lemma hex_char_lower: "n < 16 \<Longrightarrow> hex_char n \<in> set ''0123456789abcdef''"
  unfolding hex_char_def by (rule nth_mem) simp

lemma lower_hex_hex [simp]: "lower_hex (hex s)"
  unfolding lower_hex_def hex_def
proof (induction s)
  case (Cons c s)
  have "set [hex_char (byte c div 16), hex_char (byte c mod 16)] \<subseteq> set ''0123456789abcdef''"
    using hex_char_lower [OF byte_div_mod(1) [of c]] hex_char_lower [OF byte_div_mod(2) [of c]]
    by (simp only: list.set) blast
  with Cons.IH show ?case by (simp only: list.map concat.simps set_append Un_subset_iff)
qed (simp only: list.map concat.simps list.set(1) empty_subsetI)

section \<open>Numbers as bytes\<close>

text \<open>\<open>big.Int.Bytes\<close>: the absolute value, big-endian, no leading zero.\<close>

fun nat_bytes :: "nat \<Rightarrow> gostring" where
  "nat_bytes n = (if n = 0 then [] else nat_bytes (n div 256) @ [char_of (n mod 256)])"

declare nat_bytes.simps [simp del]

lemma nat_bytes_0 [simp]: "nat_bytes 0 = []"
  by (simp add: nat_bytes.simps)

definition bytes_nat :: "gostring \<Rightarrow> nat" where
  "bytes_nat = foldl (\<lambda>n c. 256 * n + of_char c) 0"

lemma bytes_nat_snoc [simp]: "bytes_nat (s @ [c]) = 256 * bytes_nat s + of_char c"
  by (simp add: bytes_nat_def)

lemma bytes_nat_bytes [simp]: "bytes_nat (nat_bytes n) = n"
proof (induction n rule: nat_bytes.induct)
  case (1 n)
  show ?case
  proof (cases "n = 0")
    case False
    with 1 show ?thesis by (subst nat_bytes.simps) simp
  qed (simp add: nat_bytes.simps bytes_nat_def)
qed

lemma nat_bytes_no_zero: "nat_bytes n \<noteq> [] \<Longrightarrow> hd (nat_bytes n) \<noteq> char_of (0::nat)"
proof (induction n rule: nat_bytes.induct)
  case (1 n)
  show ?case
  proof (cases "n < 256")
    case True
    then have "n = 0 \<or> char_of n \<noteq> char_of (0::nat)"
      by (metis (lifting) mod_less of_char_of mod_0)
    with "1.prems" True show ?thesis
      by (auto simp: nat_bytes.simps [of n] split: if_splits)
  next
    case False
    then have "n \<noteq> 0" and nz: "n div 256 \<noteq> 0" by auto
    then have "nat_bytes (n div 256) \<noteq> []" by (subst nat_bytes.simps) simp
    with 1 \<open>n \<noteq> 0\<close> show ?thesis by (subst nat_bytes.simps) simp
  qed
qed

end
