(* ===== verification/Json.thy ===== *)
theory Json
  imports GoText Base64
begin

text \<open>
  Package \<open>encoding/json\<close> as the service uses it: \<open>Marshal\<close> and \<open>Unmarshal\<close> of the
  values it keeps in Redis and in JSON columns, and \<open>Decoder.Decode\<close> of request bodies.
  A JSON text is a byte string, a JSON value the datatype \<open>json\<close>; a number is kept as its
  literal, for no structure of the service reads one.
\<close>

datatype json =
    JNull | JBool bool | JNum gostring | JStr gostring
  | JArr "json list" | JObj "(gostring \<times> json) list"

section \<open>Marshal\<close>

text \<open>
  Strings are quoted with HTML escaping on, the default of \<open>Marshal\<close>: the two escapes with
  a letter, \<open>\u00xx\<close> for control characters and \<open><\<close>, \<open>>\<close>, \<open>&\<close>, \<open>\u2028\<close> and
  \<open>\u2029\<close>, and \<open>\ufffd\<close> for a byte that is not part of a well-formed rune.
\<close>

definition bslash :: char where "bslash = CHR 0x5C"
definition quot :: char where "quot = CHR 0x22"

definition quote_ascii :: "nat \<Rightarrow> gostring" where
  "quote_ascii b =
     (if b = 34 \<or> b = 92 then [bslash, char_of b]
      else if b = 8 then [bslash, CHR ''b'']
      else if b = 12 then [bslash, CHR ''f'']
      else if b = 10 then [bslash, CHR ''n'']
      else if b = 13 then [bslash, CHR ''r'']
      else if b = 9 then [bslash, CHR ''t'']
      else if b < 32 \<or> b = 60 \<or> b = 62 \<or> b = 38
      then [bslash, CHR ''u'', CHR ''0'', CHR ''0'', hex_char (b div 16), hex_char (b mod 16)]
      else [char_of b])"

function quote_body :: "gostring \<Rightarrow> gostring" where
  "quote_body s =
     (if s = [] then []
      else let (r, n) = decode_rune s in
        (if r < 128 then quote_ascii r
         else if r = runeError \<and> n = 1 then bslash # ''ufffd''
         else if r = 8232 \<or> r = 8233 then bslash # ''u202'' @ [hex_char (r mod 16)]
         else take n s)
        @ quote_body (drop n s))"
  by pat_completeness auto
termination
  by (relation "measure length") (simp, simp, metis drop_rune_less snd_conv)

declare quote_body.simps [simp del]

definition json_quote :: "gostring \<Rightarrow> gostring" where
  "json_quote s = quot # quote_body s @ [quot]"

fun json_text :: "json \<Rightarrow> gostring" where
  "json_text JNull = ''null''"
| "json_text (JBool b) = (if b then ''true'' else ''false'')"
| "json_text (JNum t) = t"
| "json_text (JStr s) = json_quote s"
| "json_text (JArr xs) = ''['' @ join (map json_text xs) '','' @ '']''"
| "json_text (JObj kvs) =
     ''{'' @ join (map (\<lambda>(k, v). json_quote k @ '':'' @ json_text v) kvs) '','' @ ''}''"

section \<open>Unmarshal: lexical level\<close>

definition is_ws :: "char \<Rightarrow> bool" where
  "is_ws c \<longleftrightarrow> byte c \<in> {32, 9, 10, 13 :: nat}"

definition skip_ws :: "gostring \<Rightarrow> gostring" where
  "skip_ws s = dropWhile is_ws s"

text \<open>\<open>utf8.EncodeRune\<close>.\<close>

definition encode_rune :: "nat \<Rightarrow> gostring" where
  "encode_rune r =
     (let r = (if (55296 \<le> r \<and> r \<le> 57343) \<or> 1114111 < r then runeError else r) in
      if r < 128 then [char_of r]
      else if r < 2048 then [char_of (192 + r div 64), char_of (128 + r mod 64)]
      else if r < 65536
      then [char_of (224 + r div 4096), char_of (128 + r div 64 mod 64), char_of (128 + r mod 64)]
      else [char_of (240 + r div 262144), char_of (128 + r div 4096 mod 64),
            char_of (128 + r div 64 mod 64), char_of (128 + r mod 64)])"

definition hex_value :: "char \<Rightarrow> nat option" where
  "hex_value c =
     (let b = byte c in
      if 48 \<le> b \<and> b \<le> 57 then Some (b - 48)
      else if 97 \<le> b \<and> b \<le> 102 then Some (b - 87)
      else if 65 \<le> b \<and> b \<le> 70 then Some (b - 55)
      else None)"

definition hex4 :: "gostring \<Rightarrow> nat option" where
  "hex4 s = (case s of
     a # b # c # d # _ \<Rightarrow>
       (case (hex_value a, hex_value b, hex_value c, hex_value d) of
          (Some a, Some b, Some c, Some d) \<Rightarrow> Some (((a * 16 + b) * 16 + c) * 16 + d)
        | _ \<Rightarrow> None)
   | _ \<Rightarrow> None)"

text \<open>
  The rune of \<open>\uXXXX\<close> and what follows it; a surrogate that is not the first half of a
  pair becomes \<open>RuneError\<close>.
\<close>

definition low_surrogate :: "nat \<Rightarrow> gostring \<Rightarrow> nat option" where
  "low_surrogate hi s = (case s of
     e # u # r \<Rightarrow>
       (if e = bslash \<and> u = CHR ''u'' \<and> 55296 \<le> hi \<and> hi < 56320 then
          (case hex4 r of
             Some lo \<Rightarrow> if 56320 \<le> lo \<and> lo < 57344
                       then Some ((hi - 55296) * 1024 + (lo - 56320) + 65536) else None
           | None \<Rightarrow> None)
        else None)
   | _ \<Rightarrow> None)"

definition unescape_u :: "gostring \<Rightarrow> (gostring \<times> gostring) option" where
  "unescape_u r = (case hex4 r of
     None \<Rightarrow> None
   | Some u \<Rightarrow>
       if 55296 \<le> u \<and> u < 57344 then
         (case low_surrogate u (drop 4 r) of
            Some x \<Rightarrow> Some (encode_rune x, drop 10 r)
          | None \<Rightarrow> Some (encode_rune runeError, drop 4 r))
       else Some (encode_rune u, drop 4 r))"

definition unescape :: "gostring \<Rightarrow> (gostring \<times> gostring) option" where
  "unescape s = (case s of
     [] \<Rightarrow> None
   | c # r \<Rightarrow>
       if c = quot \<or> c = bslash \<or> c = CHR ''/'' then Some ([c], r)
       else if c = CHR ''b'' then Some ([CHR 0x08], r)
       else if c = CHR ''f'' then Some ([CHR 0x0C], r)
       else if c = CHR ''n'' then Some ([CHR 0x0A], r)
       else if c = CHR ''r'' then Some ([CHR 0x0D], r)
       else if c = CHR ''t'' then Some ([CHR 0x09], r)
       else if c = CHR ''u'' then unescape_u r
       else None)"

lemma unescape_shorter: "unescape s = Some (t, r) \<Longrightarrow> length r < length s"
  by (auto simp: unescape_def unescape_u_def split: list.splits if_splits option.splits)

abbreviation prepend :: "gostring \<Rightarrow> (gostring \<times> gostring) option \<Rightarrow> (gostring \<times> gostring) option"
  where "prepend t \<equiv> map_option (apfst ((@) t))"

text \<open>The rest of a string literal after its opening quote: its value and what follows.\<close>

function pstr :: "gostring \<Rightarrow> (gostring \<times> gostring) option" where
  "pstr s = (case s of
     [] \<Rightarrow> None
   | c # cs \<Rightarrow>
       if c = quot then Some ([], cs)
       else if c = bslash then
         (case unescape cs of None \<Rightarrow> None | Some (t, r) \<Rightarrow> prepend t (pstr r))
       else if byte c < 32 then None
       else if decode_rune s = (runeError, 1)
       then prepend (encode_rune runeError) (pstr cs)
       else prepend (take (rune_width s) s) (pstr (drop (rune_width s) s)))"
  by pat_completeness auto
termination
  by (relation "measure length") (auto dest: unescape_shorter simp: drop_rune_less)

declare pstr.simps [simp del]

text \<open>A number literal: sign, integer part without leading zero, fraction, exponent.\<close>

definition is_digit :: "char \<Rightarrow> bool" where
  "is_digit c \<longleftrightarrow> 48 \<le> byte c \<and> byte c \<le> 57"

definition pdigits :: "gostring \<Rightarrow> (gostring \<times> gostring) option" where
  "pdigits s = (let ds = takeWhile is_digit s in
     if ds = [] then None else Some (ds, dropWhile is_digit s))"

definition pint :: "gostring \<Rightarrow> (gostring \<times> gostring) option" where
  "pint s = (case s of
     c # r \<Rightarrow> if c = CHR ''0'' then Some ([c], r) else pdigits s
   | [] \<Rightarrow> None)"

definition pfrac :: "gostring \<Rightarrow> (gostring \<times> gostring) option" where
  "pfrac s = (case s of
     c # r \<Rightarrow> if c = CHR ''.'' then prepend [c] (pdigits r) else Some ([], s)
   | [] \<Rightarrow> Some ([], []))"

definition pexp :: "gostring \<Rightarrow> (gostring \<times> gostring) option" where
  "pexp s = (case s of
     c # r \<Rightarrow>
       if c = CHR ''e'' \<or> c = CHR ''E'' then
         (case r of
            g # r' \<Rightarrow> if g = CHR ''+'' \<or> g = CHR ''-'' then prepend [c, g] (pdigits r')
                     else prepend [c] (pdigits r)
          | [] \<Rightarrow> None)
       else Some ([], s)
   | [] \<Rightarrow> Some ([], []))"

definition pnum :: "gostring \<Rightarrow> (gostring \<times> gostring) option" where
  "pnum s =
     (let (sign, s0) = (case s of c # r \<Rightarrow> if c = CHR ''-'' then ([c], r) else ([], s)
                        | [] \<Rightarrow> ([], [])) in
      case pint s0 of
        None \<Rightarrow> None
      | Some (i, s1) \<Rightarrow>
         (case pfrac s1 of
            None \<Rightarrow> None
          | Some (f, s2) \<Rightarrow>
             (case pexp s2 of
                None \<Rightarrow> None
              | Some (e, s3) \<Rightarrow> Some (sign @ i @ f @ e, s3))))"

definition pliteral :: "gostring \<Rightarrow> json \<Rightarrow> gostring \<Rightarrow> (json \<times> gostring) option" where
  "pliteral w v s = (if has_prefix s w then Some (v, drop (length w) s) else None)"

end
