(* ===== verification/Url.thy ===== *)
theory Url
  imports GoText Json "HOL-Library.Char_ord" "HOL-Library.List_Lexorder"
begin

text \<open>
  What the HTTP layer uses of Go's \<open>net/url\<close> and \<open>path\<close>: percent encoding, query strings,
  parsing and printing a URL, and \<open>path.Clean\<close>.  The text between square brackets of a host (an
  IP literal, checked by \<open>net/netip\<close>) is the one thing not spelled out: the parser takes how a
  host with a bracket is read as an argument.
\<close>

section \<open>Percent encoding\<close>

datatype enc_mode = EncodePath | EncodeUserPassword | EncodeHost | EncodeQueryComponent | EncodeFragment

definition alnum :: "char \<Rightarrow> bool" where
  "alnum c \<longleftrightarrow> cont 48 57 c \<or> cont 65 90 c \<or> cont 97 122 c"

definition should_escape :: "char \<Rightarrow> enc_mode \<Rightarrow> bool" where
  "should_escape c m =
    (if alnum c then False
     else if m = EncodeHost \<and> c \<in> set (CHR 0x27 # ''!$&()*+,;=:[]<>\"'') then False
     else if c \<in> set ''-_.~'' then False
     else if c \<in> set ''$&+,/:;=?@'' then
       (case m of
          EncodePath \<Rightarrow> c = CHR ''?''
        | EncodeUserPassword \<Rightarrow> c \<in> set ''@/?:''
        | EncodeFragment \<Rightarrow> False
        | _ \<Rightarrow> True)
     else if m = EncodeFragment \<and> c \<in> set ''!()*'' then False
     else True)"

definition upper_hex :: "nat \<Rightarrow> char" where
  "upper_hex n = ''0123456789ABCDEF'' ! n"

definition escape_char :: "enc_mode \<Rightarrow> char \<Rightarrow> gostring" where
  "escape_char m c =
    (if c = CHR '' '' \<and> m = EncodeQueryComponent then ''+''
     else if should_escape c m
     then [CHR 0x25, upper_hex (byte c div 16), upper_hex (byte c mod 16)]
     else [c])"

definition url_escape :: "enc_mode \<Rightarrow> gostring \<Rightarrow> gostring" where
  "url_escape m s = concat (map (escape_char m) s)"

fun url_unescape :: "enc_mode \<Rightarrow> gostring \<Rightarrow> gostring option" where
  "url_unescape m [] = Some []"
| "url_unescape m (c # cs) =
    (if c = CHR 0x25 then
       (case cs of
          a # b # r \<Rightarrow>
            (case (hex_value a, hex_value b) of
               (Some x, Some y) \<Rightarrow>
                 if m = EncodeHost \<and> x < 8 \<and> \<not> (a = CHR ''2'' \<and> b = CHR ''5'') then None
                 else map_option ((#) (char_of (16 * x + y))) (url_unescape m r)
             | _ \<Rightarrow> None)
        | _ \<Rightarrow> None)
     else if c = CHR ''+'' \<and> m = EncodeQueryComponent
     then map_option ((#) (CHR '' '')) (url_unescape m cs)
     else if m = EncodeHost \<and> byte c < 128 \<and> should_escape c m then None
     else map_option ((#) c) (url_unescape m cs))"

section \<open>Package strings\<close>

text \<open>\<open>strings.Cut\<close> at a character, and \<open>strings.Split\<close> at one.\<close>

definition cut :: "char \<Rightarrow> gostring \<Rightarrow> gostring \<times> gostring" where
  "cut c s = (takeWhile (\<lambda>x. x \<noteq> c) s, drop 1 (dropWhile (\<lambda>x. x \<noteq> c) s))"

fun split_on :: "char \<Rightarrow> gostring \<Rightarrow> gostring list" where
  "split_on c [] = [[]]"
| "split_on c (x # xs) = (if x = c then [] # split_on c xs
     else case split_on c xs of [] \<Rightarrow> [[x]] | p # ps \<Rightarrow> (x # p) # ps)"

text \<open>The text after the last occurrence of a character, and the text before it.\<close>

definition cut_last :: "char \<Rightarrow> gostring \<Rightarrow> (gostring \<times> gostring) option" where
  "cut_last c s = (if c \<in> set s
     then Some (rev (drop 1 (dropWhile (\<lambda>x. x \<noteq> c) (rev s))), rev (takeWhile (\<lambda>x. x \<noteq> c) (rev s)))
     else None)"

section \<open>url.Values\<close>

type_synonym vals = "(gostring \<times> gostring list) list"

fun vals_add :: "gostring \<Rightarrow> gostring \<Rightarrow> vals \<Rightarrow> vals" where
  "vals_add k v [] = [(k, [v])]"
| "vals_add k v ((k', vs) # m) = (if k = k' then (k', vs @ [v]) # m else (k', vs) # vals_add k v m)"

fun vals_set :: "gostring \<Rightarrow> gostring \<Rightarrow> vals \<Rightarrow> vals" where
  "vals_set k v [] = [(k, [v])]"
| "vals_set k v ((k', vs) # m) = (if k = k' then (k', [v]) # m else (k', vs) # vals_set k v m)"

definition vals_get :: "vals \<Rightarrow> gostring \<Rightarrow> gostring" where
  "vals_get m k = (case map_of m k of Some (v # _) \<Rightarrow> v | _ \<Rightarrow> [])"

text \<open>\<open>Values.Encode\<close>: sorted by key.\<close>

definition pair_text :: "gostring \<times> gostring \<Rightarrow> gostring" where
  "pair_text p = url_escape EncodeQueryComponent (fst p) @ ''='' @ url_escape EncodeQueryComponent (snd p)"

definition vals_pairs :: "vals \<Rightarrow> (gostring \<times> gostring) list" where
  "vals_pairs m = concat (map (\<lambda>(k, vs). map (Pair k) vs) (sort_key fst m))"

definition vals_encode :: "vals \<Rightarrow> gostring" where
  "vals_encode m = join (map pair_text (vals_pairs m)) ''&''"

text \<open>
  \<open>ParseQuery\<close> with its error ignored, as \<open>URL.Query\<close> does: a pair that is empty, has a semicolon
  or does not decode is left out; a query of more than ten thousand pairs is left out altogether.
\<close>

definition max_params :: nat where
  "max_params = 10000"

definition parse_pair :: "gostring \<Rightarrow> (gostring \<times> gostring) option" where
  "parse_pair p =
    (if p = [] \<or> CHR '';'' \<in> set p then None
     else case cut (CHR ''='') p of (k, v) \<Rightarrow>
       (case (url_unescape EncodeQueryComponent k, url_unescape EncodeQueryComponent v) of
          (Some k', Some v') \<Rightarrow> Some (k', v')
        | _ \<Rightarrow> None))"

fun add_pairs :: "gostring list \<Rightarrow> vals \<Rightarrow> vals" where
  "add_pairs [] m = m"
| "add_pairs (p # ps) m = add_pairs ps (case parse_pair p of None \<Rightarrow> m | Some (k, v) \<Rightarrow> vals_add k v m)"

definition parse_query :: "gostring \<Rightarrow> vals" where
  "parse_query q = (let ps = split_on (CHR ''&'') q in
     if length ps > max_params then [] else add_pairs ps [])"

section \<open>url.URL\<close>

record userinfo =
  ui_username :: gostring
  ui_password :: "gostring option"

record url =
  u_Scheme :: gostring
  u_Opaque :: gostring
  u_User :: "userinfo option"
  u_Host :: gostring
  u_Path :: gostring
  u_RawPath :: gostring
  u_OmitHost :: bool
  u_ForceQuery :: bool
  u_RawQuery :: gostring
  u_Fragment :: gostring
  u_RawFragment :: gostring

definition zero_url :: url where
  "zero_url = \<lparr>u_Scheme = [], u_Opaque = [], u_User = None, u_Host = [], u_Path = [], u_RawPath = [],
     u_OmitHost = False, u_ForceQuery = False, u_RawQuery = [], u_Fragment = [], u_RawFragment = []\<rparr>"

definition lower :: "gostring \<Rightarrow> gostring" where
  "lower s = map (\<lambda>c. if cont 65 90 c then char_of (byte c + 32) else c) s"

text \<open>The scheme in front of the first colon, and the rest; \<open>None\<close> when it is missing.\<close>

definition scheme_char :: "char \<Rightarrow> bool" where
  "scheme_char c \<longleftrightarrow> alnum c \<or> c \<in> set ''+-.''"

definition get_scheme :: "gostring \<Rightarrow> (gostring \<times> gostring) option" where
  "get_scheme s =
    (let p = takeWhile scheme_char s in
     if p \<noteq> [] \<and> \<not> (cont 65 90 (hd p) \<or> cont 97 122 (hd p)) then Some ([], s)
     else case drop (length p) s of
       c # r \<Rightarrow> if c = CHR '':'' then (if p = [] then None else Some (p, r)) else Some ([], s)
     | [] \<Rightarrow> Some ([], s))"

definition valid_port :: "gostring \<Rightarrow> bool" where
  "valid_port p \<longleftrightarrow> p = [] \<or> hd p = CHR '':'' \<and> (\<forall>c \<in> set (tl p). cont 48 57 c)"

definition parse_host :: "(gostring \<Rightarrow> gostring option) \<Rightarrow> gostring \<Rightarrow> gostring option" where
  "parse_host ip_literal h =
    (if CHR ''['' \<in> set h then ip_literal h
     else case cut_last (CHR '':'') h of
       Some (_, port) \<Rightarrow> if valid_port (CHR '':'' # port) then url_unescape EncodeHost h else None
     | None \<Rightarrow> url_unescape EncodeHost h)"

definition valid_userinfo :: "gostring \<Rightarrow> bool" where
  "valid_userinfo s \<longleftrightarrow> (\<forall>c \<in> set s. alnum c \<or> c \<in> set (CHR 0x27 # ''-._:~!$&()*+,;=%@''))"

definition parse_authority ::
  "(gostring \<Rightarrow> gostring option) \<Rightarrow> gostring \<Rightarrow> (userinfo option \<times> gostring) option" where
  "parse_authority ip_literal a = (case cut_last (CHR ''@'') a of
     None \<Rightarrow> map_option (Pair None) (parse_host ip_literal a)
   | Some (ui, h) \<Rightarrow> (case parse_host ip_literal h of
       None \<Rightarrow> None
     | Some host \<Rightarrow>
         if \<not> valid_userinfo ui then None
         else if CHR '':'' \<notin> set ui then
           map_option (\<lambda>n. (Some \<lparr>ui_username = n, ui_password = None\<rparr>, host))
             (url_unescape EncodeUserPassword ui)
         else (case cut (CHR '':'') ui of (n, p) \<Rightarrow>
           (case (url_unescape EncodeUserPassword n, url_unescape EncodeUserPassword p) of
              (Some n', Some p') \<Rightarrow> Some (Some \<lparr>ui_username = n', ui_password = Some p'\<rparr>, host)
            | _ \<Rightarrow> None))))"

definition set_path :: "gostring \<Rightarrow> url \<Rightarrow> url option" where
  "set_path p u = (case url_unescape EncodePath p of
     None \<Rightarrow> None
   | Some path \<Rightarrow> Some (u\<lparr>u_Path := path,
       u_RawPath := if p = url_escape EncodePath path then [] else p\<rparr>))"

definition set_fragment :: "gostring \<Rightarrow> url \<Rightarrow> url option" where
  "set_fragment f u = (case url_unescape EncodeFragment f of
     None \<Rightarrow> None
   | Some frag \<Rightarrow> Some (u\<lparr>u_Fragment := frag,
       u_RawFragment := if f = url_escape EncodeFragment frag then [] else f\<rparr>))"

text \<open>\<open>url.Parse\<close>: first without the fragment, which is cut off at the first number sign.\<close>

definition has_ctl :: "gostring \<Rightarrow> bool" where
  "has_ctl s \<longleftrightarrow> (\<exists>c \<in> set s. byte c < 32 \<or> byte c = 127)"

definition cut_query :: "gostring \<Rightarrow> url \<Rightarrow> gostring \<times> url" where
  "cut_query rest u =
    (if rest \<noteq> [] \<and> last rest = CHR ''?'' \<and> CHR ''?'' \<notin> set (butlast rest)
     then (butlast rest, u\<lparr>u_ForceQuery := True\<rparr>)
     else case cut (CHR ''?'') rest of (r, q) \<Rightarrow> (r, u\<lparr>u_RawQuery := q\<rparr>))"

definition parse_rest :: "(gostring \<Rightarrow> gostring option) \<Rightarrow> gostring \<Rightarrow> url \<Rightarrow> url option" where
  "parse_rest ip_literal rest u =
    (if \<not> has_prefix rest ''/'' \<and> u_Scheme u \<noteq> [] then Some (u\<lparr>u_Opaque := rest\<rparr>)
     else if \<not> has_prefix rest ''/'' \<and> CHR '':'' \<in> set (fst (cut (CHR ''/'') rest)) then None
     else if (u_Scheme u \<noteq> [] \<or> \<not> has_prefix rest ''///'') \<and> has_prefix rest ''//'' then
       (case parse_authority ip_literal (takeWhile (\<lambda>c. c \<noteq> CHR ''/'') (drop 2 rest)) of
          None \<Rightarrow> None
        | Some (ui, h) \<Rightarrow> set_path (dropWhile (\<lambda>c. c \<noteq> CHR ''/'') (drop 2 rest))
            (u\<lparr>u_User := ui, u_Host := h\<rparr>))
     else set_path rest (u\<lparr>u_OmitHost := u_Scheme u \<noteq> [] \<and> has_prefix rest ''/''\<rparr>))"

definition parse_no_fragment :: "(gostring \<Rightarrow> gostring option) \<Rightarrow> gostring \<Rightarrow> url option" where
  "parse_no_fragment ip_literal s =
    (if has_ctl s then None
     else if s = ''*'' then Some (zero_url\<lparr>u_Path := ''*''\<rparr>)
     else case get_scheme s of
       None \<Rightarrow> None
     | Some (sch, rest) \<Rightarrow>
         (case cut_query rest (zero_url\<lparr>u_Scheme := lower sch\<rparr>) of
            (r, u) \<Rightarrow> parse_rest ip_literal r u))"

definition parse_url :: "(gostring \<Rightarrow> gostring option) \<Rightarrow> gostring \<Rightarrow> url option" where
  "parse_url ip_literal s = (case cut (CHR ''#'') s of (p, f) \<Rightarrow>
     (case parse_no_fragment ip_literal p of
        None \<Rightarrow> None
      | Some u \<Rightarrow> if f = [] then Some u else set_fragment f u))"

text \<open>\<open>IsAbs\<close>, \<open>Hostname\<close>, \<open>EscapedPath\<close>, \<open>EscapedFragment\<close> and \<open>String\<close>.\<close>

definition is_abs :: "url \<Rightarrow> bool" where
  "is_abs u \<longleftrightarrow> u_Scheme u \<noteq> []"

definition hostname :: "url \<Rightarrow> gostring" where
  "hostname u =
    (let h = u_Host u in
     if CHR '':'' \<notin> set h then h
     else if CHR '']'' \<in> set h then
       (let b = takeWhile (\<lambda>c. c \<noteq> CHR '']'') h in if has_prefix b ''['' then drop 1 b else b)
     else fst (cut (CHR '':'') h))"

definition valid_encoded :: "enc_mode \<Rightarrow> gostring \<Rightarrow> bool" where
  "valid_encoded m s \<longleftrightarrow>
     (\<forall>c \<in> set s. c \<in> set (CHR 0x27 # CHR 0x25 # ''!$&()*+,;=:@[]'') \<or> \<not> should_escape c m)"

definition escaped :: "enc_mode \<Rightarrow> gostring \<Rightarrow> gostring \<Rightarrow> gostring" where
  "escaped m raw plain =
    (if raw \<noteq> [] \<and> valid_encoded m raw \<and> url_unescape m raw = Some plain then raw
     else if m = EncodePath \<and> plain = ''*'' then ''*''
     else url_escape m plain)"

definition user_text :: "userinfo \<Rightarrow> gostring" where
  "user_text ui = url_escape EncodeUserPassword (ui_username ui) @ (case ui_password ui of
     None \<Rightarrow> [] | Some p \<Rightarrow> '':'' @ url_escape EncodeUserPassword p)"

text \<open>The text in front of the path, and the path with what separates the two.\<close>

definition origin_text :: "url \<Rightarrow> gostring" where
  "origin_text u =
     (if u_Scheme u = [] then [] else u_Scheme u @ '':'')
     @ (if u_Opaque u \<noteq> [] then u_Opaque u
        else if u_Scheme u = [] \<and> u_Host u = [] \<and> u_User u = None then []
        else if u_OmitHost u \<and> u_Host u = [] \<and> u_User u = None then []
        else (if u_Host u \<noteq> [] \<or> u_Path u \<noteq> [] \<or> u_User u \<noteq> None then ''//'' else [])
          @ (case u_User u of None \<Rightarrow> [] | Some ui \<Rightarrow> user_text ui @ ''@'')
          @ url_escape EncodeHost (u_Host u))"

definition path_text :: "url \<Rightarrow> gostring" where
  "path_text u =
    (if u_Opaque u \<noteq> [] then []
     else let p = escaped EncodePath (u_RawPath u) (u_Path u) in
       (if p \<noteq> [] \<and> hd p \<noteq> CHR ''/'' \<and> u_Host u \<noteq> [] then ''/'' @ p
        else if origin_text u = [] \<and> CHR '':'' \<in> set (fst (cut (CHR ''/'') p)) then ''./'' @ p
        else p))"

definition query_text :: "url \<Rightarrow> gostring" where
  "query_text u = (if u_ForceQuery u \<or> u_RawQuery u \<noteq> [] then ''?'' @ u_RawQuery u else [])"

definition fragment_text :: "url \<Rightarrow> gostring" where
  "fragment_text u = (if u_Fragment u \<noteq> []
     then ''#'' @ escaped EncodeFragment (u_RawFragment u) (u_Fragment u) else [])"

definition url_text :: "url \<Rightarrow> gostring" where
  "url_text u = origin_text u @ path_text u @ query_text u @ fragment_text u"

text \<open>\<open>RequestURI\<close>.\<close>

definition RequestURI :: "url \<Rightarrow> gostring" where
  "RequestURI u =
    (if u_Opaque u = [] then
       (let p = escaped EncodePath (u_RawPath u) (u_Path u) in if p = [] then ''/'' else p)
     else if has_prefix (u_Opaque u) ''//'' then u_Scheme u @ '':'' @ u_Opaque u else u_Opaque u)
    @ query_text u"

section \<open>path.Clean\<close>

text \<open>The elements of a path with \<open>.\<close> and \<open>..\<close> resolved, last one first.\<close>

fun clean_parts :: "bool \<Rightarrow> gostring list \<Rightarrow> gostring list \<Rightarrow> gostring list" where
  "clean_parts rooted [] out = rev out"
| "clean_parts rooted (p # ps) out =
    (if p = [] \<or> p = ''.'' then clean_parts rooted ps out
     else if p = ''..'' then
       (case out of
          q # qs \<Rightarrow> if q = ''..'' then clean_parts rooted ps (p # out) else clean_parts rooted ps qs
        | [] \<Rightarrow> clean_parts rooted ps (if rooted then [] else [p]))
     else clean_parts rooted ps (p # out))"

definition path_clean :: "gostring \<Rightarrow> gostring" where
  "path_clean p =
    (let rooted = has_prefix p ''/''; t = join (clean_parts rooted (split_on (CHR ''/'') p) []) ''/''
     in if rooted then ''/'' @ t else if t = [] then ''.'' else t)"

section \<open>Escaping loses nothing\<close>

lemma upper_hex_value: "n < 16 \<Longrightarrow> hex_value (upper_hex n) = Some n"
proof -
  have "\<forall>n \<in> set [0..<16]. hex_value (upper_hex n) = Some n" by code_simp
  then show "n < 16 \<Longrightarrow> hex_value (upper_hex n) = Some n" by simp
qed

lemma byte_16: "byte c div 16 < 16" "byte c mod 16 < 16"
  "(char_of (16 * (byte c div 16) + byte c mod 16) :: char) = c"
  using byte_div_mod [of c] by simp_all

lemma should_escape_special:
  "should_escape (CHR 0x25) m" "should_escape (CHR ''+'') EncodeQueryComponent"
  by (cases m) (simp_all add: should_escape_def alnum_def cont_def)

lemma unescape_escape_char:
  assumes "m \<noteq> EncodeHost"
  shows "url_unescape m (escape_char m c @ r) = map_option ((#) c) (url_unescape m r)"
proof (cases "c = CHR '' '' \<and> m = EncodeQueryComponent")
  case False
  show ?thesis
  proof (cases "should_escape c m")
    case True
    with False assms show ?thesis
      using byte_16 [of c] by (simp add: escape_char_def upper_hex_value)
  next
    case unescaped: False
    have "c \<noteq> CHR 0x25" "\<not> (c = CHR ''+'' \<and> m = EncodeQueryComponent)"
      using unescaped should_escape_special by blast+
    with unescaped False assms show ?thesis by (auto simp: escape_char_def)
  qed
qed (simp add: escape_char_def)

lemma unescape_escape [simp]: "m \<noteq> EncodeHost \<Longrightarrow> url_unescape m (url_escape m s) = Some s"
  by (induction s) (simp_all add: url_escape_def unescape_escape_char)

lemma upper_hex_chars: "n < 16 \<Longrightarrow> upper_hex n \<in> set ''0123456789ABCDEF''"
  unfolding upper_hex_def by (rule nth_mem) simp

text \<open>The characters an escaped string is made of.\<close>

definition query_char :: "char \<Rightarrow> bool" where
  "query_char c \<longleftrightarrow> alnum c \<or> c \<in> set ''-_.~+%''"

lemma upper_hex_query: "n < 16 \<Longrightarrow> query_char (upper_hex n)"
  using upper_hex_chars [of n] by (auto simp: query_char_def alnum_def cont_def)

lemma escape_query_chars: "c \<in> set (url_escape EncodeQueryComponent s) \<Longrightarrow> query_char c"
proof -
  have "query_char c" if "c \<in> set (escape_char EncodeQueryComponent x)" for c x
    using that byte_16(1,2) [of x] by (auto simp: escape_char_def upper_hex_query split: if_splits)
      (auto simp: query_char_def should_escape_def split: if_splits)
  then show "c \<in> set (url_escape EncodeQueryComponent s) \<Longrightarrow> query_char c"
    by (auto simp: url_escape_def)
qed

lemma query_char_not: "query_char c \<Longrightarrow> c \<notin> set ''&=;#?/ :''"
  by (auto simp: query_char_def alnum_def cont_def)

section \<open>A query string gives its values back\<close>

definition vals_of :: "vals \<Rightarrow> gostring \<Rightarrow> gostring list" where
  "vals_of m k = (case map_of m k of None \<Rightarrow> [] | Some vs \<Rightarrow> vs)"

lemma vals_of_simps [simp]:
  "vals_of [] k = []" "vals_of ((k', vs) # m) k = (if k = k' then vs else vals_of m k)"
  by (simp_all add: vals_of_def)

lemma vals_get_of: "vals_get m k = (case vals_of m k of [] \<Rightarrow> [] | v # _ \<Rightarrow> v)"
  by (auto simp: vals_get_def vals_of_def split: option.splits)

lemma vals_of_add [simp]: "vals_of (vals_add k v m) k' = vals_of m k' @ (if k = k' then [v] else [])"
  by (induction k v m rule: vals_add.induct) auto

lemma vals_of_set [simp]: "vals_of (vals_set k v m) k' = (if k = k' then [v] else vals_of m k')"
  by (induction k v m rule: vals_set.induct) auto

lemma vals_get_set: "vals_get (vals_set k v m) k' = (if k = k' then v else vals_get m k')"
  by (simp add: vals_get_of)

lemma vals_keys:
  "fst ` set (vals_add k v m) = insert k (fst ` set m)" "fst ` set (vals_set k v m) = insert k (fst ` set m)"
  by (induction k v m rule: vals_add.induct) auto

lemma vals_distinct:
  "distinct (map fst m) \<Longrightarrow> distinct (map fst (vals_add k v m))"
  "distinct (map fst m) \<Longrightarrow> distinct (map fst (vals_set k v m))"
proof -
  show "distinct (map fst m) \<Longrightarrow> distinct (map fst (vals_add k v m))"
    by (induction k v m rule: vals_add.induct) (auto simp: vals_keys)
  show "distinct (map fst m) \<Longrightarrow> distinct (map fst (vals_set k v m))"
    by (induction k v m rule: vals_set.induct) (auto simp: vals_keys)
qed

lemma parse_query_distinct: "distinct (map fst (parse_query q))"
proof -
  have "distinct (map fst m) \<Longrightarrow> distinct (map fst (add_pairs ps m))" for ps m
    by (induction ps m rule: add_pairs.induct) (auto simp: vals_distinct split: option.split)
  then show ?thesis by (simp add: parse_query_def Let_def)
qed

lemma takeWhile_before: "c \<notin> set s \<Longrightarrow> takeWhile (\<lambda>x. x \<noteq> c) (s @ c # r) = s"
  "c \<notin> set s \<Longrightarrow> dropWhile (\<lambda>x. x \<noteq> c) (s @ c # r) = c # r"
  by (induction s) auto

lemma cut_before: "c \<notin> set s \<Longrightarrow> cut c (s @ c # r) = (s, r)"
  by (simp add: cut_def takeWhile_before)

lemma cut_none: "c \<notin> set s \<Longrightarrow> cut c s = (s, [])"
proof -
  assume "c \<notin> set s"
  then have "takeWhile (\<lambda>x. x \<noteq> c) s = s" "dropWhile (\<lambda>x. x \<noteq> c) s = []"
    by (induction s) auto
  then show ?thesis by (simp only: cut_def drop_Nil)
qed

lemma split_on_nonempty: "split_on c s \<noteq> []"
  by (induction c s rule: split_on.induct) (auto split: list.split)

lemma split_on_append: "c \<notin> set s \<Longrightarrow> split_on c (s @ c # r) = s # split_on c r"
  by (induction s) auto

lemma split_on_none: "c \<notin> set s \<Longrightarrow> split_on c s = [s]"
  by (induction s) auto

lemma split_on_join:
  "ts \<noteq> [] \<Longrightarrow> \<forall>t \<in> set ts. c \<notin> set t \<Longrightarrow> split_on c (join ts [c]) = ts"
proof (induction ts "[c]" rule: join.induct)
  case (3 x y xs)
  then show ?case using split_on_append [of c x "join (y # xs) [c]"] by simp
qed (simp_all add: split_on_none)

lemma parse_pair_text [simp]: "parse_pair (pair_text p) = Some p"
proof -
  let ?k = "url_escape EncodeQueryComponent (fst p)" and ?v = "url_escape EncodeQueryComponent (snd p)"
  have no: "c \<notin> set ?k" "c \<notin> set ?v" if "c \<in> set ''&=;#?/ :''" for c
    using that escape_query_chars query_char_not by blast+
  have "cut (CHR ''='') (pair_text p) = (?k, ?v)"
    using cut_before [OF no(1)] by (simp add: pair_text_def)
  moreover have "pair_text p \<noteq> []" "CHR '';'' \<notin> set (pair_text p)"
    using no by (simp_all add: pair_text_def)
  ultimately show ?thesis by (simp add: parse_pair_def)
qed

lemma pair_text_chars: "c \<in> set (pair_text p) \<Longrightarrow> query_char c \<or> c = CHR ''=''"
  using escape_query_chars by (auto simp: pair_text_def)

lemma vals_of_add_pairs:
  "vals_of (add_pairs (map pair_text ps) m) k = vals_of m k @ map snd (filter (\<lambda>p. fst p = k) ps)"
  by (induction ps arbitrary: m) (auto split: prod.split)

lemma sorted_pairs:
  assumes "distinct (map fst m)"
  shows "map snd (filter (\<lambda>p. fst p = k) (vals_pairs m)) = vals_of m k"
proof -
  let ?s = "sort_key fst m"
  have d: "distinct (map fst ?s)"
    using assms by (metis distinct_map distinct_sort inj_on_def set_sort)
  have eq: "vals_of ?s k = vals_of m k"
    using map_of_inject_set [OF d assms] by (simp add: vals_of_def)
  have "map snd (filter (\<lambda>p. fst p = k) (concat (map (\<lambda>(k, vs). map (Pair k) vs) xs))) = vals_of xs k"
    if "distinct (map fst xs)" for xs :: vals
    using that
  proof (induction xs)
    case (Cons x xs)
    obtain k' vs where x: "x = (k', vs)" by fastforce
    have same: "filter (\<lambda>p. fst p = k) (map (Pair k') vs) = (if k = k' then map (Pair k') vs else [])"
      by (induction vs) auto
    have "vals_of xs k = []" if "k = k'"
      using Cons.prems that by (auto simp: x vals_of_def map_of_eq_None_iff [THEN iffD2] split: option.split)
    with Cons same show ?case by (auto simp: x comp_def)
  qed simp
  from this [OF d] show ?thesis by (simp add: vals_pairs_def eq)
qed

lemma parse_encode:
  assumes "distinct (map fst m)" "length (vals_pairs m) \<le> max_params"
  shows "vals_of (parse_query (vals_encode m)) k = vals_of m k"
proof (cases "vals_pairs m = []")
  case True
  then have "vals_of m k = []" using sorted_pairs [OF assms(1), of k] by simp
  moreover have "parse_query [] = []"
    by (simp add: parse_query_def parse_pair_def max_params_def)
  ultimately show ?thesis by (simp add: vals_encode_def True)
next
  case False
  have "\<forall>t \<in> set (map pair_text (vals_pairs m)). CHR ''&'' \<notin> set t"
    using pair_text_chars query_char_not by fastforce
  with False have "split_on (CHR ''&'') (vals_encode m) = map pair_text (vals_pairs m)"
    by (simp add: vals_encode_def split_on_join)
  then show ?thesis
    using assms(2) by (simp add: parse_query_def vals_of_add_pairs sorted_pairs [OF assms(1)])
qed

end
