(* ===== verification/JsonParse.thy ===== *)
theory JsonParse
  imports Json
begin

text \<open>
  The value level of \<open>Unmarshal\<close> and \<open>Decoder.Decode\<close>, and the round trip: what
  \<open>Marshal\<close> wrote is read back, up to the replacement of bytes that are not UTF-8.
\<close>

section \<open>Values\<close>

text \<open>
  \<open>pval\<close> reads one value, \<open>pelems\<close> the elements of an array after its bracket or a comma,
  \<open>pmembers\<close> the members of an object.  The first argument is fuel, spent once per call
  (\<open>json_fuel\<close> is always enough: \<open>pval_fuel\<close>); the second is the nesting depth still
  allowed, 10000 at the start as in the scanner of the library.
\<close>

fun pval :: "nat \<Rightarrow> nat \<Rightarrow> gostring \<Rightarrow> (json \<times> gostring) option"
  and pelems :: "nat \<Rightarrow> nat \<Rightarrow> gostring \<Rightarrow> (json list \<times> gostring) option"
  and pmembers :: "nat \<Rightarrow> nat \<Rightarrow> gostring \<Rightarrow> ((gostring \<times> json) list \<times> gostring) option"
where
  "pval 0 d s = None"
| "pval (Suc f) d s = (case skip_ws s of
     [] \<Rightarrow> None
   | c # cs \<Rightarrow>
       if c = quot then map_option (apfst JStr) (pstr cs)
       else if c = CHR ''['' then
         (if d = 0 then None else case skip_ws cs of
            [] \<Rightarrow> None
          | x # r \<Rightarrow> if x = CHR '']'' then Some (JArr [], r)
                    else map_option (apfst JArr) (pelems f (d - 1) (x # r)))
       else if c = CHR ''{'' then
         (if d = 0 then None else case skip_ws cs of
            [] \<Rightarrow> None
          | x # r \<Rightarrow> if x = CHR ''}'' then Some (JObj [], r)
                    else map_option (apfst JObj) (pmembers f (d - 1) (x # r)))
       else if c = CHR ''t'' then pliteral ''true'' (JBool True) (c # cs)
       else if c = CHR ''f'' then pliteral ''false'' (JBool False) (c # cs)
       else if c = CHR ''n'' then pliteral ''null'' JNull (c # cs)
       else map_option (apfst JNum) (pnum (c # cs)))"
| "pelems 0 d s = None"
| "pelems (Suc f) d s = (case pval f d s of
     None \<Rightarrow> None
   | Some (v, r) \<Rightarrow> (case skip_ws r of
       [] \<Rightarrow> None
     | c # r' \<Rightarrow> if c = CHR '']'' then Some ([v], r')
                else if c = CHR '','' then map_option (apfst ((#) v)) (pelems f d r')
                else None))"
| "pmembers 0 d s = None"
| "pmembers (Suc f) d s = (case skip_ws s of
     [] \<Rightarrow> None
   | q # s1 \<Rightarrow>
       if q \<noteq> quot then None else case pstr s1 of
         None \<Rightarrow> None
       | Some (k, s2) \<Rightarrow> (case skip_ws s2 of
           [] \<Rightarrow> None
         | c # s3 \<Rightarrow>
             if c \<noteq> CHR '':'' then None else case pval f d s3 of
               None \<Rightarrow> None
             | Some (v, s4) \<Rightarrow> (case skip_ws s4 of
                 [] \<Rightarrow> None
               | e # s5 \<Rightarrow>
                   if e = CHR ''}'' then Some ([(k, v)], s5)
                   else if e = CHR '','' then map_option (apfst ((#) (k, v))) (pmembers f d s5)
                   else None)))"

definition json_fuel :: "gostring \<Rightarrow> nat" where
  "json_fuel s = 2 * length s + 2"

definition json_max_depth :: nat where
  "json_max_depth = 10000"

text \<open>\<open>json.Unmarshal\<close> into a value: the whole text is one value.\<close>

definition json_unmarshal :: "gostring \<Rightarrow> json option" where
  "json_unmarshal s = (case pval (json_fuel s) json_max_depth s of
     Some (v, r) \<Rightarrow> if skip_ws r = [] then Some v else None
   | None \<Rightarrow> None)"

text \<open>\<open>json.NewDecoder(r).Decode\<close>: the first value of the stream; what follows is not read.\<close>

definition json_decode_stream :: "gostring \<Rightarrow> json option" where
  "json_decode_stream s = map_option fst (pval (json_fuel s) json_max_depth s)"

section \<open>Round trip of strings\<close>

text \<open>What a string becomes on its way through JSON: every ill-formed byte is U+FFFD.\<close>

function to_valid :: "gostring \<Rightarrow> gostring" where
  "to_valid s =
     (if s = [] then []
      else (if decode_rune s = (runeError, 1) then encode_rune runeError
            else take (rune_width s) s) @ to_valid (drop (rune_width s) s))"
  by pat_completeness auto
termination
  by (relation "measure length") (simp_all add: drop_rune_less)

declare to_valid.simps [simp del]

lemma to_valid_Nil [simp]: "to_valid [] = []"
  by (simp add: to_valid.simps)

lemma to_valid_id: "utf8_valid s \<Longrightarrow> to_valid s = s"
proof (induction s rule: to_valid.induct)
  case (1 s)
  then show ?case
    by (cases "s = []") (simp_all add: to_valid.simps [of s] utf8_valid.simps [of s] split: if_splits)
qed

lemma utf8_valid_rune:
  assumes "s \<noteq> []" "decode_rune s \<noteq> (runeError, 1)"
  shows "utf8_valid (take (rune_width s) s @ t) \<longleftrightarrow> utf8_valid t"
proof -
  let ?p = "take (rune_width s) s"
  have p: "?p \<noteq> []" "length ?p = rune_width s"
    using rune_width_bounds [OF assms(1)] assms(1) by auto
  have "decode_rune (?p @ drop (rune_width s) s) = decode_rune ?p"
    by (rule decode_rune_prefix [OF p(1)]) (use p(2) in simp)
  then have d: "decode_rune ?p = decode_rune s" by simp
  then have e: "decode_rune (?p @ t) = decode_rune s"
    using decode_rune_extend [OF p(1)] assms(2) by simp
  have "drop (rune_width s) (?p @ t) = t" using p(2) by simp
  with assms(2) e p(1) show ?thesis
    by (subst utf8_valid.simps) simp
qed

lemma to_valid_valid [simp]: "utf8_valid (to_valid s)"
proof (induction s rule: to_valid.induct)
  case (1 s)
  show ?case
  proof (cases "s = []")
    case False
    with 1 have IH: "utf8_valid (to_valid (drop (rune_width s) s))" by simp
    have e: "encode_rune runeError \<noteq> []"
      "decode_rune (encode_rune runeError) = (runeError, 3)"
      "take 3 (encode_rune runeError) = encode_rune runeError"
      by (simp_all add: encode_rune_def runeError_def decode_rune.simps cont_def)
    show ?thesis
      using False IH utf8_valid_rune [OF False] utf8_valid_rune [OF e(1)] e(2,3)
      by (cases "decode_rune s = (runeError, 1)") (simp_all add: to_valid.simps [of s])
  qed simp
qed

lemma to_valid_idem [simp]: "to_valid (to_valid s) = to_valid s"
  by (simp add: to_valid_id)

lemma to_valid_ascii: "ascii s \<Longrightarrow> to_valid s = s"
  by (simp add: to_valid_id ascii_valid)

text \<open>\<open>EncodeRune\<close> gives back the bytes of a well-formed rune.\<close>

lemma cont_value: "cont lo hi c \<Longrightarrow> 128 \<le> lo \<Longrightarrow> hi \<le> 191 \<Longrightarrow> \<exists>y < 64. byte c = 128 + y"
  unfolding cont_def by (rule exI [of _ "byte c - 128"]) auto

lemma char_of_eqI: "byte c = n \<Longrightarrow> char_of n = c"
  by (metis char_of_char)

lemma mod_64: "z < 64 \<Longrightarrow> (64 * k + z) mod 64 = (z::nat)"
  by simp

lemma encode_rune2:
  assumes "byte c0 = 192 + x" "byte c1 = 128 + y" "2 \<le> x" "x < 32" "y < 64"
  shows "encode_rune (x * 64 + y) = [c0, c1]"
  using assms by (simp add: encode_rune_def Let_def char_of_eqI)

lemma encode_rune3:
  assumes "byte c0 = 224 + x" "byte c1 = 128 + y" "byte c2 = 128 + z"
    and "x < 16" "y < 64" "z < 64" "x = 0 \<Longrightarrow> 32 \<le> y" "x = 13 \<Longrightarrow> y < 32"
  shows "encode_rune (x * 4096 + y * 64 + z) = [c0, c1, c2]"
proof -
  let ?r = "x * 4096 + y * 64 + z"
  have d: "?r div 4096 = x" "?r div 64 = x * 64 + y" "?r mod 64 = z"
    using assms mod_64 [of z "x * 64 + y"] by (auto simp: algebra_simps)
  have "2048 \<le> ?r" "?r < 65536"
    using assms by (cases "x = 0"; linarith)+
  moreover have "\<not> (55296 \<le> ?r \<and> ?r \<le> 57343)"
  proof -
    consider "x < 13" | "x = 13" | "14 \<le> x" by linarith
    then show ?thesis using assms(5,6,8) by cases auto
  qed
  ultimately have "encode_rune ?r
      = [char_of (224 + ?r div 4096), char_of (128 + ?r div 64 mod 64), char_of (128 + ?r mod 64)]"
    using assms(4) unfolding encode_rune_def by (auto simp: Let_def)
  then show ?thesis unfolding d using assms by (simp add: char_of_eqI)
qed

lemma encode_rune4:
  assumes "byte c0 = 240 + x" "byte c1 = 128 + w" "byte c2 = 128 + y" "byte c3 = 128 + z"
    and "x < 5" "w < 64" "y < 64" "z < 64" "x = 0 \<Longrightarrow> 16 \<le> w" "x = 4 \<Longrightarrow> w < 16"
  shows "encode_rune (x * 262144 + w * 4096 + y * 64 + z) = [c0, c1, c2, c3]"
proof -
  let ?r = "x * 262144 + w * 4096 + y * 64 + z"
  have d: "?r div 262144 = x" "?r div 4096 = x * 64 + w" "?r div 64 = x * 4096 + w * 64 + y"
      "?r mod 64 = z" "(x * 4096 + w * 64 + y) mod 64 = y"
    using assms mod_64 [of z "x * 4096 + w * 64 + y"] mod_64 [of y "x * 64 + w"]
    by (auto simp: algebra_simps)
  have "65536 \<le> ?r" "?r \<le> 1114111"
    using assms by (cases "x = 0"; cases "x = 4"; linarith)+
  with d assms show ?thesis by (simp add: encode_rune_def Let_def char_of_eqI)
qed

lemma encode_decode_rune:
  assumes "s \<noteq> []" and d: "decode_rune s = (r, n)" and ok: "(r, n) \<noteq> (runeError, 1)"
  shows "encode_rune r = take n s"
proof -
  from assms(1) obtain c0 ps where s: "s = c0 # ps" by (cases s) auto
  show ?thesis
  proof (cases c0 rule: byte_class_cases)
    case 1
    with d s show ?thesis by (auto simp: decode_rune_classes(1) encode_rune_def)
  next
    case 2
    with d s ok show ?thesis by (auto simp: decode_rune_classes(2))
  next
    case 3
    with d s ok obtain c1 qs where "ps = c1 # qs" "cont 128 191 c1"
      and rn: "r = (byte c0 - 192) * 64 + (byte c1 - 128)" "n = 2"
      by (auto simp: decode_rune_classes(3) split: list.splits if_splits)
    with 3 s cont_value [of 128 191 c1] encode_rune2 [of c0 "byte c0 - 192" c1]
    show ?thesis by force
  next
    case 4
    with d s ok obtain c1 c2 qs where "ps = c1 # c2 # qs" "cont 128 191 c2"
      and c1: "cont (if byte c0 = 224 then 160 else 128) (if byte c0 = 237 then 159 else 191) c1"
      and rn: "r = (byte c0 - 224) * 4096 + (byte c1 - 128) * 64 + (byte c2 - 128)" "n = 3"
      by (auto simp: decode_rune_classes(4) split: list.splits if_split_asm)
    moreover have "byte c0 - 224 = 0 \<longrightarrow> 32 \<le> byte c1 - 128" "byte c0 - 224 = 13 \<longrightarrow> byte c1 - 128 < 32"
      "128 \<le> byte c1" "byte c1 \<le> 191"
      using c1 4 by (auto simp: cont_def split: if_splits)
    ultimately show ?thesis
      using 4 s encode_rune3 [of c0 "byte c0 - 224" c1 "byte c1 - 128" c2 "byte c2 - 128"]
      by (auto simp: cont_def)
  next
    case 5
    with d s ok obtain c1 c2 c3 qs where "ps = c1 # c2 # c3 # qs" "cont 128 191 c2" "cont 128 191 c3"
      and c1: "cont (if byte c0 = 240 then 144 else 128) (if byte c0 = 244 then 143 else 191) c1"
      and rn: "r = (byte c0 - 240) * 262144 + (byte c1 - 128) * 4096 + (byte c2 - 128) * 64
        + (byte c3 - 128)" "n = 4"
      by (auto simp: decode_rune_classes(5) split: list.splits if_split_asm)
    moreover have "byte c0 - 240 = 0 \<longrightarrow> 16 \<le> byte c1 - 128" "byte c0 - 240 = 4 \<longrightarrow> byte c1 - 128 < 16"
      "128 \<le> byte c1" "byte c1 \<le> 191"
      using c1 5 by (auto simp: cont_def split: if_splits)
    ultimately show ?thesis
      using 5 s encode_rune4 [of c0 "byte c0 - 240" c1 "byte c1 - 128" c2 "byte c2 - 128"
        c3 "byte c3 - 128"]
      by (auto simp: cont_def)
  qed
qed

text \<open>Reading back one quoted rune.\<close>

lemma hex_value_char [simp]: "n < 16 \<Longrightarrow> hex_value (hex_char n) = Some n"
proof -
  assume "n < 16"
  moreover have "\<forall>n \<in> set [0..<16]. hex_value (hex_char n) = Some n" by code_simp
  ultimately show ?thesis by simp
qed

lemma pstr_quot [simp]: "pstr (quot # t) = Some ([], t)"
  by (simp add: pstr.simps)

lemma bslash_neq_quot [simp]: "bslash \<noteq> quot" "quot \<noteq> bslash"
  by (simp_all add: bslash_def quot_def)

lemma pstr_escape: "pstr (bslash # cs) =
    (case unescape cs of None \<Rightarrow> None | Some (x, r) \<Rightarrow> prepend x (pstr r))"
  by (simp add: pstr.simps [of "bslash # cs"])

lemma hex4_code: "a < 16 \<Longrightarrow> b < 16 \<Longrightarrow> c < 16 \<Longrightarrow> d < 16 \<Longrightarrow>
    hex4 (hex_char a # hex_char b # hex_char c # hex_char d # t)
      = Some (((a * 16 + b) * 16 + c) * 16 + d)"
  by (simp add: hex4_def)

lemma hex_char_digits: "CHR ''0'' = hex_char 0" "CHR ''2'' = hex_char 2"
    "CHR ''f'' = hex_char 15" "CHR ''d'' = hex_char 13"
  by (simp_all add: hex_char_def)

lemma pstr_u:
  assumes "a < 16" "b < 16" "c < 16" "d < 16"
    and "((a * 16 + b) * 16 + c) * 16 + d < 55296 \<or> 57344 \<le> ((a * 16 + b) * 16 + c) * 16 + d"
  shows "pstr (bslash # CHR ''u'' # hex_char a # hex_char b # hex_char c # hex_char d # t)
    = prepend (encode_rune (((a * 16 + b) * 16 + c) * 16 + d)) (pstr t)"
proof -
  have "unescape (CHR ''u'' # hex_char a # hex_char b # hex_char c # hex_char d # t)
      = Some (encode_rune (((a * 16 + b) * 16 + c) * 16 + d), t)"
    using assms by (auto simp: unescape_def unescape_u_def hex4_code quot_def bslash_def)
  then show ?thesis by (simp add: pstr_escape)
qed

lemma encode_rune_ascii [simp]: "b < 128 \<Longrightarrow> encode_rune b = [char_of b]"
  by (simp add: encode_rune_def)

lemma quote_ascii_plain:
  "(b::nat) < 128 \<Longrightarrow> 32 \<le> b \<Longrightarrow> b \<noteq> 34 \<Longrightarrow> b \<noteq> 92 \<Longrightarrow>
    pstr (char_of b # t) = prepend [char_of b] (pstr t)"
proof -
  assume b: "b < 128" "32 \<le> b" "b \<noteq> 34" "b \<noteq> 92"
  then have "byte (char_of b) = b" by simp
  moreover from this b have "char_of b \<noteq> quot" "char_of b \<noteq> bslash"
    by (auto simp: quot_def bslash_def dest: arg_cong [where f = "of_char :: char \<Rightarrow> nat"])
  ultimately show ?thesis
    using b by (simp add: pstr.simps [of "char_of b # t"] runeError_def)
qed

lemma unescape_letters:
  "unescape (CHR ''b'' # r) = Some ([CHR 0x08], r)"
  "unescape (CHR ''f'' # r) = Some ([CHR 0x0C], r)"
  "unescape (CHR ''n'' # r) = Some ([CHR 0x0A], r)"
  "unescape (CHR ''r'' # r) = Some ([CHR 0x0D], r)"
  "unescape (CHR ''t'' # r) = Some ([CHR 0x09], r)"
  by (simp_all add: unescape_def quot_def bslash_def)

lemma control_chars:
  "char_of (8::nat) = CHR 0x08" "char_of (12::nat) = CHR 0x0C" "char_of (10::nat) = CHR 0x0A"
  "char_of (13::nat) = CHR 0x0D" "char_of (9::nat) = CHR 0x09"
  by (rule char_of_eqI, simp)+

lemma pstr_quote_ascii:
  assumes b: "b < 128"
  shows "pstr (quote_ascii b @ t) = prepend [char_of b] (pstr t)"
proof -
  consider "b = 34 \<or> b = 92" | "b = 8 \<or> b = 12 \<or> b = 10 \<or> b = 13 \<or> b = 9"
    | "b \<notin> {34, 92, 8, 12, 10, 13, 9}" "b < 32 \<or> b = 60 \<or> b = 62 \<or> b = 38"
    | "32 \<le> b" "b \<notin> {34, 92, 60, 62, 38}"
    by fastforce
  then show ?thesis
  proof cases
    case 1
    then have "char_of b = quot \<or> char_of b = bslash"
      by (auto simp: quot_def bslash_def char_of_eqI)
    with 1 show ?thesis
      by (auto simp: quote_ascii_def pstr_escape unescape_def)
  next
    case 2
    then show ?thesis
      by (elim disjE) (simp_all add: quote_ascii_def pstr_escape unescape_letters control_chars)
  next
    case 3
    have "pstr (quote_ascii b @ t) = pstr (bslash # CHR ''u'' # hex_char 0 # hex_char 0
        # hex_char (b div 16) # hex_char (b mod 16) # t)"
      using 3 by (simp add: quote_ascii_def hex_char_digits)
    also have "\<dots> = prepend (encode_rune (((0 * 16 + 0) * 16 + b div 16) * 16 + b mod 16)) (pstr t)"
      using b by (intro pstr_u) auto
    finally show ?thesis using b by simp
  next
    case 4
    with b show ?thesis by (simp add: quote_ascii_def quote_ascii_plain)
  qed
qed

lemma pstr_chunk:
  assumes ne: "s \<noteq> []" and d: "decode_rune s = (r, n)" and r: "128 \<le> r"
    and ok: "(r, n) \<noteq> (runeError, 1)"
  shows "pstr (take n s @ t) = prepend (take n s) (pstr t)"
proof -
  have n: "0 < n" "n \<le> length s"
    using rune_width_bounds [OF ne] d by auto
  then obtain c cs where c: "take n s = c # cs" by (cases s; cases n) auto
  have dt: "decode_rune (take n s @ t) = (r, n)"
    using decode_rune_take [OF ne] decode_rune_extend [of "take n s" t] d ok c by simp
  have "128 \<le> byte c"
    using dt r by (cases "byte c < 128") (auto simp: c)
  then have "c \<noteq> quot" "c \<noteq> bslash" "\<not> byte c < 32"
    by (auto simp: quot_def bslash_def)
  moreover have "length cs = n - 1"
    using n c by (metis diff_Suc_1 length_Cons length_take min.absorb2)
  ultimately show ?thesis
    using dt ok n by (auto simp: c pstr.simps [of "c # cs @ t"] take_Cons' drop_Cons')
qed

text \<open>
  One piece of the quoted text, whatever the rune: it reads back as the bytes of the rune,
  or as U+FFFD when the byte was ill-formed.
\<close>

lemma pstr_quote_piece:
  assumes ne: "s \<noteq> []" and d: "decode_rune s = (r, n)"
  shows "pstr ((if r < 128 then quote_ascii r
         else if r = runeError \<and> n = 1 then bslash # ''ufffd''
         else if r = 8232 \<or> r = 8233 then bslash # ''u202'' @ [hex_char (r mod 16)]
         else take n s) @ t)
    = prepend (if decode_rune s = (runeError, 1) then encode_rune runeError else take n s) (pstr t)"
proof -
  consider (ascii) "r < 128" | (bad) "r = runeError" "n = 1" | (sep) "r = 8232 \<or> r = 8233"
    | (plain) "128 \<le> r" "(r, n) \<noteq> (runeError, 1)" "r \<noteq> 8232" "r \<noteq> 8233"
    by fastforce
  then show ?thesis
  proof cases
    case ascii
    then have "encode_rune r = take n s" "(r, n) \<noteq> (runeError, 1)"
      using encode_decode_rune [OF ne d] by (auto simp: runeError_def)
    with ascii d show ?thesis by (auto simp: pstr_quote_ascii)
  next
    case bad
    have "pstr (bslash # CHR ''u'' # hex_char 15 # hex_char 15 # hex_char 15 # hex_char 13 # t)
        = prepend (encode_rune (((15 * 16 + 15) * 16 + 15) * 16 + 13)) (pstr t)"
      by (intro pstr_u) auto
    with bad d show ?thesis by (simp add: runeError_def hex_char_digits)
  next
    case sep
    then have "encode_rune r = take n s" "(r, n) \<noteq> (runeError, 1)"
      using encode_decode_rune [OF ne d] by (auto simp: runeError_def)
    moreover have "pstr (bslash # CHR ''u'' # hex_char 2 # hex_char 0 # hex_char 2
        # hex_char (r mod 16) # t)
        = prepend (encode_rune (((2 * 16 + 0) * 16 + 2) * 16 + r mod 16)) (pstr t)"
      by (intro pstr_u) auto
    ultimately show ?thesis using sep d by (auto simp: runeError_def hex_char_digits)
  next
    case plain
    then show ?thesis using pstr_chunk [OF ne d] d by auto
  qed
qed

lemma pstr_quote_body: "pstr (quote_body s @ quot # t) = Some (to_valid s, t)"
proof (induction s rule: to_valid.induct)
  case (1 s)
  show ?case
  proof (cases "s = []")
    case True
    then show ?thesis by (simp add: quote_body.simps)
  next
    case False
    obtain r n where d: "decode_rune s = (r, n)" by fastforce
    with False "1.IH" have "pstr (quote_body (drop n s) @ quot # t) = Some (to_valid (drop n s), t)"
      by simp
    with False d show ?thesis
      using pstr_quote_piece [OF False d, of "quote_body (drop n s) @ quot # t"]
      by (simp add: quote_body.simps [of s] to_valid.simps [of s])
  qed
qed

section \<open>Round trip of values\<close>

text \<open>The value as it comes back.\<close>

fun valid_json :: "json \<Rightarrow> json" where
  "valid_json (JStr s) = JStr (to_valid s)"
| "valid_json (JArr xs) = JArr (map valid_json xs)"
| "valid_json (JObj kvs) = JObj (map (\<lambda>(k, v). (to_valid k, valid_json v)) kvs)"
| "valid_json v = v"

text \<open>
  The values the round trip is about: no numbers, for the service stores none, and nested
  no deeper than the reader allows.
\<close>

fun storable :: "nat \<Rightarrow> json \<Rightarrow> bool" where
  "storable d (JNum t) = False"
| "storable d (JArr xs) = (0 < d \<and> (\<forall>x \<in> set xs. storable (d - 1) x))"
| "storable d (JObj kvs) = (0 < d \<and> (\<forall>kv \<in> set kvs. storable (d - 1) (snd kv)))"
| "storable d v = True"

lemma skip_ws_stop: "\<not> is_ws c \<Longrightarrow> skip_ws (c # cs) = c # cs"
  by (simp add: skip_ws_def)

lemma skip_ws_specials [simp]:
  "skip_ws (quot # cs) = quot # cs" "skip_ws (CHR ''['' # cs) = CHR ''['' # cs"
  "skip_ws (CHR '']'' # cs) = CHR '']'' # cs" "skip_ws (CHR ''{'' # cs) = CHR ''{'' # cs"
  "skip_ws (CHR ''}'' # cs) = CHR ''}'' # cs" "skip_ws (CHR '','' # cs) = CHR '','' # cs"
  "skip_ws (CHR '':'' # cs) = CHR '':'' # cs" "skip_ws (CHR ''t'' # cs) = CHR ''t'' # cs"
  "skip_ws (CHR ''f'' # cs) = CHR ''f'' # cs" "skip_ws (CHR ''n'' # cs) = CHR ''n'' # cs"
  "skip_ws [] = []"
  by (simp_all add: skip_ws_def is_ws_def quot_def)

text \<open>The text of a value starts with a character that is neither white space nor a bracket
  that closes.\<close>

lemma json_text_start:
  "storable d j \<Longrightarrow> \<exists>c cs. json_text j = c # cs \<and> \<not> is_ws c \<and> c \<noteq> CHR '']'' \<and> c \<noteq> CHR ''}''"
  by (cases j) (auto simp: json_quote_def is_ws_def quot_def)

subsection \<open>The parser consumes what it reads\<close>

lemma skip_ws_length: "length (skip_ws s) \<le> length s"
  by (simp add: skip_ws_def length_dropWhile_le)

lemma skip_ws_Cons_length: "skip_ws s = c # r \<Longrightarrow> length r < length s"
  using skip_ws_length [of s] by simp

lemma pstr_length: "pstr s = Some (t, r) \<Longrightarrow> length r < length s"
proof (induction "length s" arbitrary: s t rule: less_induct)
  case less
  then obtain c cs where s: "s = c # cs" by (cases s) (auto simp: pstr.simps)
  have drop: "length (drop (rune_width s) s) < length s"
    using drop_rune_less [of s] s by simp
  have sub: "length r < length s" if "pstr u = Some (t', r)" "length u < length s" for u t'
    using less.hyps [OF that(2,1)] that(2) by simp
  show ?case
  proof (cases "c = quot \<or> c = bslash")
    case True
    then show ?thesis
      using less.prems sub unescape_shorter [of cs]
      by (auto simp: s pstr_escape split: option.splits)
  next
    case False
    then show ?thesis
      using less.prems sub [of cs] sub [OF _ drop]
      by (auto simp: s pstr.simps [of "c # cs"] split: if_splits)
  qed
qed

lemma pdigits_length: "pdigits s = Some (t, r) \<Longrightarrow> length r < length s"
proof (cases s)
  case (Cons c cs)
  assume "pdigits s = Some (t, r)"
  with Cons show ?thesis
    using length_dropWhile_le [of is_digit cs]
    by (auto simp: pdigits_def Let_def split: if_splits)
qed (simp add: pdigits_def)

lemma pfrac_length: "pfrac s = Some (t, r) \<Longrightarrow> length r \<le> length s"
  by (auto simp: pfrac_def split: list.splits if_splits dest!: pdigits_length)

lemma pexp_length: "pexp s = Some (t, r) \<Longrightarrow> length r \<le> length s"
  by (auto simp: pexp_def split: list.splits if_splits dest!: pdigits_length)

lemma pint_length: "pint s = Some (t, r) \<Longrightarrow> length r < length s"
  by (auto simp: pint_def split: list.splits if_splits dest!: pdigits_length)

lemma pnum_length: "pnum s = Some (t, r) \<Longrightarrow> length r < length s"
  by (auto simp: pnum_def Let_def split: list.splits if_splits option.splits prod.splits
      dest!: pint_length pfrac_length pexp_length)

lemma pliteral_length: "pliteral w v s = Some (x, r) \<Longrightarrow> w \<noteq> [] \<Longrightarrow> length r < length s"
  by (cases w; cases s) (auto simp: pliteral_def has_prefix_def split: if_splits)

lemmas json_lengths = pstr_length pnum_length pliteral_length skip_ws_Cons_length

lemma pval_length:
  "pval f d s = Some (v, r) \<Longrightarrow> length r < length s"
  "pelems f d s = Some (vs, r) \<Longrightarrow> length r < length s"
  "pmembers f d s = Some (kvs, r) \<Longrightarrow> length r < length s"
proof (induction f d s and f d s and f d s arbitrary: v r and vs r and kvs r
    rule: pval_pelems_pmembers.induct)
  case (2 f d s)
  then show ?case
    by (auto split: list.splits if_splits dest!: json_lengths) fastforce+
next
  case (4 f d s)
  then show ?case
    by (auto split: list.splits if_splits option.splits dest!: skip_ws_Cons_length) fastforce+
next
  case (6 f d s)
  then show ?case
    by (auto split: list.splits if_splits option.splits dest!: json_lengths) fastforce+
qed simp_all

subsection \<open>Enough fuel\<close>

lemma fuel_step:
  "(\<forall>d s. 2 * length s + 1 \<le> f \<longrightarrow> pval (Suc f) d s = pval f d s)
   \<and> (\<forall>d s. 2 * length s + 2 \<le> f \<longrightarrow> pelems (Suc f) d s = pelems f d s)
   \<and> (\<forall>d s. 2 * length s + 2 \<le> f \<longrightarrow> pmembers (Suc f) d s = pmembers f d s)"
proof (induction f)
  case 0
  then show ?case by simp
next
  case (Suc f)
  then have V: "2 * length s + 1 \<le> f \<Longrightarrow> pval (Suc f) d s = pval f d s"
    and E: "2 * length s + 2 \<le> f \<Longrightarrow> pelems (Suc f) d s = pelems f d s"
    and M: "2 * length s + 2 \<le> f \<Longrightarrow> pmembers (Suc f) d s = pmembers f d s" for d s
    by blast+
  have "pval (Suc (Suc f)) d s = pval (Suc f) d s" if l: "2 * length s + 1 \<le> Suc f" for d s
  proof (cases "skip_ws s")
    case (Cons c cs)
    have "2 * length (x # r) + 2 \<le> f" if "skip_ws cs = x # r" for x r
      using skip_ws_Cons_length [OF Cons] skip_ws_length [of cs] that l by simp
    then have "pelems (Suc f) d' (x # r) = pelems f d' (x # r)"
      "pmembers (Suc f) d' (x # r) = pmembers f d' (x # r)" if "skip_ws cs = x # r" for x r d'
      using E M that by blast+
    then show ?thesis
      by (simp only: pval.simps Cons) (simp split: list.split)
  qed simp
  moreover have "pelems (Suc (Suc f)) d s = pelems (Suc f) d s"
    if l: "2 * length s + 2 \<le> Suc f" for d s
  proof -
    have v: "pval (Suc f) d s = pval f d s" using V l by simp
    have "pelems (Suc f) d r' = pelems f d r'"
      if "pval f d s = Some (v, r)" "skip_ws r = c # r'" for v r c r'
      using pval_length(1) [OF that(1)] skip_ws_Cons_length [OF that(2)] l E by simp
    then show ?thesis
      by (simp only: pelems.simps v) (simp split: option.split list.split)
  qed
  moreover have "pmembers (Suc (Suc f)) d s = pmembers (Suc f) d s"
    if l: "2 * length s + 2 \<le> Suc f" for d s
  proof -
    have "pmembers (Suc (Suc f)) d s = pmembers (Suc f) d s"
      if 1: "skip_ws s = quot # s1" and 2: "pstr s1 = Some (k, s2)"
        and 3: "skip_ws s2 = CHR '':'' # s3" for s1 k s2 s3
    proof -
      have s3: "length s3 + 3 \<le> length s"
        using skip_ws_Cons_length [OF 1] pstr_length [OF 2] skip_ws_Cons_length [OF 3] by simp
      then have v: "pval (Suc f) d s3 = pval f d s3" using l V by simp
      have "pmembers (Suc f) d s5 = pmembers f d s5"
        if "pval f d s3 = Some (w, s4)" "skip_ws s4 = e # s5" for w s4 e s5
        using s3 pval_length(1) [OF that(1)] skip_ws_Cons_length [OF that(2)] l M by simp
      then show ?thesis
        by (simp only: pmembers.simps 1 2 3 v list.case option.case prod.case)
          (simp split: option.split list.split)
    qed
    then show ?thesis
      by (cases "skip_ws s"; simp only: pmembers.simps) (auto split: option.split list.split)
  qed
  ultimately show ?case by blast
qed

text \<open>Any fuel from \<open>json_fuel\<close> on gives the same answer.\<close>

lemma pval_fuel: "json_fuel s \<le> f \<Longrightarrow> pval f d s = pval (json_fuel s) d s"
proof (induction f)
  case 0
  then show ?case by (simp add: json_fuel_def)
next
  case (Suc f)
  show ?case
  proof (cases "json_fuel s = Suc f")
    case False
    with Suc show ?thesis using fuel_step [of f] by (auto simp: json_fuel_def)
  qed simp
qed

subsection \<open>Reading back what was written\<close>

text \<open>
  \<open>reads d t v\<close>: with enough fuel the text \<open>t\<close>, followed by anything, is read as \<open>v\<close>.
\<close>

definition reads :: "nat \<Rightarrow> gostring \<Rightarrow> json \<Rightarrow> bool" where
  "reads d t v \<longleftrightarrow> (\<exists>f0. \<forall>f \<ge> f0. \<forall>rest. pval f d (t @ rest) = Some (v, rest))"

lemma readsI: "(\<And>f rest. n \<le> f \<Longrightarrow> pval (Suc f) d (t @ rest) = Some (v, rest)) \<Longrightarrow> reads d t v"
  unfolding reads_def by (rule exI [of _ "Suc n"]) (metis Suc_le_D Suc_le_mono)

lemma pval_quote: "pval (Suc f) d (json_quote s @ rest) = Some (JStr (to_valid s), rest)"
  by (simp add: json_quote_def pstr_quote_body)

lemma join_Cons: "join (x # xs) sep = x @ concat (map (\<lambda>y. sep @ y) xs)"
  by (induction xs arbitrary: x) auto

lemma pelems_reads:
  assumes "\<forall>x \<in> set (v # vs). reads d (json_text x) (g x)"
  shows "\<exists>f0. \<forall>f \<ge> f0. \<forall>rest.
    pelems f d (join (map json_text (v # vs)) '','' @ '']'' @ rest) = Some (map g (v # vs), rest)"
  using assms
proof (induction vs arbitrary: v)
  case Nil
  then obtain f0 where f0: "f0 \<le> f \<Longrightarrow> pval f d (json_text v @ rest) = Some (g v, rest)" for f rest
    by (auto simp: reads_def)
  show ?case
  proof (intro exI [of _ "Suc f0"] allI impI)
    fix f rest
    assume "Suc f0 \<le> f"
    then obtain f' where "f = Suc f'" "f0 \<le> f'" by (metis Suc_le_D Suc_le_mono)
    then show "pelems f d (join (map json_text [v]) '','' @ '']'' @ rest) = Some (map g [v], rest)"
      using f0 by simp
  qed
next
  case (Cons w ws)
  from Cons.prems obtain f0 where f0: "f0 \<le> f \<Longrightarrow> pval f d (json_text v @ rest) = Some (g v, rest)" for f rest
    by (auto simp: reads_def)
  from Cons.IH [of w] Cons.prems obtain f1 where
    f1: "f1 \<le> f \<Longrightarrow> pelems f d (join (map json_text (w # ws)) '','' @ '']'' @ rest)
      = Some (map g (w # ws), rest)" for f rest
    by auto
  show ?case
  proof (intro exI [of _ "Suc (max f0 f1)"] allI impI)
    fix f rest
    assume "Suc (max f0 f1) \<le> f"
    then obtain f' where f': "f = Suc f'" "f0 \<le> f'" "f1 \<le> f'"
      by (metis Suc_le_D Suc_le_mono max.bounded_iff)
    then show "pelems f d (join (map json_text (v # w # ws)) '','' @ '']'' @ rest)
        = Some (map g (v # w # ws), rest)"
      using f0 [OF f'(2)] f1 [OF f'(3), of rest] by simp
  qed
qed

abbreviation member_text :: "gostring \<times> json \<Rightarrow> gostring" where
  "member_text \<equiv> (\<lambda>(k, v). json_quote k @ '':'' @ json_text v)"

lemma pmembers_reads:
  assumes "\<forall>kv \<in> set (kv # kvs). reads d (json_text (snd kv)) (g (snd kv))"
  shows "\<exists>f0. \<forall>f \<ge> f0. \<forall>rest.
    pmembers f d (join (map member_text (kv # kvs)) '','' @ ''}'' @ rest)
      = Some (map (\<lambda>(k, v). (to_valid k, g v)) (kv # kvs), rest)"
  using assms
proof (induction kvs arbitrary: kv)
  case Nil
  obtain k v where kv: "kv = (k, v)" by fastforce
  from Nil obtain f0 where f0: "f0 \<le> f \<Longrightarrow> pval f d (json_text v @ rest) = Some (g v, rest)"
    for f rest by (auto simp: reads_def kv)
  show ?case
  proof (intro exI [of _ "Suc f0"] allI impI)
    fix f rest
    assume "Suc f0 \<le> f"
    then obtain f' where "f = Suc f'" "f0 \<le> f'" by (metis Suc_le_D Suc_le_mono)
    then show "pmembers f d (join (map member_text [kv]) '','' @ ''}'' @ rest)
        = Some (map (\<lambda>(k, v). (to_valid k, g v)) [kv], rest)"
      using f0 by (simp add: kv json_quote_def pstr_quote_body)
  qed
next
  case (Cons kw ws)
  obtain k v where kv: "kv = (k, v)" by fastforce
  from Cons.prems obtain f0 where
    f0: "f0 \<le> f \<Longrightarrow> pval f d (json_text v @ rest) = Some (g v, rest)" for f rest
    by (auto simp: reads_def kv)
  from Cons.IH [of kw] Cons.prems obtain f1 where
    f1: "f1 \<le> f \<Longrightarrow> pmembers f d (join (map member_text (kw # ws)) '','' @ ''}'' @ rest)
      = Some (map (\<lambda>(k, v). (to_valid k, g v)) (kw # ws), rest)" for f rest
    by auto
  show ?case
  proof (intro exI [of _ "Suc (max f0 f1)"] allI impI)
    fix f rest
    assume "Suc (max f0 f1) \<le> f"
    then obtain f' where f': "f = Suc f'" "f0 \<le> f'" "f1 \<le> f'"
      by (metis Suc_le_D Suc_le_mono max.bounded_iff)
    then show "pmembers f d (join (map member_text (kv # kw # ws)) '','' @ ''}'' @ rest)
        = Some (map (\<lambda>(k, v). (to_valid k, g v)) (kv # kw # ws), rest)"
      using f0 [OF f'(2)] f1 [OF f'(3), of rest]
      by (simp add: kv json_quote_def pstr_quote_body)
  qed
qed

lemma reads_bracketed:
  assumes start: "\<exists>c cs. t = c # cs \<and> \<not> is_ws c \<and> c \<noteq> CHR '']''"
    and body: "\<And>f rest. f0 \<le> f \<Longrightarrow> pelems f d (t @ '']'' @ rest) = Some (vs, rest)"
  shows "reads (Suc d) (''['' @ t @ '']'') (JArr vs)"
proof (rule readsI [of f0])
  fix f rest
  assume f: "f0 \<le> f"
  from start obtain c cs where "t = c # cs" "\<not> is_ws c" "c \<noteq> CHR '']''" by blast
  then show "pval (Suc f) (Suc d) ((''['' @ t @ '']'') @ rest) = Some (JArr vs, rest)"
    using body [OF f, of rest] by (simp add: skip_ws_stop) (simp add: quot_def)
qed

lemma reads_leaf:
  "reads d (json_text JNull) (valid_json JNull)" "reads d (json_text (JBool b)) (valid_json (JBool b))"
  "reads d (json_text (JStr s)) (valid_json (JStr s))"
proof -
  show "reads d (json_text JNull) (valid_json JNull)"
    by (rule readsI [of 0]) (simp add: pliteral_def has_prefix_def, simp add: quot_def)
  show "reads d (json_text (JBool b)) (valid_json (JBool b))"
    by (rule readsI [of 0]) (simp add: pliteral_def has_prefix_def, simp add: quot_def)
  show "reads d (json_text (JStr s)) (valid_json (JStr s))"
    by (rule readsI [of 0]) (simp only: json_text.simps valid_json.simps pval_quote)
qed

lemma reads_braced:
  assumes start: "\<exists>c cs. t = c # cs \<and> \<not> is_ws c \<and> c \<noteq> CHR ''}''"
    and body: "\<And>f rest. f0 \<le> f \<Longrightarrow> pmembers f d (t @ ''}'' @ rest) = Some (kvs, rest)"
  shows "reads (Suc d) (''{'' @ t @ ''}'') (JObj kvs)"
proof (rule readsI [of f0])
  fix f rest
  assume f: "f0 \<le> f"
  from start obtain c cs where "t = c # cs" "\<not> is_ws c" "c \<noteq> CHR ''}''" by blast
  then show "pval (Suc f) (Suc d) ((''{'' @ t @ ''}'') @ rest) = Some (JObj kvs, rest)"
    using body [OF f, of rest] by (simp add: skip_ws_stop) (simp add: quot_def)
qed

lemma json_reads: "storable d j \<Longrightarrow> reads d (json_text j) (valid_json j)"
proof (induction d j rule: storable.induct)
  case (2 d xs)
  then obtain d' where d: "d = Suc d'" by (cases d) auto
  show ?case
  proof (cases xs)
    case Nil
    show ?thesis
      by (rule readsI [of 0]) (simp add: Nil d, simp add: quot_def)
  next
    case (Cons y ys)
    with "2" d have "\<forall>x \<in> set (y # ys). reads d' (json_text x) (valid_json x)" by auto
    then obtain f0 where f0: "\<And>f rest. f0 \<le> f \<Longrightarrow>
        pelems f d' (join (map json_text (y # ys)) '','' @ '']'' @ rest)
          = Some (map valid_json (y # ys), rest)"
      using pelems_reads by blast
    have "\<exists>c cs. join (map json_text (y # ys)) '','' = c # cs \<and> \<not> is_ws c \<and> c \<noteq> CHR '']''"
      using json_text_start [of d' y] "2.prems" Cons d by (auto simp: join_Cons)
    from reads_bracketed [OF this f0] show ?thesis by (simp add: Cons d)
  qed
next
  case (3 d kvs)
  then obtain d' where d: "d = Suc d'" by (cases d) auto
  show ?case
  proof (cases kvs)
    case Nil
    show ?thesis
      by (rule readsI [of 0]) (simp add: Nil d, simp add: quot_def)
  next
    case (Cons y ys)
    with "3" d have "\<forall>x \<in> set (y # ys). reads d' (json_text (snd x)) (valid_json (snd x))" by auto
    then obtain f0 where f0: "\<And>f rest. f0 \<le> f \<Longrightarrow>
        pmembers f d' (join (map member_text (y # ys)) '','' @ ''}'' @ rest)
          = Some (map (\<lambda>(k, v). (to_valid k, valid_json v)) (y # ys), rest)"
      using pmembers_reads by blast
    have "\<exists>c cs. join (map member_text (y # ys)) '','' = c # cs \<and> \<not> is_ws c \<and> c \<noteq> CHR ''}''"
      by (auto simp: join_Cons json_quote_def is_ws_def quot_def split: prod.splits)
    from reads_braced [OF this f0] show ?thesis by (simp add: Cons d)
  qed
qed (simp_all add: reads_leaf [simplified])

lemma json_roundtrip:
  assumes "storable json_max_depth j"
  shows "json_unmarshal (json_text j) = Some (valid_json j)"
proof -
  obtain f0 where "f0 \<le> f \<Longrightarrow> pval f json_max_depth (json_text j @ []) = Some (valid_json j, [])" for f
    using json_reads [OF assms] unfolding reads_def by blast
  then have "pval (max f0 (json_fuel (json_text j))) json_max_depth (json_text j)
      = Some (valid_json j, [])" by simp
  then show ?thesis
    using pval_fuel [of "json_text j" "max f0 (json_fuel (json_text j))" json_max_depth]
    by (simp add: json_unmarshal_def)
qed

end
