(* ===== verification/Models.thy ===== *)
theory Models
  imports JsonParse
begin

text \<open>
  \<open>internal/models\<close>, \<open>internal/oauth/grant.go\<close> and the request and response structures of
  \<open>internal/dtos\<close>, with the JSON form of the structures that are stored.  A Go slice is
  \<open>nil\<close> (\<open>None\<close>) or holds its elements; the zero \<open>time.Time\<close> is a constant.
\<close>

type_synonym slice = "gostring list option"

abbreviation elems :: "slice \<Rightarrow> gostring list" where
  "elems s \<equiv> (case s of None \<Rightarrow> [] | Some xs \<Rightarrow> xs)"

definition zero_time :: gotime where
  "zero_time = -62135596800000000000"

definition second :: int where
  "second = 1000000000"

section \<open>Rows and stored values\<close>

record user =
  us_ID :: gostring
  us_Email :: gostring
  us_PasswordHash :: gostring
  us_CreatedAt :: gotime

record client =
  cl_ID :: gostring
  cl_Name :: gostring
  cl_ClientSecretHash :: gostring
  cl_RedirectURIs :: slice
  cl_Scopes :: slice
  cl_GrantTypes :: slice
  cl_IsFirstParty :: bool
  cl_CreatedAt :: gotime

record refresh_token =
  rt_ID :: gostring
  rt_UserID :: gostring
  rt_ClientID :: gostring
  rt_Scope :: slice
  rt_TokenHash :: gostring
  rt_ExpiresAt :: gotime
  rt_RevokedAt :: "gotime option"
  rt_CreatedAt :: gotime

record session =
  se_UserID :: gostring
  se_Email :: gostring
  se_CreatedAt :: gotime

record auth_code =
  ac_ClientID :: gostring
  ac_UserID :: gostring
  ac_RedirectURI :: gostring
  ac_Scope :: slice
  ac_CodeChallenge :: gostring
  ac_CodeChallengeMethod :: gostring
  ac_Nonce :: gostring
  ac_CreatedAt :: gotime

record access_token =
  at_AccessTokenString :: gostring
  at_AccessTokenExpiresIn :: int

text \<open>The registered claims the service sets are the token id and the two instants.\<close>

record iam_claims =
  ic_UserID :: gostring
  ic_Email :: gostring
  ic_ClientID :: gostring
  ic_Scope :: gostring
  ic_ID :: gostring
  ic_IssuedAt :: gotime
  ic_ExpiresAt :: gotime

section \<open>Grant types\<close>

definition GrantAuthorizationCode :: gostring where
  "GrantAuthorizationCode = ''authorization_code''"

definition GrantRefreshToken :: gostring where
  "GrantRefreshToken = ''refresh_token''"

definition GrantClientCredentials :: gostring where
  "GrantClientCredentials = ''client_credentials''"

definition SupportedGrantTypes :: "gostring \<rightharpoonup> bool" where
  "SupportedGrantTypes = [GrantAuthorizationCode \<mapsto> True, GrantRefreshToken \<mapsto> True]"

text \<open>Reading a Go \<open>map[string]bool\<close>: a missing key is \<open>false\<close>.\<close>

definition supported_grant :: "gostring \<Rightarrow> bool" where
  "supported_grant gt = (SupportedGrantTypes gt = Some True)"

section \<open>Requests and responses\<close>

record login_request =
  lq_Email :: gostring
  lq_Password :: gostring

record login_result =
  lr_SessionID :: gostring
  lr_ExpiresAt :: gotime

record register_input =
  ri_Email :: gostring
  ri_Password :: gostring

record refresh_response =
  rr_AccessToken :: gostring
  rr_AccessTokenExpiryIn :: int

record register_client_request =
  rq_Name :: gostring
  rq_RedirectURIs :: slice
  rq_Scopes :: slice
  rq_GrantTypes :: slice
  rq_IsFirstParty :: bool
  rq_IsPublic :: bool

record register_client_response =
  rp_ClientID :: gostring
  rp_ClientSecret :: gostring
  rp_Name :: gostring

record authorize_request =
  aq_ResponseType :: gostring
  aq_ClientID :: gostring
  aq_RedirectURI :: gostring
  aq_Scope :: gostring
  aq_State :: gostring
  aq_CodeChallenge :: gostring
  aq_CodeChallengeMethod :: gostring
  aq_Nonce :: gostring
  aq_Prompt :: gostring
  aq_AccessType :: gostring

record token_request =
  tq_GrantType :: gostring
  tq_Code :: gostring
  tq_RedirectURI :: gostring
  tq_CodeVerifier :: gostring
  tq_RefreshToken :: gostring
  tq_Scope :: gostring
  tq_ClientID :: gostring
  tq_ClientSecret :: gostring

record token_response =
  tr_AccessToken :: gostring
  tr_TokenType :: gostring
  tr_ExpiresIn :: int
  tr_Scope :: gostring
  tr_RefreshToken :: gostring

section \<open>Decoding a JSON object into a structure\<close>

text \<open>
  \<open>encoding/json\<close> looks a member's key up among the field names, first as it is, then with
  letters folded; unknown keys are skipped, \<open>null\<close> leaves the field as it is, and a value of
  the wrong kind is an error of the whole decoding.  A key may come more than once; a field's
  decoder gets the values decoded into it before, for a slice keeps their elements in memory.
\<close>

definition fold_rune :: "nat \<Rightarrow> nat" where
  "fold_rune r = (if 97 \<le> r \<and> r \<le> 122 then r - 32
     else if r = 8490 then 75 else if r = 383 then 83 else r)"

definition fold_name :: "gostring \<Rightarrow> nat list" where
  "fold_name k = map fold_rune (runes k)"

type_synonym 's fields = "(gostring \<times> (json list \<Rightarrow> json \<Rightarrow> 's \<Rightarrow> 's option)) list"

definition find_field ::
  "'s fields \<Rightarrow> gostring \<Rightarrow> (gostring \<times> (json list \<Rightarrow> json \<Rightarrow> 's \<Rightarrow> 's option)) option" where
  "find_field fs k = (case map_of fs k of
     Some f \<Rightarrow> Some (k, f)
   | None \<Rightarrow> List.find (\<lambda>(n, f). fold_name n = fold_name k) fs)"

fun set_fields ::
  "'s fields \<Rightarrow> (gostring \<times> json) list \<Rightarrow> (gostring \<times> json) list \<Rightarrow> 's \<Rightarrow> 's option" where
  "set_fields fs old [] s = Some s"
| "set_fields fs old ((k, v) # kvs) s = (case find_field fs k of
     None \<Rightarrow> set_fields fs old kvs s
   | Some (n, f) \<Rightarrow> (case f [u. (m, u) \<leftarrow> old, m = n] v s of
       None \<Rightarrow> None
     | Some s' \<Rightarrow> set_fields fs (old @ [(n, v)]) kvs s'))"

definition decode_struct :: "'s fields \<Rightarrow> 's \<Rightarrow> json option \<Rightarrow> 's option" where
  "decode_struct fs zero j = (case j of
     Some (JObj kvs) \<Rightarrow> set_fields fs [] kvs zero
   | Some JNull \<Rightarrow> Some zero
   | _ \<Rightarrow> None)"

definition str_field :: "(gostring \<Rightarrow> 's \<Rightarrow> 's) \<Rightarrow> json list \<Rightarrow> json \<Rightarrow> 's \<Rightarrow> 's option" where
  "str_field upd old v s = (case v of
     JStr t \<Rightarrow> Some (upd t s) | JNull \<Rightarrow> Some s | _ \<Rightarrow> None)"

definition bool_field :: "(bool \<Rightarrow> 's \<Rightarrow> 's) \<Rightarrow> json list \<Rightarrow> json \<Rightarrow> 's \<Rightarrow> 's option" where
  "bool_field upd old v s = (case v of
     JBool b \<Rightarrow> Some (upd b s) | JNull \<Rightarrow> Some s | _ \<Rightarrow> None)"

text \<open>
  The elements of an array of strings.  A \<open>null\<close> element leaves what the slice's memory holds at
  its place, the empty string at first.  The memory is that of the values decoded before into the
  same field, also beyond the slice's length; \<open>null\<close> and the empty array start a new one.
\<close>

fun decode_strings :: "gostring list \<Rightarrow> json list \<Rightarrow> gostring list option" where
  "decode_strings mem [] = Some []"
| "decode_strings mem (JStr t # vs) = map_option ((#) t) (decode_strings (tl mem) vs)"
| "decode_strings mem (JNull # vs) =
     map_option ((#) (case mem of [] \<Rightarrow> [] | m # _ \<Rightarrow> m)) (decode_strings (tl mem) vs)"
| "decode_strings mem (_ # vs) = None"

fun slice_memory :: "gostring list \<Rightarrow> json list \<Rightarrow> gostring list" where
  "slice_memory mem [] = mem"
| "slice_memory mem (JArr (v # vs) # old) = slice_memory (case decode_strings mem (v # vs) of
       None \<Rightarrow> mem
     | Some xs \<Rightarrow> xs @ drop (length xs) mem) old"
| "slice_memory mem (_ # old) = slice_memory [] old"

definition decode_slice :: "gostring list \<Rightarrow> json \<Rightarrow> slice option" where
  "decode_slice mem v = (case v of
     JNull \<Rightarrow> Some None
   | JArr vs \<Rightarrow> map_option Some (decode_strings mem vs)
   | _ \<Rightarrow> None)"

definition slice_field ::
  "(slice \<Rightarrow> 's \<Rightarrow> 's) \<Rightarrow> json list \<Rightarrow> json \<Rightarrow> 's \<Rightarrow> 's option" where
  "slice_field upd old v s = map_option (\<lambda>xs. upd xs s) (decode_slice (slice_memory [] old) v)"

definition time_field ::
  "(gostring \<Rightarrow> gotime option) \<Rightarrow> (gotime \<Rightarrow> 's \<Rightarrow> 's) \<Rightarrow> json list \<Rightarrow> json \<Rightarrow> 's \<Rightarrow> 's option" where
  "time_field parse upd old v s = (case v of
     JStr t \<Rightarrow> map_option (\<lambda>x. upd x s) (parse t) | JNull \<Rightarrow> Some s | _ \<Rightarrow> None)"

definition slice_json :: "slice \<Rightarrow> json" where
  "slice_json s = (case s of None \<Rightarrow> JNull | Some xs \<Rightarrow> JArr (map JStr xs))"

section \<open>StringSlice\<close>

text \<open>
  \<open>Value\<close> cannot fail: \<open>json.Marshal\<close> of a slice of strings has no error.  \<open>Scan\<close> gets what
  the driver read: bytes, a string or another type, a NULL among them.
\<close>

datatype db_value = DbBytes gostring | DbString gostring | DbOther

definition StringSlice_Value :: "slice \<Rightarrow> gostring" where
  "StringSlice_Value s = json_text (slice_json s)"

definition StringSlice_Scan :: "db_value \<Rightarrow> goerr + slice" where
  "StringSlice_Scan src =
     (let decode = (\<lambda>raw. case json_unmarshal raw of
            None \<Rightarrow> Inl (ErrNew ''invalid JSON'')
          | Some v \<Rightarrow> (case decode_slice [] v of
              None \<Rightarrow> Inl (ErrNew ''json: cannot unmarshal'')
            | Some s \<Rightarrow> Inr s))
      in case src of
           DbBytes b \<Rightarrow> decode b
         | DbString b \<Rightarrow> decode b
         | DbOther \<Rightarrow> Inl (ErrNew ''StringSlice: unsupported source type''))"

section \<open>The values kept in Redis\<close>

definition auth_code_json :: "gostring \<Rightarrow> auth_code \<Rightarrow> json" where
  "auth_code_json created a = JObj
     ([(''client_id'', JStr (ac_ClientID a)),
       (''user_id'', JStr (ac_UserID a)),
       (''redirect_uri'', JStr (ac_RedirectURI a)),
       (''scope'', slice_json (ac_Scope a)),
       (''code_challenge'', JStr (ac_CodeChallenge a)),
       (''code_challenge_method'', JStr (ac_CodeChallengeMethod a))]
      @ (if ac_Nonce a = [] then [] else [(''nonce'', JStr (ac_Nonce a))])
      @ [(''created_at'', JStr created)])"

definition marshal_auth_code ::
  "(gotime \<Rightarrow> gostring option) \<Rightarrow> auth_code \<Rightarrow> gostring option" where
  "marshal_auth_code fmt a =
     map_option (\<lambda>t. json_text (auth_code_json t a)) (fmt (ac_CreatedAt a))"

definition zero_auth_code :: auth_code where
  "zero_auth_code = \<lparr>ac_ClientID = [], ac_UserID = [], ac_RedirectURI = [], ac_Scope = None,
     ac_CodeChallenge = [], ac_CodeChallengeMethod = [], ac_Nonce = [],
     ac_CreatedAt = zero_time\<rparr>"

definition auth_code_fields :: "(gostring \<Rightarrow> gotime option) \<Rightarrow> auth_code fields" where
  "auth_code_fields parse =
     [(''client_id'', str_field (\<lambda>t a. a\<lparr>ac_ClientID := t\<rparr>)),
      (''user_id'', str_field (\<lambda>t a. a\<lparr>ac_UserID := t\<rparr>)),
      (''redirect_uri'', str_field (\<lambda>t a. a\<lparr>ac_RedirectURI := t\<rparr>)),
      (''scope'', slice_field (\<lambda>t a. a\<lparr>ac_Scope := t\<rparr>)),
      (''code_challenge'', str_field (\<lambda>t a. a\<lparr>ac_CodeChallenge := t\<rparr>)),
      (''code_challenge_method'', str_field (\<lambda>t a. a\<lparr>ac_CodeChallengeMethod := t\<rparr>)),
      (''nonce'', str_field (\<lambda>t a. a\<lparr>ac_Nonce := t\<rparr>)),
      (''created_at'', time_field parse (\<lambda>t a. a\<lparr>ac_CreatedAt := t\<rparr>))]"

definition unmarshal_auth_code ::
  "(gostring \<Rightarrow> gotime option) \<Rightarrow> gostring \<Rightarrow> auth_code option" where
  "unmarshal_auth_code parse raw =
     decode_struct (auth_code_fields parse) zero_auth_code (json_unmarshal raw)"

definition session_json :: "gostring \<Rightarrow> session \<Rightarrow> json" where
  "session_json created s = JObj
     [(''user_id'', JStr (se_UserID s)), (''email'', JStr (se_Email s)),
      (''created_at'', JStr created)]"

definition marshal_session ::
  "(gotime \<Rightarrow> gostring option) \<Rightarrow> session \<Rightarrow> gostring option" where
  "marshal_session fmt s =
     map_option (\<lambda>t. json_text (session_json t s)) (fmt (se_CreatedAt s))"

definition zero_session :: session where
  "zero_session = \<lparr>se_UserID = [], se_Email = [], se_CreatedAt = zero_time\<rparr>"

definition session_fields :: "(gostring \<Rightarrow> gotime option) \<Rightarrow> session fields" where
  "session_fields parse =
     [(''user_id'', str_field (\<lambda>t a. a\<lparr>se_UserID := t\<rparr>)),
      (''email'', str_field (\<lambda>t a. a\<lparr>se_Email := t\<rparr>)),
      (''created_at'', time_field parse (\<lambda>t a. a\<lparr>se_CreatedAt := t\<rparr>))]"

definition unmarshal_session ::
  "(gostring \<Rightarrow> gotime option) \<Rightarrow> gostring \<Rightarrow> session option" where
  "unmarshal_session parse raw =
     decode_struct (session_fields parse) zero_session (json_unmarshal raw)"

section \<open>Round trips\<close>

definition valid_slice :: "slice \<Rightarrow> slice" where
  "valid_slice s = map_option (map to_valid) s"

lemma valid_slice_simps [simp]:
  "valid_slice None = None" "valid_slice (Some xs) = Some (map to_valid xs)"
  by (simp_all add: valid_slice_def)

lemma valid_slice_id: "\<forall>x \<in> set (elems s). utf8_valid x \<Longrightarrow> valid_slice s = s"
  by (cases s) (auto simp: to_valid_id intro: map_idI)

lemma elems_valid_slice [simp]: "elems (valid_slice s) = map to_valid (elems s)"
  by (cases s) auto

lemma decode_strings_map: "decode_strings mem (map JStr xs) = Some xs"
  by (induction xs arbitrary: mem) auto

lemma valid_slice_json: "valid_json (slice_json s) = slice_json (valid_slice s)"
  by (cases s) (auto simp: slice_json_def)

lemma decode_slice_json [simp]: "decode_slice mem (slice_json s) = Some s"
proof (cases s)
  case (Some xs)
  have "decode_slice mem (JArr (map JStr xs)) = Some (Some xs)"
    by (simp add: decode_slice_def decode_strings_map)
  with Some show ?thesis by (simp add: slice_json_def)
qed (simp add: slice_json_def decode_slice_def)

lemma storable_slice_json [simp]: "0 < d \<Longrightarrow> storable d (slice_json s)"
  by (cases s) (auto simp: slice_json_def)

lemma unmarshal_slice: "json_unmarshal (StringSlice_Value s) = Some (slice_json (valid_slice s))"
  unfolding StringSlice_Value_def
  by (subst json_roundtrip) (simp_all add: valid_slice_json json_max_depth_def)

lemma StringSlice_roundtrip: "StringSlice_Scan (DbBytes (StringSlice_Value s)) = Inr (valid_slice s)"
  by (simp add: StringSlice_Scan_def unmarshal_slice)

definition valid_code :: "auth_code \<Rightarrow> auth_code" where
  "valid_code a = \<lparr>ac_ClientID = to_valid (ac_ClientID a), ac_UserID = to_valid (ac_UserID a),
     ac_RedirectURI = to_valid (ac_RedirectURI a), ac_Scope = valid_slice (ac_Scope a),
     ac_CodeChallenge = to_valid (ac_CodeChallenge a),
     ac_CodeChallengeMethod = to_valid (ac_CodeChallengeMethod a),
     ac_Nonce = to_valid (ac_Nonce a), ac_CreatedAt = ac_CreatedAt a\<rparr>"

definition valid_session :: "session \<Rightarrow> session" where
  "valid_session s = \<lparr>se_UserID = to_valid (se_UserID s), se_Email = to_valid (se_Email s),
     se_CreatedAt = se_CreatedAt s\<rparr>"

text \<open>What is asked of the rendering of instants: ASCII text that is read back exactly.\<close>

definition time_codec ::
  "(gotime \<Rightarrow> gostring option) \<Rightarrow> (gostring \<Rightarrow> gotime option) \<Rightarrow> bool" where
  "time_codec fmt parse \<longleftrightarrow> (\<forall>t x. fmt t = Some x \<longrightarrow> ascii x \<and> parse x = Some t)"

lemma key_valid:
  "to_valid ''client_id'' = ''client_id''" "to_valid ''user_id'' = ''user_id''"
  "to_valid ''redirect_uri'' = ''redirect_uri''" "to_valid ''scope'' = ''scope''"
  "to_valid ''code_challenge'' = ''code_challenge''"
  "to_valid ''code_challenge_method'' = ''code_challenge_method''"
  "to_valid ''nonce'' = ''nonce''" "to_valid ''created_at'' = ''created_at''"
  "to_valid ''email'' = ''email''"
  by (rule to_valid_ascii, simp)+

lemma auth_code_roundtrip:
  assumes "time_codec fmt parse" and "marshal_auth_code fmt a = Some raw"
  shows "unmarshal_auth_code parse raw = Some (valid_code a)"
proof -
  from assms obtain t where t: "fmt (ac_CreatedAt a) = Some t"
    and raw: "raw = json_text (auth_code_json t a)"
    by (auto simp: marshal_auth_code_def)
  with assms(1) have p: "to_valid t = t" "parse t = Some (ac_CreatedAt a)"
    by (auto simp: time_codec_def to_valid_ascii)
  have "json_unmarshal raw = Some (valid_json (auth_code_json t a))"
    unfolding raw by (rule json_roundtrip) (auto simp: auth_code_json_def json_max_depth_def)
  then show ?thesis
    by (simp add: unmarshal_auth_code_def auth_code_json_def key_valid p decode_struct_def
        valid_slice_json find_field_def auth_code_fields_def str_field_def slice_field_def
        time_field_def zero_auth_code_def valid_code_def)
qed

lemma session_roundtrip:
  assumes "time_codec fmt parse" and "marshal_session fmt s = Some raw"
  shows "unmarshal_session parse raw = Some (valid_session s)"
proof -
  from assms obtain t where t: "fmt (se_CreatedAt s) = Some t"
    and raw: "raw = json_text (session_json t s)"
    by (auto simp: marshal_session_def)
  with assms(1) have p: "to_valid t = t" "parse t = Some (se_CreatedAt s)"
    by (auto simp: time_codec_def to_valid_ascii)
  have "json_unmarshal raw = Some (valid_json (session_json t s))"
    unfolding raw by (rule json_roundtrip) (auto simp: session_json_def json_max_depth_def)
  then show ?thesis
    by (simp add: unmarshal_session_def session_json_def key_valid p decode_struct_def
        find_field_def session_fields_def str_field_def time_field_def zero_session_def
        valid_session_def)
qed

end
