(* ===== verification/Http.thy ===== *)
theory Http
  imports Url Models
begin

text \<open>
  Requests and responses as the handlers see them, and \<open>internal/httpx\<close>.  The response is the
  state of an \<open>http.ResponseWriter\<close>: headers count until the status is written, the first status
  counts, the body is what was written.
\<close>

section \<open>Requests\<close>

text \<open>
  What \<open>net/http\<close> delivers: the method, the parsed URL of the request line, the
  \<open>Authorization\<close> header (empty when absent), the cookies, the body, and the result of
  \<open>ParseForm\<close>: \<open>None\<close> when it reports an error, otherwise \<open>PostForm\<close>.
\<close>

record http_request =
  hr_Method :: gostring
  hr_URL :: url
  hr_Authorization :: gostring
  hr_Cookies :: "(gostring \<times> gostring) list"
  hr_Body :: gostring
  hr_PostForm :: "vals option"

definition url_query :: "http_request \<Rightarrow> vals" where
  "url_query r = parse_query (u_RawQuery (hr_URL r))"

definition CookieValue :: "http_request \<Rightarrow> gostring \<Rightarrow> gostring" where
  "CookieValue r name = (case map_of (hr_Cookies r) name of Some v \<Rightarrow> v | None \<Rightarrow> [])"

text \<open>\<open>base64.StdEncoding\<close> reads padded text over its own alphabet and skips line ends.\<close>

definition std_char :: "char \<Rightarrow> char" where
  "std_char c = (if c = CHR ''+'' then CHR ''-'' else if c = CHR ''/'' then CHR ''_''
     else if c = CHR ''-'' \<or> c = CHR ''_'' then CHR ''='' else c)"

definition base64_std_decode :: "gostring \<Rightarrow> gostring option" where
  "base64_std_decode s =
    (let t = filter (\<lambda>c. c \<noteq> CHR 0x0D \<and> c \<noteq> CHR 0x0A) s; n = length t in
     if n mod 4 \<noteq> 0 then None
     else base64_raw_url_decode (map std_char
       (if n \<ge> 2 \<and> drop (n - 2) t = ''=='' then take (n - 2) t
        else if n \<ge> 1 \<and> last t = CHR ''='' then butlast t else t)))"

text \<open>\<open>Request.BasicAuth\<close>.\<close>

definition BasicAuth :: "http_request \<Rightarrow> (gostring \<times> gostring) option" where
  "BasicAuth r =
    (let auth = hr_Authorization r in
     if lower (take 6 auth) \<noteq> ''basic '' then None
     else case base64_std_decode (drop 6 auth) of
       None \<Rightarrow> None
     | Some cs \<Rightarrow> if CHR '':'' \<in> set cs then Some (cut (CHR '':'') cs) else None)"

section \<open>Responses\<close>

datatype same_site = SameSiteDefault | SameSiteLax

record cookie =
  ck_Name :: gostring
  ck_Value :: gostring
  ck_Path :: gostring
  ck_Expires :: "gotime option"
  ck_MaxAge :: int
  ck_HttpOnly :: bool
  ck_Secure :: bool
  ck_SameSite :: same_site

record http_response =
  hp_Status :: "nat option"
  hp_Header :: "gostring \<rightharpoonup> gostring"
  hp_Cookies :: "cookie list"
  hp_Body :: gostring

definition new_response :: http_response where
  "new_response = \<lparr>hp_Status = None, hp_Header = Map.empty, hp_Cookies = [], hp_Body = []\<rparr>"

text \<open>Header names are written in their canonical form.\<close>

definition set_header :: "gostring \<Rightarrow> gostring \<Rightarrow> http_response \<Rightarrow> http_response" where
  "set_header k v w = (if hp_Status w = None then w\<lparr>hp_Header := (hp_Header w)(k \<mapsto> v)\<rparr> else w)"

definition SetCookie :: "cookie \<Rightarrow> http_response \<Rightarrow> http_response" where
  "SetCookie c w = (if hp_Status w = None then w\<lparr>hp_Cookies := hp_Cookies w @ [c]\<rparr> else w)"

definition WriteHeader :: "nat \<Rightarrow> http_response \<Rightarrow> http_response" where
  "WriteHeader st w = (if hp_Status w = None then w\<lparr>hp_Status := Some st\<rparr> else w)"

definition write_body :: "gostring \<Rightarrow> http_response \<Rightarrow> http_response" where
  "write_body b w = w\<lparr>hp_Body := hp_Body w @ b\<rparr>"

section \<open>Package httpx\<close>

text \<open>The value is \<open>None\<close> when \<open>encoding/json\<close> cannot encode it; nothing is then written.\<close>

definition WriteJSON :: "nat \<Rightarrow> json option \<Rightarrow> http_response \<Rightarrow> http_response" where
  "WriteJSON status v w =
    (let w1 = WriteHeader status (set_header ''Content-Type'' ''application/json'' w) in
     case v of None \<Rightarrow> w1 | Some j \<Rightarrow> write_body (json_text j @ [CHR 0x0A]) w1)"

definition WriteError :: "nat \<Rightarrow> gostring \<Rightarrow> http_response \<Rightarrow> http_response" where
  "WriteError status msg w = WriteJSON status (Some (JObj [(''error'', JStr msg)])) w"

text \<open>The loop over the pairs: an empty value is skipped, a last key without value ignored.\<close>

fun set_pairs :: "gostring list \<Rightarrow> vals \<Rightarrow> vals" where
  "set_pairs (k # v # kv) q = set_pairs kv (if v \<noteq> [] then vals_set k v q else q)"
| "set_pairs _ q = q"

text \<open>
  \<open>http.Redirect\<close>: a target without scheme and host is made absolute against the path of the
  request and cleaned; a body is written for GET.
\<close>

definition html_escape :: "gostring \<Rightarrow> gostring" where
  "html_escape s = concat (map (\<lambda>c.
     if c = CHR ''&'' then ''&amp;'' else if c = CHR ''<'' then ''&lt;''
     else if c = CHR ''>'' then ''&gt;'' else if c = CHR 0x22 then ''&#34;''
     else if c = CHR 0x27 then ''&#39;'' else [c]) s)"

definition hex_escape_non_ascii :: "gostring \<Rightarrow> gostring" where
  "hex_escape_non_ascii s = concat (map (\<lambda>c. if byte c < 128 then [c]
     else [CHR 0x25, hex_char (byte c div 16), hex_char (byte c mod 16)]) s)"

definition old_dir :: "gostring \<Rightarrow> gostring" where
  "old_dir p = (case cut_last (CHR ''/'') p of None \<Rightarrow> [] | Some (d, f) \<Rightarrow> d @ ''/'')"

definition absolute_target :: "gostring \<Rightarrow> gostring \<Rightarrow> gostring" where
  "absolute_target path target =
    (let oldpath = (if path = [] then ''/'' else path);
         full = (if \<not> has_prefix target ''/'' then old_dir oldpath @ target else target);
         p = takeWhile (\<lambda>c. c \<noteq> CHR ''?'') full;
         query = dropWhile (\<lambda>c. c \<noteq> CHR ''?'') full;
         trailing = p \<noteq> [] \<and> last p = CHR ''/'';
         cleaned = path_clean p
     in cleaned @ (if trailing \<and> last cleaned \<noteq> CHR ''/'' then ''/'' else []) @ query)"

definition redirect_target ::
  "(gostring \<Rightarrow> gostring option) \<Rightarrow> http_request \<Rightarrow> gostring \<Rightarrow> gostring" where
  "redirect_target ip_literal r target = (case parse_url ip_literal target of
     Some u \<Rightarrow> if u_Scheme u = [] \<and> u_Host u = [] then absolute_target (u_Path (hr_URL r)) target else target
   | None \<Rightarrow> target)"

definition Redirect ::
  "(gostring \<Rightarrow> gostring option) \<Rightarrow> http_request \<Rightarrow> gostring \<Rightarrow> http_response \<Rightarrow> http_response" where
  "Redirect ip_literal r target w =
    (let t = redirect_target ip_literal r target;
         hadCT = hp_Header w ''Content-Type'' \<noteq> None;
         w1 = set_header ''Location'' (hex_escape_non_ascii t) w;
         w2 = (if \<not> hadCT \<and> (hr_Method r = ''GET'' \<or> hr_Method r = ''HEAD'')
               then set_header ''Content-Type'' ''text/html; charset=utf-8'' w1 else w1);
         w3 = WriteHeader 302 w2
     in if \<not> hadCT \<and> hr_Method r = ''GET''
        then write_body (''<a href=\"'' @ html_escape t @ ''\">Found</a>.'' @ [CHR 0x0A, CHR 0x0A]) w3
        else w3)"

definition RedirectWith :: "(gostring \<Rightarrow> gostring option) \<Rightarrow> http_request \<Rightarrow> gostring \<Rightarrow> gostring list
    \<Rightarrow> http_response \<Rightarrow> http_response" where
  "RedirectWith ip_literal r base kv w = (case parse_url ip_literal base of
     None \<Rightarrow> WriteError 500 ''internal server error'' w
   | Some u \<Rightarrow>
       (let q = set_pairs kv (parse_query (u_RawQuery u))
        in Redirect ip_literal r (url_text (u\<lparr>u_RawQuery := vals_encode q\<rparr>)) w))"

end
