(* ===== verification/Validator.thy ===== *)
theory Validator
  imports Http Strconv
begin

text \<open>
  \<open>internal/validator\<close> and the parsing and validation methods of \<open>internal/dtos\<close>.  The validation
  engine itself (go-playground/validator) is a parameter that gets what the code gives it: the
  function for field names, the custom rule, and the fields of the structure with their tags.
\<close>

section \<open>Structures with tags\<close>

record struct_field =
  sf_Name :: gostring \<comment> \<open>the Go field\<close>
  sf_form :: gostring \<comment> \<open>its \<open>form\<close> tag\<close>
  sf_validate :: gostring \<comment> \<open>its \<open>validate\<close> tag\<close>
  sf_Value :: gostring

abbreviation tagged :: "gostring \<Rightarrow> gostring \<Rightarrow> gostring \<Rightarrow> gostring \<Rightarrow> struct_field" where
  "tagged n form v x \<equiv> \<lparr>sf_Name = n, sf_form = form, sf_validate = v, sf_Value = x\<rparr>"

record field_error =
  fe_Field :: gostring
  fe_Tag :: gostring
  fe_Param :: gostring

text \<open>
  The libraries below the handlers: how \<open>net/url\<close> reads a host with a bracket, and
  \<open>validator.Validate.Struct\<close> with a name function and the rule \<open>redirect_uri\<close> registered.
\<close>

record web =
  ip_literal :: "gostring \<Rightarrow> gostring option"
  gpv_struct :: "(struct_field \<Rightarrow> gostring) \<Rightarrow> (gostring \<Rightarrow> bool) \<Rightarrow> struct_field list \<Rightarrow> field_error list"

section \<open>validator.go\<close>

text \<open>The function given to \<open>RegisterTagNameFunc\<close>.\<close>

definition field_name :: "struct_field \<Rightarrow> gostring" where
  "field_name f = (let name = fst (cut (CHR '','') (sf_form f))
     in if name \<noteq> [] \<and> name \<noteq> ''-'' then name else lower (sf_Name f))"

definition validateRedirectURI :: "web \<Rightarrow> gostring \<Rightarrow> bool" where
  "validateRedirectURI H raw =
    (if raw = [] then True
     else case parse_url (ip_literal H) raw of
       None \<Rightarrow> False
     | Some u \<Rightarrow>
         if \<not> is_abs u \<or> u_Host u = [] \<or> u_Fragment u \<noteq> [] \<or> CHR ''#'' \<in> set raw then False
         else if hostname u \<in> {''localhost'', ''127.0.0.1'', ''::1''}
              then u_Scheme u = ''http'' \<or> u_Scheme u = ''https''
              else u_Scheme u = ''https'')"

definition message :: "field_error \<Rightarrow> gostring" where
  "message fe =
    (if fe_Tag fe = ''required'' then ''is required''
     else if fe_Tag fe = ''min'' then ''must be at least '' @ fe_Param fe @ '' characters''
     else if fe_Tag fe = ''max'' then ''must be at most '' @ fe_Param fe @ '' characters''
     else if fe_Tag fe = ''oneof'' then ''must be one of: '' @ fe_Param fe
     else if fe_Tag fe = ''redirect_uri''
     then ''must be an absolute https URI with no fragment (http allowed only for loopback)''
     else ''is invalid'')"

text \<open>The map from fields to messages: the first error of a field counts.\<close>

fun collect_errors :: "field_error list \<Rightarrow> (gostring \<times> gostring) list \<Rightarrow> (gostring \<times> gostring) list" where
  "collect_errors [] out = out"
| "collect_errors (fe # fes) out =
     collect_errors fes (if fe_Field fe \<in> fst ` set out then out else out @ [(fe_Field fe, message fe)])"

definition validate_Struct :: "web \<Rightarrow> struct_field list \<Rightarrow> (gostring \<times> gostring) list option" where
  "validate_Struct H s =
    (let verrs = gpv_struct H field_name (validateRedirectURI H) s
     in if verrs = [] then None else Some (collect_errors verrs []))"

section \<open>dtos\<close>

definition ParseAuthorizeRequest :: "vals \<Rightarrow> authorize_request" where
  "ParseAuthorizeRequest q = \<lparr>
     aq_ResponseType = vals_get q ''response_type'',
     aq_ClientID = vals_get q ''client_id'',
     aq_RedirectURI = vals_get q ''redirect_uri'',
     aq_Scope = vals_get q ''scope'',
     aq_State = vals_get q ''state'',
     aq_CodeChallenge = vals_get q ''code_challenge'',
     aq_CodeChallengeMethod = vals_get q ''code_challenge_method'',
     aq_Nonce = vals_get q ''nonce'',
     aq_Prompt = vals_get q ''prompt'',
     aq_AccessType = vals_get q ''access_type''\<rparr>"

definition authorize_fields :: "authorize_request \<Rightarrow> struct_field list" where
  "authorize_fields r =
    [tagged ''ResponseType'' ''response_type'' ''required,oneof=code'' (aq_ResponseType r),
     tagged ''ClientID'' ''client_id'' ''required,max=255'' (aq_ClientID r),
     tagged ''RedirectURI'' ''redirect_uri'' ''required,redirect_uri'' (aq_RedirectURI r),
     tagged ''Scope'' ''scope'' '''' (aq_Scope r),
     tagged ''State'' ''state'' ''required,min=8,max=512'' (aq_State r),
     tagged ''CodeChallenge'' ''code_challenge'' ''required,min=43,max=128'' (aq_CodeChallenge r),
     tagged ''CodeChallengeMethod'' ''code_challenge_method'' ''required,oneof=S256''
       (aq_CodeChallengeMethod r),
     tagged ''Nonce'' ''nonce'' '''' (aq_Nonce r),
     tagged ''Prompt'' ''prompt'' '''' (aq_Prompt r),
     tagged ''AccessType'' ''access_type'' ''omitempty,oneof=online offline'' (aq_AccessType r)]"

definition Authorize_Validate :: "web \<Rightarrow> authorize_request \<Rightarrow> (gostring \<times> gostring) list option" where
  "Authorize_Validate H r = validate_Struct H (authorize_fields r)"

definition ParseTokenRequest :: "vals \<Rightarrow> token_request" where
  "ParseTokenRequest f = \<lparr>
     tq_GrantType = vals_get f ''grant_type'',
     tq_Code = vals_get f ''code'',
     tq_RedirectURI = vals_get f ''redirect_uri'',
     tq_CodeVerifier = vals_get f ''code_verifier'',
     tq_RefreshToken = vals_get f ''refresh_token'',
     tq_Scope = vals_get f ''scope'',
     tq_ClientID = vals_get f ''client_id'',
     tq_ClientSecret = vals_get f ''client_secret''\<rparr>"

definition token_fields :: "token_request \<Rightarrow> struct_field list" where
  "token_fields r =
    [tagged ''GrantType'' ''grant_type'' ''required'' (tq_GrantType r),
     tagged ''Code'' ''code'' ''required_if=GrantType authorization_code'' (tq_Code r),
     tagged ''RedirectURI'' ''redirect_uri'' ''required_if=GrantType authorization_code''
       (tq_RedirectURI r),
     tagged ''CodeVerifier'' ''code_verifier''
       ''required_if=GrantType authorization_code,omitempty,min=43,max=128'' (tq_CodeVerifier r),
     tagged ''RefreshToken'' ''refresh_token'' ''required_if=GrantType refresh_token'' (tq_RefreshToken r),
     tagged ''Scope'' ''scope'' '''' (tq_Scope r),
     tagged ''ClientID'' ''client_id'' '''' (tq_ClientID r),
     tagged ''ClientSecret'' ''client_secret'' '''' (tq_ClientSecret r)]"

definition Token_Validate :: "web \<Rightarrow> token_request \<Rightarrow> (gostring \<times> gostring) list option" where
  "Token_Validate H r = validate_Struct H (token_fields r)"

section \<open>What is asked of the engine\<close>

text \<open>
  As documented: the rules of a tag are tried from left to right and the first that fails is the
  error of the field; \<open>omitempty\<close> ends the list at an empty value; lengths are in characters.
\<close>

definition other_value :: "struct_field list \<Rightarrow> gostring \<Rightarrow> gostring option" where
  "other_value fs n = map_option sf_Value (List.find (\<lambda>f. sf_Name f = n) fs)"

definition rule_holds ::
  "struct_field list \<Rightarrow> (gostring \<Rightarrow> bool) \<Rightarrow> gostring \<Rightarrow> gostring \<Rightarrow> gostring \<Rightarrow> bool" where
  "rule_holds fs redirect_rule name param v =
    (if name = ''required'' then v \<noteq> []
     else if name = ''min'' then digits_value param \<le> length (runes v)
     else if name = ''max'' then length (runes v) \<le> digits_value param
     else if name = ''oneof'' then v \<in> set (split_on (CHR '' '') param)
     else if name = ''required_if'' then
       (case cut (CHR '' '') param of (f, x) \<Rightarrow> other_value fs f \<noteq> Some x \<or> v \<noteq> [])
     else if name = ''redirect_uri'' then redirect_rule v
     else True)"

fun first_failure :: "struct_field list \<Rightarrow> (gostring \<Rightarrow> bool) \<Rightarrow> gostring list \<Rightarrow> gostring
    \<Rightarrow> (gostring \<times> gostring) option" where
  "first_failure fs rr [] v = None"
| "first_failure fs rr (rule # rules) v = (case cut (CHR ''='') rule of (name, param) \<Rightarrow>
     if name = ''omitempty'' then (if v = [] then None else first_failure fs rr rules v)
     else if rule_holds fs rr name param v then first_failure fs rr rules v
     else Some (name, param))"

definition sem_struct ::
  "(struct_field \<Rightarrow> gostring) \<Rightarrow> (gostring \<Rightarrow> bool) \<Rightarrow> struct_field list \<Rightarrow> field_error list" where
  "sem_struct nm rr fs = concat (map (\<lambda>f.
     case first_failure fs rr (split_on (CHR '','') (sf_validate f)) (sf_Value f) of
       None \<Rightarrow> []
     | Some (tag, param) \<Rightarrow> [\<lparr>fe_Field = nm f, fe_Tag = tag, fe_Param = param\<rparr>]) fs)"

definition validator_ok :: "web \<Rightarrow> bool" where
  "validator_ok H \<longleftrightarrow> gpv_struct H = sem_struct"

text \<open>The reference: the documented engine, and no IP literals.\<close>

definition ref_web :: web where
  "ref_web = \<lparr>ip_literal = (\<lambda>_. None), gpv_struct = sem_struct\<rparr>"

lemma ref_web_ok: "validator_ok ref_web"
  by (simp add: validator_ok_def ref_web_def)

section \<open>What the two validations accept\<close>

lemma collect_errors_mono: "set out \<subseteq> set (collect_errors fes out)"
proof (induction fes arbitrary: out)
  case (Cons fe fes)
  show ?case
    using Cons.IH [of "if fe_Field fe \<in> fst ` set out then out else out @ [(fe_Field fe, message fe)]"]
    by (auto split: if_splits)
qed simp

lemma collect_errors_nonempty: "fes \<noteq> [] \<Longrightarrow> collect_errors fes [] \<noteq> []"
  using collect_errors_mono [of "[(fe_Field (hd fes), message (hd fes))]" "tl fes"] by (cases fes) auto

lemma validate_Struct_None:
  assumes "validator_ok H"
  shows "validate_Struct H fs = None \<longleftrightarrow> (\<forall>f \<in> set fs.
    first_failure fs (validateRedirectURI H) (split_on (CHR '','') (sf_validate f)) (sf_Value f) = None)"
  using assms by (auto simp: validate_Struct_def validator_ok_def sem_struct_def Let_def
      not_Some_eq [symmetric] simp del: not_Some_eq split: option.splits)

definition loopback :: "gostring \<Rightarrow> bool" where
  "loopback h \<longleftrightarrow> h \<in> {''localhost'', ''127.0.0.1'', ''::1''}"

lemma tag_lists:
  "split_on (CHR '','') ''required,oneof=code'' = [''required'', ''oneof=code'']"
  "split_on (CHR '','') ''required,max=255'' = [''required'', ''max=255'']"
  "split_on (CHR '','') ''required,redirect_uri'' = [''required'', ''redirect_uri'']"
  "split_on (CHR '','') ''required,min=8,max=512'' = [''required'', ''min=8'', ''max=512'']"
  "split_on (CHR '','') ''required,min=43,max=128'' = [''required'', ''min=43'', ''max=128'']"
  "split_on (CHR '','') ''required,oneof=S256'' = [''required'', ''oneof=S256'']"
  "split_on (CHR '','') ''omitempty,oneof=online offline'' = [''omitempty'', ''oneof=online offline'']"
  "split_on (CHR '','') ''required'' = [''required'']"
  "split_on (CHR '','') '''' = ['''']"
  "split_on (CHR '','') ''required_if=GrantType authorization_code''
    = [''required_if=GrantType authorization_code'']"
  "split_on (CHR '','') ''required_if=GrantType refresh_token''
    = [''required_if=GrantType refresh_token'']"
  "split_on (CHR '','') ''required_if=GrantType authorization_code,omitempty,min=43,max=128''
    = [''required_if=GrantType authorization_code'', ''omitempty'', ''min=43'', ''max=128'']"
  by simp_all

lemma authorize_valid_iff:
  assumes "validator_ok H"
  shows "Authorize_Validate H r = None \<longleftrightarrow>
    aq_ResponseType r = ''code''
    \<and> aq_ClientID r \<noteq> [] \<and> length (runes (aq_ClientID r)) \<le> 255
    \<and> aq_RedirectURI r \<noteq> [] \<and> validateRedirectURI H (aq_RedirectURI r)
    \<and> aq_State r \<noteq> [] \<and> 8 \<le> length (runes (aq_State r)) \<and> length (runes (aq_State r)) \<le> 512
    \<and> aq_CodeChallenge r \<noteq> [] \<and> 43 \<le> length (runes (aq_CodeChallenge r))
    \<and> length (runes (aq_CodeChallenge r)) \<le> 128
    \<and> aq_CodeChallengeMethod r = ''S256''
    \<and> aq_AccessType r \<in> {'''', ''online'', ''offline''}"
  unfolding Authorize_Validate_def validate_Struct_None [OF assms]
  by (auto simp: authorize_fields_def tag_lists cut_def rule_holds_def digits_value_def)
end
