(* ===== verification/World.thy ===== *)
theory World
  imports Models
begin

text \<open>
  Everything outside the repository that the code calls.  It is a parameter: the record
  \<open>ext\<close> holds one function per call of go-redis, of sqlx with the statements of the
  repositories, of bcrypt, uuid, the random source, the JWT library, and the two renderings
  that depend on tables or on the host (\<open>%q\<close>, instants).  The two servers keep states of
  any types \<open>'r\<close> and \<open>'d\<close>.  What the code relies on is stated by \<open>redis_spec\<close>,
  \<open>mysql_spec\<close> and \<open>library_ok\<close>: every call either answers as documented, or reports a
  failure of its own (\<open>Infra\<close>) with its effect applied or not; a command for Redis may besides have
  been sent twice.
\<close>

section \<open>Rows as the driver reads and writes them\<close>

text \<open>JSON columns hold the text the server renders.\<close>

record client_row =
  cr_id :: gostring
  cr_name :: gostring
  cr_secret_hash :: gostring
  cr_redirect_uris :: gostring
  cr_scopes :: gostring
  cr_grant_types :: gostring
  cr_is_first_party :: bool
  cr_created_at :: gotime

record token_row =
  tw_id :: gostring
  tw_user_id :: gostring
  tw_client_id :: gostring
  tw_scope :: gostring
  tw_token_hash :: gostring
  tw_expires_at :: gotime
  tw_revoked_at :: "gotime option"
  tw_created_at :: gotime

record tables =
  t_users :: "user list"
  t_clients :: "client_row list"
  t_tokens :: "token_row list"

text \<open>The statements of \<open>internal/repository\<close> that change a table.\<close>

datatype sql_stmt =
    InsertUser gostring gostring gostring
      \<comment> \<open>\<open>INSERT INTO users (id, email, password_hash)\<close>\<close>
  | DeleteUser gostring
      \<comment> \<open>\<open>DELETE FROM users WHERE id = ?\<close>\<close>
  | InsertClient gostring gostring gostring gostring gostring gostring bool
      \<comment> \<open>\<open>INSERT INTO clients (id, name, client_secret_hash, redirect_uris, scopes, \<dots>)\<close>\<close>
  | InsertToken gostring gostring gostring gostring gostring gotime
      \<comment> \<open>\<open>INSERT INTO refresh_tokens (id, user_id, client_id, scope, token_hash, expires_at)\<close>\<close>
  | RevokeToken gostring
      \<comment> \<open>\<open>UPDATE refresh_tokens SET revoked_at = NOW() WHERE id = ?\<close>\<close>
  | RevokeUserTokens gostring
      \<comment> \<open>\<open>\<dots> SET revoked_at = NOW() WHERE user_id = ? AND revoked_at IS NULL\<close>\<close>
  | DeleteExpiredTokens
      \<comment> \<open>\<open>DELETE FROM refresh_tokens WHERE expires_at < NOW()\<close>\<close>

text \<open>The conditions of the queries.\<close>

datatype user_query = UserById gostring | UserByEmail gostring
datatype token_query = TokenById gostring | TokenByHash gostring

section \<open>The parameter\<close>

record ('r, 'd) ext =
  r_set :: "gostring \<Rightarrow> gostring \<Rightarrow> int \<Rightarrow> gotime \<Rightarrow> 'r \<Rightarrow> (goerr + unit) \<times> 'r"
  r_get :: "gostring \<Rightarrow> gotime \<Rightarrow> 'r \<Rightarrow> (goerr + gostring) \<times> 'r"
  r_getdel :: "gostring \<Rightarrow> gotime \<Rightarrow> 'r \<Rightarrow> (goerr + gostring) \<times> 'r"
  r_del :: "gostring list \<Rightarrow> gotime \<Rightarrow> 'r \<Rightarrow> (goerr + int) \<times> 'r"
  r_exists :: "gostring \<Rightarrow> gotime \<Rightarrow> 'r \<Rightarrow> (goerr + int) \<times> 'r"
  r_ttl :: "gostring \<Rightarrow> gotime \<Rightarrow> 'r \<Rightarrow> (goerr + int) \<times> 'r"
  r_view :: "'r \<Rightarrow> gostring \<rightharpoonup> gostring \<times> gotime option" \<comment> \<open>only read by statements\<close>
  sql_exec :: "sql_stmt \<Rightarrow> gotime \<Rightarrow> 'd \<Rightarrow> (goerr + unit) \<times> 'd"
  sql_get_user :: "user_query \<Rightarrow> gotime \<Rightarrow> 'd \<Rightarrow> (goerr + user) \<times> 'd"
  sql_get_client :: "gostring \<Rightarrow> gotime \<Rightarrow> 'd \<Rightarrow> (goerr + client_row) \<times> 'd"
  sql_get_token :: "token_query \<Rightarrow> gotime \<Rightarrow> 'd \<Rightarrow> (goerr + token_row) \<times> 'd"
  sql_active_tokens :: "gostring \<Rightarrow> gotime \<Rightarrow> 'd \<Rightarrow> (goerr + token_row list) \<times> 'd"
  sql_view :: "'d \<Rightarrow> tables" \<comment> \<open>only read by statements\<close>
  sql_eq :: "gostring \<Rightarrow> gostring \<Rightarrow> bool" \<comment> \<open>\<open>=\<close> under the collation of the columns\<close>
  sql_json :: "gostring \<Rightarrow> gostring option" \<comment> \<open>a JSON column: the text read for the text written\<close>
  sql_datetime :: "gotime \<Rightarrow> gotime" \<comment> \<open>a DATETIME column: the instant read for the one written\<close>
  sql_now :: "gotime \<Rightarrow> gotime" \<comment> \<open>\<open>NOW()\<close>\<close>
  rand32 :: "nat \<Rightarrow> gostring option" \<comment> \<open>the n-th read of 32 random bytes\<close>
  new_uuid :: "nat \<Rightarrow> gostring"
  bcrypt_gen :: "nat \<Rightarrow> gostring \<Rightarrow> gostring option"
  bcrypt_matches :: "gostring \<Rightarrow> gostring \<Rightarrow> bool" \<comment> \<open>hash, password\<close>
  jwt_sign :: "iam_claims \<Rightarrow> gostring option" \<comment> \<open>RS256, private key\<close>
  jwt_parse :: "(gostring \<Rightarrow> goerr + unit) \<Rightarrow> gotime \<Rightarrow> gostring \<Rightarrow> goerr + iam_claims \<times> bool"
    \<comment> \<open>the key function on the token's algorithm, the clock, the token: claims and \<open>Valid\<close>\<close>
  time_text :: "gotime \<Rightarrow> gostring option"
  time_parse :: "gostring \<Rightarrow> gotime option"
  go_quote :: "gostring \<Rightarrow> gostring" \<comment> \<open>\<open>%q\<close>\<close>

text \<open>The state a run changes: the clock, how often randomness was drawn, the two servers.\<close>

record ('r, 'd) world =
  now :: gotime
  draws :: nat
  rds :: 'r
  sdb :: 'd

type_synonym ('r, 'd, 'a) prog = "(('r, 'd) world, goerr + 'a) state"

section \<open>Primitive computations\<close>

definition redis_call :: "(gotime \<Rightarrow> 'r \<Rightarrow> (goerr + 'a) \<times> 'r) \<Rightarrow> ('r, 'd, 'a) prog" where
  "redis_call op = State (\<lambda>w. case op (now w) (rds w) of (res, r) \<Rightarrow> (res, w\<lparr>rds := r\<rparr>))"

definition sql_call :: "(gotime \<Rightarrow> 'd \<Rightarrow> (goerr + 'a) \<times> 'd) \<Rightarrow> ('r, 'd, 'a) prog" where
  "sql_call op = State (\<lambda>w. case op (now w) (sdb w) of (res, d) \<Rightarrow> (res, w\<lparr>sdb := d\<rparr>))"

definition time_Now :: "(('r, 'd) world, gotime) state" where
  "time_Now = State (\<lambda>w. (now w, w))"

definition draw :: "(nat \<Rightarrow> 'a) \<Rightarrow> (('r, 'd) world, 'a) state" where
  "draw f = State (\<lambda>w. (f (draws w), w\<lparr>draws := Suc (draws w)\<rparr>))"

lemma run_redis_call [run_simps]:
  "run (redis_call op) w = (case op (now w) (rds w) of (res, r) \<Rightarrow> (res, w\<lparr>rds := r\<rparr>))"
  by (simp add: redis_call_def)

lemma run_sql_call [run_simps]:
  "run (sql_call op) w = (case op (now w) (sdb w) of (res, d) \<Rightarrow> (res, w\<lparr>sdb := d\<rparr>))"
  by (simp add: sql_call_def)

lemma run_time_Now [simp]: "run time_Now w = (now w, w)"
  by (simp add: time_Now_def)

lemma run_draw [simp]: "run (draw f) w = (f (draws w), w\<lparr>draws := Suc (draws w)\<rparr>)"
  by (simp add: draw_def)

section \<open>What the servers promise\<close>

definition infra :: "goerr + 'a \<Rightarrow> bool" where
  "infra r \<longleftrightarrow> (case r of Inl (Infra m) \<Rightarrow> True | _ \<Rightarrow> False)"

lemma infra_simps [simp]:
  "\<not> infra (Inr x)" "infra (Inl (Infra m))" "\<not> infra (Inl RedisNil)" "\<not> infra (Inl SqlNoRows)"
  by (simp_all add: infra_def)

lemma infraE: "infra r \<Longrightarrow> (\<And>m. r = Inl (Infra m) \<Longrightarrow> P) \<Longrightarrow> P"
  by (auto simp: infra_def split: sum.splits goerr.splits)

text \<open>
  One call against its documented meaning on the abstract state: it answers as documented,
  or, unless the server is \<open>up\<close>, it fails, and then its effect may or may not be applied.
\<close>

definition complies :: "bool \<Rightarrow> ('s \<Rightarrow> 'v) \<Rightarrow> ('s \<Rightarrow> (goerr + 'a) \<times> 's) \<Rightarrow> ('v \<Rightarrow> (goerr + 'a) \<times> 'v) \<Rightarrow> bool"
where
  "complies up view op sem \<longleftrightarrow> (\<forall>s. case op s of (res, s') \<Rightarrow>
     (case sem (view s) of (res0, v) \<Rightarrow>
        (res = res0 \<and> view s' = v) \<or> (\<not> up \<and> infra res \<and> (view s' = view s \<or> view s' = v))))"

lemma compliesD:
  assumes "complies up view op sem" and "op s = (res, s')"
  shows "(res, view s') = sem (view s)
    \<or> (\<not> up \<and> infra res \<and> (view s' = view s \<or> view s' = snd (sem (view s))))"
  using assms(1) unfolding complies_def
  by (drule_tac x = s in spec) (auto simp: assms(2) split: prod.splits)

lemma complies_exact: "complies up id sem sem"
  by (auto simp: complies_def split: prod.splits)

lemma complies_weaken: "complies True view op sem \<Longrightarrow> complies up view op sem"
  by (fastforce simp: complies_def split: prod.splits)

subsection \<open>Redis\<close>

text \<open>
  go-redis sends a command again when the connection fails, also when the first attempt took
  effect: unless the server is \<open>up\<close>, the answer may be that of a second execution.  More
  attempts are no different, for from the second on every command below finds and leaves the same.
\<close>

definition redis_complies ::
  "bool \<Rightarrow> ('s \<Rightarrow> 'v) \<Rightarrow> ('s \<Rightarrow> (goerr + 'a) \<times> 's) \<Rightarrow> ('v \<Rightarrow> (goerr + 'a) \<times> 'v) \<Rightarrow> bool" where
  "redis_complies up view op sem \<longleftrightarrow> (\<forall>s. case op s of (res, s') \<Rightarrow>
     (case sem (view s) of (res0, v) \<Rightarrow>
        (res = res0 \<and> view s' = v)
      \<or> (\<not> up \<and> infra res \<and> (view s' = view s \<or> view s' = v))
      \<or> (\<not> up \<and> (res, view s') = sem v)))"

lemma redis_compliesD:
  assumes "redis_complies up view op sem" and "op s = (res, s')"
  shows "(res, view s') = sem (view s)
    \<or> (\<not> up \<and> infra res \<and> (view s' = view s \<or> view s' = snd (sem (view s))))
    \<or> (\<not> up \<and> (res, view s') = sem (snd (sem (view s))))"
  using assms(1) unfolding redis_complies_def
  by (drule_tac x = s in spec) (auto simp: assms(2) split: prod.splits)

lemma redis_complies_exact: "redis_complies up id sem sem"
  by (auto simp: redis_complies_def split: prod.splits)

lemma redis_complies_weaken: "redis_complies True view op sem \<Longrightarrow> redis_complies up view op sem"
  by (fastforce simp: redis_complies_def split: prod.splits)

type_synonym redis_store = "gostring \<rightharpoonup> gostring \<times> gotime option"

text \<open>The value of a key that has not expired at \<open>t\<close>.\<close>

definition live :: "redis_store \<Rightarrow> gotime \<Rightarrow> gostring \<Rightarrow> gostring option" where
  "live st t k = (case st k of
     None \<Rightarrow> None
   | Some (v, None) \<Rightarrow> Some v
   | Some (v, Some e) \<Rightarrow> if t < e then Some v else None)"

definition or_nil :: "gostring option \<Rightarrow> goerr + gostring" where
  "or_nil v = (case v of None \<Rightarrow> Inl RedisNil | Some x \<Rightarrow> Inr x)"

definition sem_set :: "gostring \<Rightarrow> gostring \<Rightarrow> int \<Rightarrow> gotime \<Rightarrow> redis_store \<Rightarrow> (goerr + unit) \<times> redis_store"
  where "sem_set k v ttl t st = (Inr (), st(k \<mapsto> (v, if ttl = 0 then None else Some (t + ttl))))"

definition sem_get :: "gostring \<Rightarrow> gotime \<Rightarrow> redis_store \<Rightarrow> (goerr + gostring) \<times> redis_store" where
  "sem_get k t st = (or_nil (live st t k), st)"

definition sem_getdel :: "gostring \<Rightarrow> gotime \<Rightarrow> redis_store \<Rightarrow> (goerr + gostring) \<times> redis_store" where
  "sem_getdel k t st = (or_nil (live st t k), st(k := None))"

definition sem_del :: "gostring list \<Rightarrow> gotime \<Rightarrow> redis_store \<Rightarrow> (goerr + int) \<times> redis_store" where
  "sem_del ks t st = (Inr (int (length (filter (\<lambda>k. live st t k \<noteq> None) (remdups ks)))),
     \<lambda>k. if k \<in> set ks then None else st k)"

definition sem_exists :: "gostring \<Rightarrow> gotime \<Rightarrow> redis_store \<Rightarrow> (goerr + int) \<times> redis_store" where
  "sem_exists k t st = (Inr (if live st t k = None then 0 else 1), st)"

text \<open>
  go-redis hands the two negative replies of TTL through as a bare \<open>Duration\<close> of -2 and -1,
  and multiplies every other reply by a second.  That reply is the time left in seconds; how the
  server rounds it is left open.
\<close>

definition ttl_reply :: "redis_store \<Rightarrow> gotime \<Rightarrow> gostring \<Rightarrow> int \<Rightarrow> bool" where
  "ttl_reply st t k d \<longleftrightarrow> (if live st t k = None then d = -2
     else case st k of
       Some (v, Some e) \<Rightarrow> 0 \<le> d \<and> second dvd d \<and> \<bar>d - (e - t)\<bar> \<le> second
     | _ \<Rightarrow> d = -1)"

definition ttl_complies :: "bool \<Rightarrow> ('r, 'd) ext \<Rightarrow> bool" where
  "ttl_complies up X \<longleftrightarrow> (\<forall>k t s. case r_ttl X k t s of (res, s') \<Rightarrow> r_view X s' = r_view X s
     \<and> (\<not> up \<and> infra res \<or> (\<exists>d. res = Inr d \<and> ttl_reply (r_view X s) t k d)))"

definition redis_spec :: "bool \<Rightarrow> ('r, 'd) ext \<Rightarrow> bool" where
  "redis_spec up X \<longleftrightarrow>
     (\<forall>k v ttl t. ttl = 0 \<or> 0 < ttl \<and> ttl mod second = 0
        \<longrightarrow> redis_complies up (r_view X) (r_set X k v ttl t) (sem_set k v ttl t))
   \<and> (\<forall>k t. redis_complies up (r_view X) (r_get X k t) (sem_get k t))
   \<and> (\<forall>k t. redis_complies up (r_view X) (r_getdel X k t) (sem_getdel k t))
   \<and> (\<forall>ks t. redis_complies up (r_view X) (r_del X ks t) (sem_del ks t))
   \<and> (\<forall>k t. redis_complies up (r_view X) (r_exists X k t) (sem_exists k t))
   \<and> ttl_complies up X"

lemma ttl_complies_weaken: "ttl_complies True X \<Longrightarrow> ttl_complies up X"
  unfolding ttl_complies_def by (auto split: prod.splits)

lemma redis_spec_weaken: "redis_spec True X \<Longrightarrow> redis_spec up X"
  by (simp add: redis_spec_def redis_complies_weaken ttl_complies_weaken)

abbreviation redis_ok :: "('r, 'd) ext \<Rightarrow> bool" where
  "redis_ok X \<equiv> redis_spec False X"

subsection \<open>MySQL\<close>

text \<open>
  The schema of \<open>database/migrations\<close>: primary keys, \<open>UNIQUE\<close> on \<open>users.email\<close>, the
  foreign key of \<open>refresh_tokens.user_id\<close> with \<open>ON DELETE CASCADE\<close>, JSON columns that
  refuse texts that are not JSON, \<open>created_at\<close> set by the server.
\<close>

text \<open>
  A text column holds at most so many characters of well-formed UTF-8; a longer value is
  refused.  A CHAR column gives a value back without its trailing spaces.
\<close>

definition fits :: "nat \<Rightarrow> gostring \<Rightarrow> bool" where
  "fits n s \<longleftrightarrow> utf8_valid s \<and> length (runes s) \<le> n"

lemma fits_ascii: "ascii s \<Longrightarrow> length s \<le> n \<Longrightarrow> fits n s"
  by (simp add: fits_def ascii_valid runes_ascii)

definition char_value :: "gostring \<Rightarrow> gostring" where
  "char_value s = rev (dropWhile (\<lambda>c. c = CHR 0x20) (rev s))"

definition refused :: "gostring \<Rightarrow> 'v \<Rightarrow> (goerr + unit) \<times> 'v" where
  "refused m v = (Inl (Infra m), v)"

fun sem_exec :: "('r, 'd) ext \<Rightarrow> sql_stmt \<Rightarrow> gotime \<Rightarrow> tables \<Rightarrow> (goerr + unit) \<times> tables" where
  "sem_exec X (InsertUser i e h) t T =
     (if \<not> (fits 36 i \<and> fits 255 e \<and> fits 255 h) then refused ''Data too long'' T
      else if \<exists>u \<in> set (t_users T). sql_eq X (us_ID u) i \<or> sql_eq X (us_Email u) e
      then refused ''Duplicate entry'' T
      else (Inr (), T\<lparr>t_users := t_users T @
        [\<lparr>us_ID = char_value i, us_Email = e, us_PasswordHash = h,
          us_CreatedAt = sql_datetime X (sql_now X t)\<rparr>]\<rparr>))"
| "sem_exec X (DeleteUser i) t T =
     (Inr (), T\<lparr>t_users := filter (\<lambda>u. \<not> sql_eq X (us_ID u) i) (t_users T),
        t_tokens := filter (\<lambda>r. \<not> (\<exists>u \<in> set (t_users T). sql_eq X (us_ID u) i
            \<and> sql_eq X (us_ID u) (tw_user_id r))) (t_tokens T)\<rparr>)"
| "sem_exec X (InsertClient i n h us ss gs f) t T =
     (if \<not> (fits 36 i \<and> fits 255 n \<and> fits 255 h) then refused ''Data too long'' T
      else if \<exists>c \<in> set (t_clients T). sql_eq X (cr_id c) i then refused ''Duplicate entry'' T
      else case (sql_json X us, sql_json X ss, sql_json X gs) of
        (Some us', Some ss', Some gs') \<Rightarrow>
          (Inr (), T\<lparr>t_clients := t_clients T @
            [\<lparr>cr_id = char_value i, cr_name = n, cr_secret_hash = h, cr_redirect_uris = us',
              cr_scopes = ss', cr_grant_types = gs', cr_is_first_party = f,
              cr_created_at = sql_datetime X (sql_now X t)\<rparr>]\<rparr>)
      | _ \<Rightarrow> refused ''Invalid JSON text'' T)"
| "sem_exec X (InsertToken i u c s h e) t T =
     (if \<not> (fits 36 i \<and> fits 36 u \<and> fits 36 c \<and> fits 255 h) then refused ''Data too long'' T
      else if \<exists>r \<in> set (t_tokens T). sql_eq X (tw_id r) i then refused ''Duplicate entry'' T
      else if \<not> (\<exists>v \<in> set (t_users T). sql_eq X (us_ID v) u)
      then refused ''Cannot add or update a child row'' T
      else case sql_json X s of
        Some s' \<Rightarrow>
          (Inr (), T\<lparr>t_tokens := t_tokens T @
            [\<lparr>tw_id = char_value i, tw_user_id = char_value u, tw_client_id = char_value c, tw_scope = s', tw_token_hash = h,
              tw_expires_at = sql_datetime X e, tw_revoked_at = None,
              tw_created_at = sql_datetime X (sql_now X t)\<rparr>]\<rparr>)
      | None \<Rightarrow> refused ''Invalid JSON text'' T)"
| "sem_exec X (RevokeToken i) t T =
     (Inr (), T\<lparr>t_tokens := map (\<lambda>r. if sql_eq X (tw_id r) i
        then r\<lparr>tw_revoked_at := Some (sql_datetime X (sql_now X t))\<rparr> else r) (t_tokens T)\<rparr>)"
| "sem_exec X (RevokeUserTokens u) t T =
     (Inr (), T\<lparr>t_tokens := map (\<lambda>r. if sql_eq X (tw_user_id r) u \<and> tw_revoked_at r = None
        then r\<lparr>tw_revoked_at := Some (sql_datetime X (sql_now X t))\<rparr> else r) (t_tokens T)\<rparr>)"
| "sem_exec X DeleteExpiredTokens t T =
     (Inr (), T\<lparr>t_tokens := filter (\<lambda>r. \<not> tw_expires_at r < sql_now X t) (t_tokens T)\<rparr>)"

text \<open>\<open>sqlx.Get\<close>: the first row that satisfies the condition, or \<open>sql.ErrNoRows\<close>.\<close>

definition or_no_rows :: "'a option \<Rightarrow> goerr + 'a" where
  "or_no_rows v = (case v of None \<Rightarrow> Inl SqlNoRows | Some x \<Rightarrow> Inr x)"

fun user_where :: "('r, 'd) ext \<Rightarrow> user_query \<Rightarrow> user \<Rightarrow> bool" where
  "user_where X (UserById i) u = sql_eq X (us_ID u) i"
| "user_where X (UserByEmail e) u = sql_eq X (us_Email u) e"

fun token_where :: "('r, 'd) ext \<Rightarrow> token_query \<Rightarrow> token_row \<Rightarrow> bool" where
  "token_where X (TokenById i) r = sql_eq X (tw_id r) i"
| "token_where X (TokenByHash h) r = sql_eq X (tw_token_hash r) h"

definition sem_get_user :: "('r, 'd) ext \<Rightarrow> user_query \<Rightarrow> tables \<Rightarrow> (goerr + user) \<times> tables" where
  "sem_get_user X q T = (or_no_rows (List.find (user_where X q) (t_users T)), T)"

definition sem_get_client :: "('r, 'd) ext \<Rightarrow> gostring \<Rightarrow> tables \<Rightarrow> (goerr + client_row) \<times> tables" where
  "sem_get_client X i T = (or_no_rows (List.find (\<lambda>c. sql_eq X (cr_id c) i) (t_clients T)), T)"

definition sem_get_token :: "('r, 'd) ext \<Rightarrow> token_query \<Rightarrow> tables \<Rightarrow> (goerr + token_row) \<times> tables" where
  "sem_get_token X q T = (or_no_rows (List.find (token_where X q) (t_tokens T)), T)"

definition sem_active_tokens ::
  "('r, 'd) ext \<Rightarrow> gostring \<Rightarrow> gotime \<Rightarrow> tables \<Rightarrow> (goerr + token_row list) \<times> tables" where
  "sem_active_tokens X u t T = (Inr (filter (\<lambda>r. sql_eq X (tw_user_id r) u
     \<and> tw_revoked_at r = None \<and> sql_now X t < tw_expires_at r) (t_tokens T)), T)"

definition mysql_spec :: "bool \<Rightarrow> ('r, 'd) ext \<Rightarrow> bool" where
  "mysql_spec up X \<longleftrightarrow>
     (\<forall>s t. complies up (sql_view X) (sql_exec X s t) (sem_exec X s t))
   \<and> (\<forall>q t. complies up (sql_view X) (sql_get_user X q t) (sem_get_user X q))
   \<and> (\<forall>i t. complies up (sql_view X) (sql_get_client X i t) (sem_get_client X i))
   \<and> (\<forall>q t. complies up (sql_view X) (sql_get_token X q t) (sem_get_token X q))
   \<and> (\<forall>u t. complies up (sql_view X) (sql_active_tokens X u t) (sem_active_tokens X u t))"

abbreviation mysql_ok :: "('r, 'd) ext \<Rightarrow> bool" where
  "mysql_ok X \<equiv> mysql_spec False X"

text \<open>
  The collation is an equivalence that keeps lower-case hexadecimal texts apart; a JSON
  column gives back an array of strings (or the \<open>null\<close> of a nil slice) unchanged; a DATETIME
  column rounds to the second.
\<close>

definition columns_ok :: "('r, 'd) ext \<Rightarrow> bool" where
  "columns_ok X \<longleftrightarrow>
     (\<forall>a. sql_eq X a a) \<and> (\<forall>a b. sql_eq X a b \<longrightarrow> sql_eq X b a)
   \<and> (\<forall>a b c. sql_eq X a b \<longrightarrow> sql_eq X b c \<longrightarrow> sql_eq X a c)
   \<and> (\<forall>a b. lower_hex a \<longrightarrow> lower_hex b \<longrightarrow> sql_eq X a b \<longrightarrow> a = b)
   \<and> (\<forall>t s. json_unmarshal t = Some (slice_json s)
        \<longrightarrow> (\<exists>t'. sql_json X t = Some t' \<and> json_unmarshal t' = Some (slice_json s)))
   \<and> (\<forall>t. 2 * \<bar>sql_datetime X t - t\<bar> \<le> second)"

subsection \<open>Libraries\<close>

text \<open>
  bcrypt verifies what it hashed, with a hash of sixty ASCII characters; 32 random bytes are 32
  bytes; a UUID is 36 hexadecimal digits and dashes; an instant is rendered in ASCII and read
  back.
\<close>

definition uuid_text :: "gostring \<Rightarrow> bool" where
  "uuid_text s \<longleftrightarrow> length s = 36 \<and> set s \<subseteq> set ''0123456789abcdef-''"

lemma uuid_plain: "uuid_text s \<Longrightarrow> char_value s = s \<and> ascii s"
proof -
  assume u: "uuid_text s"
  have all: "\<forall>c \<in> set ''0123456789abcdef-''. c \<noteq> CHR 0x20 \<and> byte c < 128" by simp
  have s: "c \<noteq> CHR 0x20 \<and> byte c < 128" if "c \<in> set s" for c
    using u that all unfolding uuid_text_def by blast
  then have "dropWhile (\<lambda>c. c = CHR 0x20) (rev s) = rev s"
    using s [of "hd (rev s)"] hd_in_set [of "rev s"] by (auto simp: dropWhile_eq_self_iff)
  with s show ?thesis by (simp add: char_value_def ascii_def)
qed

lemma uuid_fits: "uuid_text s \<Longrightarrow> fits 36 s"
  using uuid_plain by (intro fits_ascii) (auto simp: uuid_text_def)

definition library_ok :: "('r, 'd) ext \<Rightarrow> bool" where
  "library_ok X \<longleftrightarrow>
     (\<forall>n p h. bcrypt_gen X n p = Some h \<longrightarrow> length h = 60 \<and> ascii h \<and> bcrypt_matches X h p)
   \<and> (\<forall>n b. rand32 X n = Some b \<longrightarrow> length b = 32)
   \<and> (\<forall>n. uuid_text (new_uuid X n))
   \<and> time_codec (time_text X) (time_parse X)"

text \<open>
  The JWT library: the claims are JSON and hold whole seconds; parsing consults the key function with the
  algorithm of the token, and a token of \<open>jwt_sign\<close> gives its claims back until it expires.
\<close>

definition numeric_date :: "gotime \<Rightarrow> gotime" where
  "numeric_date t = t - t mod second"

definition stamped :: "iam_claims \<Rightarrow> iam_claims" where
  "stamped c = \<lparr>ic_UserID = to_valid (ic_UserID c), ic_Email = to_valid (ic_Email c),
     ic_ClientID = to_valid (ic_ClientID c), ic_Scope = to_valid (ic_Scope c),
     ic_ID = to_valid (ic_ID c), ic_IssuedAt = numeric_date (ic_IssuedAt c),
     ic_ExpiresAt = numeric_date (ic_ExpiresAt c)\<rparr>"

definition jwt_ok :: "('r, 'd) ext \<Rightarrow> bool" where
  "jwt_ok X \<longleftrightarrow>
     (\<forall>kf t raw c. jwt_parse X kf t raw = Inr (c, True) \<longrightarrow> (\<exists>alg. kf alg = Inr ()))
   \<and> (\<forall>c tok kf t. jwt_sign X c = Some tok \<longrightarrow> kf ''RS256'' = Inr ()
        \<longrightarrow> (if t < numeric_date (ic_ExpiresAt c) then jwt_parse X kf t tok = Inr (stamped c, True)
             else \<exists>e. jwt_parse X kf t tok = Inl e))"

end
