(* ===== verification/Cache.thy ===== *)
theory Cache
  imports World
begin

text \<open>
  \<open>internal/cache/redis.go\<close>: the wrapper of go-redis.  Each operation is one call; its error
  is wrapped, and \<open>redis.Nil\<close> becomes \<open>ErrRedisKeyNotFound\<close>.
\<close>

section \<open>Operations\<close>

definition Cache_Set :: "('r, 'd) ext \<Rightarrow> gostring \<Rightarrow> gostring \<Rightarrow> int \<Rightarrow> ('r, 'd, unit) prog" where
  "Cache_Set X key value ttl = do {
     r \<leftarrow> redis_call (r_set X key value ttl);
     ret (case r of
            Inl e \<Rightarrow> Inl (wrap (''cache.Set '' @ go_quote X key) e)
          | Inr _ \<Rightarrow> Inr ())
   }"

definition Cache_Get :: "('r, 'd) ext \<Rightarrow> gostring \<Rightarrow> ('r, 'd, gostring) prog" where
  "Cache_Get X key = do {
     r \<leftarrow> redis_call (r_get X key);
     ret (case r of
            Inl e \<Rightarrow> (if err_is e RedisNil then Inl ErrRedisKeyNotFound
                      else Inl (wrap (''cache.Get '' @ go_quote X key) e))
          | Inr val \<Rightarrow> Inr val)
   }"

definition Cache_GetDel :: "('r, 'd) ext \<Rightarrow> gostring \<Rightarrow> ('r, 'd, gostring) prog" where
  "Cache_GetDel X key = do {
     r \<leftarrow> redis_call (r_getdel X key);
     ret (case r of
            Inl e \<Rightarrow> (if err_is e RedisNil then Inl ErrRedisKeyNotFound
                      else Inl (wrap (''cache.GetDel '' @ go_quote X key) e))
          | Inr val \<Rightarrow> Inr val)
   }"

definition Cache_Delete :: "('r, 'd) ext \<Rightarrow> gostring list \<Rightarrow> ('r, 'd, unit) prog" where
  "Cache_Delete X keys = do {
     r \<leftarrow> redis_call (r_del X keys);
     ret (case r of Inl e \<Rightarrow> Inl (wrap ''cache.Delete'' e) | Inr _ \<Rightarrow> Inr ())
   }"

definition Cache_Exists :: "('r, 'd) ext \<Rightarrow> gostring \<Rightarrow> ('r, 'd, bool) prog" where
  "Cache_Exists X key = do {
     r \<leftarrow> redis_call (r_exists X key);
     ret (case r of
            Inl e \<Rightarrow> Inl (wrap (''cache.Exists '' @ go_quote X key) e)
          | Inr n \<Rightarrow> Inr (n > 0))
   }"

definition Cache_TTL :: "('r, 'd) ext \<Rightarrow> gostring \<Rightarrow> ('r, 'd, int) prog" where
  "Cache_TTL X key = do {
     r \<leftarrow> redis_call (r_ttl X key);
     ret (case r of
            Inl e \<Rightarrow> Inl (wrap (''cache.TTL '' @ go_quote X key) e)
          | Inr d \<Rightarrow> (if d = -2 * second then Inl ErrRedisKeyNotFound
                      else if d = -1 * second then Inr 0
                      else Inr d))
   }"

section \<open>Their effect on the store\<close>

text \<open>The store as the statements see it, and the live value of a key.\<close>

definition store :: "('r, 'd) ext \<Rightarrow> ('r, 'd) world \<Rightarrow> redis_store" where
  "store X w = r_view X (rds w)"

definition cached :: "('r, 'd) ext \<Rightarrow> ('r, 'd) world \<Rightarrow> gostring \<Rightarrow> gostring option" where
  "cached X w k = live (store X w) (now w) k"

lemmas cache_defs = Cache_Set_def Cache_Get_def Cache_GetDel_def Cache_Delete_def
  Cache_Exists_def Cache_TTL_def

text \<open>No operation of the cache touches the clock, the random source or the database.\<close>

lemma keeps_redis_call [frame]:
  "keeps_field now (redis_call op)" "keeps_field draws (redis_call op)"
  "keeps_field sdb (redis_call op)"
  by (simp_all add: keeps_field_def redis_call_def split: prod.splits)

lemma keeps_sql_call [frame]:
  "keeps_field now (sql_call op)" "keeps_field draws (sql_call op)"
  "keeps_field rds (sql_call op)"
  by (simp_all add: keeps_field_def sql_call_def split: prod.splits)

lemma keeps_time_Now [frame]: "keeps_field f time_Now"
  by (simp add: keeps_field_def)

lemma keeps_draw [frame]:
  "keeps_field now (draw g)" "keeps_field rds (draw g)" "keeps_field sdb (draw g)"
  by (simp_all add: keeps_field_def)

lemma cache_frame [frame]:
  "keeps_field now (Cache_Set X k v d)" "keeps_field draws (Cache_Set X k v d)"
  "keeps_field sdb (Cache_Set X k v d)"
  "keeps_field now (Cache_Get X k)" "keeps_field draws (Cache_Get X k)"
  "keeps_field sdb (Cache_Get X k)"
  "keeps_field now (Cache_GetDel X k)" "keeps_field draws (Cache_GetDel X k)"
  "keeps_field sdb (Cache_GetDel X k)"
  "keeps_field now (Cache_Delete X ks)" "keeps_field draws (Cache_Delete X ks)"
  "keeps_field sdb (Cache_Delete X ks)"
  "keeps_field now (Cache_Exists X k)" "keeps_field draws (Cache_Exists X k)"
  "keeps_field sdb (Cache_Exists X k)"
  "keeps_field now (Cache_TTL X k)" "keeps_field draws (Cache_TTL X k)"
  "keeps_field sdb (Cache_TTL X k)"
  unfolding cache_defs by (intro keeps_field_bind keeps_field_ret frame)+

text \<open>
  A call that complies leaves the store as documented or, on a failure, possibly as it was, or
  twice changed.
\<close>

lemma run_redis_store:
  assumes "redis_complies up (r_view X) (op (now w)) sem" and "run (redis_call op) w = (res, w')"
  shows "(res, store X w') = sem (store X w)
    \<or> (\<not> up \<and> infra res \<and> (store X w' = store X w \<or> store X w' = snd (sem (store X w))))
    \<or> (\<not> up \<and> (res, store X w') = sem (snd (sem (store X w))))"
proof -
  obtain s' where op: "op (now w) (rds w) = (res, s')" and w': "w' = w\<lparr>rds := s'\<rparr>"
    using assms(2) by (auto simp: run_simps split: prod.splits)
  show ?thesis
    using redis_compliesD [OF assms(1) op] by (simp add: store_def w')
qed

definition whole_seconds :: "int \<Rightarrow> bool" where
  "whole_seconds ttl \<longleftrightarrow> ttl = 0 \<or> 0 < ttl \<and> ttl mod second = 0"

definition expiry :: "('r, 'd) world \<Rightarrow> int \<Rightarrow> gotime option" where
  "expiry w ttl = (if ttl = 0 then None else Some (now w + ttl))"

lemma Cache_Set_store:
  assumes "redis_spec up X" "whole_seconds ttl" "run (Cache_Set X k v ttl) w = (r, w')"
  shows "store X w' = (store X w)(k \<mapsto> (v, expiry w ttl)) \<and> (up \<longrightarrow> r = Inr ())
    \<or> \<not> up \<and> r \<noteq> Inr () \<and> store X w' = store X w"
proof -
  obtain res where c: "run (redis_call (r_set X k v ttl)) w = (res, w')"
    and r: "r = (case res of Inl e \<Rightarrow> Inl (wrap (''cache.Set '' @ go_quote X k) e) | Inr _ \<Rightarrow> Inr ())"
    using assms(3) by (auto simp: Cache_Set_def split: prod.splits)
  have "redis_complies up (r_view X) (r_set X k v ttl (now w)) (sem_set k v ttl (now w))"
    using assms(1,2) by (auto simp: redis_spec_def whole_seconds_def)
  from run_redis_store [OF this c] show ?thesis
    by (auto simp: sem_set_def expiry_def r elim: infraE)
qed

lemma Cache_Get_store:
  assumes "redis_spec up X" and "run (Cache_Get X k) w = (r, w')"
  shows "store X w' = store X w"
    and "r = Inr v \<Longrightarrow> cached X w k = Some v"
    and "r = Inl e \<Longrightarrow> err_is e ErrRedisKeyNotFound \<Longrightarrow> cached X w k = None"
    and "up \<Longrightarrow> r = (case cached X w k of None \<Rightarrow> Inl ErrRedisKeyNotFound | Some v \<Rightarrow> Inr v)"
proof -
  obtain res where c: "run (redis_call (r_get X k)) w = (res, w')"
    and r: "r = (case res of Inl e \<Rightarrow> (if err_is e RedisNil then Inl ErrRedisKeyNotFound
      else Inl (wrap (''cache.Get '' @ go_quote X k) e)) | Inr val \<Rightarrow> Inr val)"
    using assms(2) by (auto simp: Cache_Get_def split: prod.splits)
  have "redis_complies up (r_view X) (r_get X k (now w)) (sem_get k (now w))"
    using assms(1) by (simp add: redis_spec_def)
  note * = run_redis_store [OF this c]
  show "store X w' = store X w"
    using * by (auto simp: sem_get_def)
  show "r = Inr v \<Longrightarrow> cached X w k = Some v"
    using * by (auto simp: sem_get_def or_nil_def cached_def r split: option.splits if_splits elim!: infraE)
  show "r = Inl e \<Longrightarrow> err_is e ErrRedisKeyNotFound \<Longrightarrow> cached X w k = None"
    using * by (auto simp: sem_get_def or_nil_def cached_def r split: option.splits if_splits elim!: infraE)
  show "up \<Longrightarrow> r = (case cached X w k of None \<Rightarrow> Inl ErrRedisKeyNotFound | Some v \<Rightarrow> Inr v)"
    using * by (auto simp: sem_get_def or_nil_def cached_def r split: option.splits)
qed

lemma Cache_Get_error:
  assumes "redis_spec up X" and "run (Cache_Get X k) w = (Inl e, w')"
  shows "e = ErrRedisKeyNotFound \<or> (\<exists>m n. e = wrap m (Infra n))"
proof -
  obtain res where c: "run (redis_call (r_get X k)) w = (res, w')"
    and r: "Inl e = (case res of Inl e \<Rightarrow> (if err_is e RedisNil then Inl ErrRedisKeyNotFound
      else Inl (wrap (''cache.Get '' @ go_quote X k) e)) | Inr val \<Rightarrow> Inr val)"
    using assms(2) by (auto simp: Cache_Get_def split: prod.splits)
  have "redis_complies up (r_view X) (r_get X k (now w)) (sem_get k (now w))"
    using assms(1) by (simp add: redis_spec_def)
  from run_redis_store [OF this c] r show ?thesis
    by (auto simp: sem_get_def or_nil_def split: option.splits sum.splits if_splits elim!: infraE)
qed

lemma live_gone: "live (st(k := None)) t k = None"
  by (simp add: live_def)

lemma Cache_GetDel_store:
  assumes "redis_spec up X" and "run (Cache_GetDel X k) w = (r, w')"
  shows "store X w' = (store X w)(k := None) \<or> store X w' = store X w \<and> (\<exists>e. r = Inl e \<and> e \<noteq> ErrRedisKeyNotFound)"
    and "r = Inr v \<Longrightarrow> cached X w k = Some v \<and> store X w' = (store X w)(k := None)"
    and "up \<Longrightarrow> r = (case cached X w k of None \<Rightarrow> Inl ErrRedisKeyNotFound | Some v \<Rightarrow> Inr v)"
proof -
  obtain res where c: "run (redis_call (r_getdel X k)) w = (res, w')"
    and r: "r = (case res of Inl e \<Rightarrow> (if err_is e RedisNil then Inl ErrRedisKeyNotFound
      else Inl (wrap (''cache.GetDel '' @ go_quote X k) e)) | Inr val \<Rightarrow> Inr val)"
    using assms(2) by (auto simp: Cache_GetDel_def split: prod.splits)
  have "redis_complies up (r_view X) (r_getdel X k (now w)) (sem_getdel k (now w))"
    using assms(1) by (simp add: redis_spec_def)
  note * = run_redis_store [OF this c]
  show "store X w' = (store X w)(k := None) \<or> store X w' = store X w \<and> (\<exists>e. r = Inl e \<and> e \<noteq> ErrRedisKeyNotFound)"
    using * by (auto simp: sem_getdel_def r elim!: infraE)
  show "r = Inr v \<Longrightarrow> cached X w k = Some v \<and> store X w' = (store X w)(k := None)"
    using * by (auto simp: sem_getdel_def or_nil_def cached_def live_gone r
      split: option.splits if_splits elim!: infraE)
  show "up \<Longrightarrow> r = (case cached X w k of None \<Rightarrow> Inl ErrRedisKeyNotFound | Some v \<Rightarrow> Inr v)"
    using * by (auto simp: sem_getdel_def or_nil_def cached_def r split: option.splits)
qed

lemma Cache_Delete_store:
  assumes "redis_spec up X" and "run (Cache_Delete X ks) w = (r, w')"
  shows "store X w' = (\<lambda>k. if k \<in> set ks then None else store X w k) \<and> (up \<longrightarrow> r = Inr ())
    \<or> \<not> up \<and> store X w' = store X w \<and> r \<noteq> Inr ()"
proof -
  obtain res where c: "run (redis_call (r_del X ks)) w = (res, w')"
    and r: "r = (case res of Inl e \<Rightarrow> Inl (wrap ''cache.Delete'' e) | Inr _ \<Rightarrow> Inr ())"
    using assms(2) by (auto simp: Cache_Delete_def split: prod.splits)
  have "redis_complies up (r_view X) (r_del X ks (now w)) (sem_del ks (now w))"
    using assms(1) by (simp add: redis_spec_def)
  from run_redis_store [OF this c] show ?thesis
    by (auto simp: sem_del_def r elim: infraE)
qed

lemma Cache_TTL_up:
  assumes "redis_spec True X" and "run (Cache_TTL X k) w = (r, w')"
  shows "if cached X w k = None then r = Inr (-2)
    else case store X w k of
      Some (v, Some e) \<Rightarrow> \<exists>d. r = Inr d \<and> 0 \<le> d \<and> second dvd d \<and> \<bar>d - (e - now w)\<bar> \<le> second
    | _ \<Rightarrow> r = Inr (-1)"
proof -
  obtain res where c: "run (redis_call (r_ttl X k)) w = (res, w')"
    and r: "r = (case res of
       Inl e \<Rightarrow> Inl (wrap (''cache.TTL '' @ go_quote X k) e)
     | Inr d \<Rightarrow> (if d = -2 * second then Inl ErrRedisKeyNotFound
                 else if d = -1 * second then Inr 0 else Inr d))"
    using assms(2) by (auto simp: Cache_TTL_def split: prod.splits)
  obtain s' where op: "r_ttl X k (now w) (rds w) = (res, s')"
    using c by (auto simp: run_simps split: prod.splits)
  from assms(1) have "ttl_complies True X" by (simp add: redis_spec_def)
  then have "case r_ttl X k (now w) (rds w) of (res, s') \<Rightarrow> r_view X s' = r_view X (rds w)
      \<and> (\<not> True \<and> infra res \<or> (\<exists>d. res = Inr d \<and> ttl_reply (r_view X (rds w)) (now w) k d))"
    unfolding ttl_complies_def by (elim allE)
  then obtain d where d: "res = Inr d" "ttl_reply (store X w) (now w) k d"
    by (auto simp: op store_def)
  show ?thesis
    using d(2) by (auto simp: r d(1) ttl_reply_def cached_def second_def split: option.splits if_splits)
qed

end
