(* ===== verification/Ports.thy ===== *)
theory Ports
  imports World
begin

text \<open>
  \<open>internal/service/ports.go\<close>: the collaborators of the service layer, one interface each.
  A locale states what the service relies on: the operations, an abstract reading of the
  state, and the laws between them, for every parameter that is \<open>ok\<close>.  The repositories
  interpret these locales on their own definitions.
\<close>

section \<open>authCodeRepo\<close>

text \<open>\<open>code_at X w c\<close> is what the code \<open>c\<close> stands for in \<open>w\<close>, as long as it can be redeemed.\<close>

locale auth_code_port =
  fixes ok :: "'x \<Rightarrow> bool"
    and create :: "'x \<Rightarrow> auth_code \<Rightarrow> ('w, goerr + gostring) state"
    and consume :: "'x \<Rightarrow> gostring \<Rightarrow> ('w, goerr + auth_code) state"
    and code_at :: "'x \<Rightarrow> 'w \<Rightarrow> gostring \<Rightarrow> auth_code option"
  assumes consume_Inr: "ok X \<Longrightarrow> run (consume X c) w = (Inr a, w')
      \<Longrightarrow> code_at X w c = Some a \<and> code_at X w' c = None"
    and consume_lost: "ok X \<Longrightarrow> run (consume X c) w = (r, w') \<Longrightarrow> code_at X w' c = None \<or> code_at X w' c = code_at X w c"
    and consume_other: "ok X \<Longrightarrow> run (consume X c) w = (r, w') \<Longrightarrow> c' \<noteq> c
      \<Longrightarrow> code_at X w' c' = code_at X w c'"
    and create_other: "ok X \<Longrightarrow> run (create X a) w = (Inr c, w') \<Longrightarrow> c' \<noteq> c
      \<Longrightarrow> code_at X w' c' = code_at X w c'"
begin

text \<open>A code is redeemed at most once, whatever is redeemed in between.\<close>

fun consume_all :: "'x \<Rightarrow> gostring list \<Rightarrow> 'w \<Rightarrow> (gostring \<times> (goerr + auth_code)) list" where
  "consume_all X [] w = []"
| "consume_all X (c # cs) w = (case run (consume X c) w of (r, w') \<Rightarrow> (c, r) # consume_all X cs w')"

lemma gone_stays_gone:
  "ok X \<Longrightarrow> code_at X w c = None \<Longrightarrow> (c, Inr a) \<notin> set (consume_all X cs w)"
proof (induction cs arbitrary: w)
  case (Cons d cs)
  obtain r w' where r: "run (consume X d) w = (r, w')" by fastforce
  have "code_at X w' c = None"
    using consume_lost [OF Cons.prems(1) r] consume_other [OF Cons.prems(1) r, of c] Cons.prems(2)
    by (cases "c = d") auto
  moreover have "\<not> (c = d \<and> r = Inr a)"
    using consume_Inr [OF Cons.prems(1)] r Cons.prems(2) by force
  ultimately show ?case using Cons.IH Cons.prems(1) r by auto
qed simp

lemma redeemed_once:
  "ok X \<Longrightarrow> length (filter (\<lambda>(d, r). d = c \<and> (\<exists>a. r = Inr a)) (consume_all X cs w)) \<le> 1"
proof (induction cs arbitrary: w)
  case (Cons d cs)
  obtain r w' where r: "run (consume X d) w = (r, w')" by fastforce
  show ?case
  proof (cases "d = c \<and> (\<exists>a. r = Inr a)")
    case True
    then obtain a where "run (consume X c) w = (Inr a, w')" using r by auto
    then have "code_at X w' c = None" using consume_Inr [OF Cons.prems] by blast
    then have "filter (\<lambda>(d, r). d = c \<and> (\<exists>a. r = Inr a)) (consume_all X cs w') = []"
      using gone_stays_gone [OF Cons.prems] by (fastforce simp: filter_empty_conv)
    with True r show ?thesis by simp
  next
    case False
    then show ?thesis using Cons.IH [OF Cons.prems, of w'] r by auto
  qed
qed simp

end

section \<open>sessionRepo\<close>

locale session_port =
  fixes ok :: "'x \<Rightarrow> bool"
    and create :: "'x \<Rightarrow> gostring \<Rightarrow> gostring \<Rightarrow> ('w, goerr + gostring \<times> gotime) state"
    and get :: "'x \<Rightarrow> gostring \<Rightarrow> ('w, goerr + session) state"
    and destroy :: "'x \<Rightarrow> gostring \<Rightarrow> ('w, goerr + unit) state"
    and session_at :: "'x \<Rightarrow> 'w \<Rightarrow> gostring \<Rightarrow> session option"
  assumes get_Inr: "ok X \<Longrightarrow> run (get X i) w = (Inr s, w') \<Longrightarrow> session_at X w i = Some s"
    and get_not_found: "ok X \<Longrightarrow> run (get X i) w = (Inl ErrSessionNotFound, w') \<Longrightarrow> session_at X w i = None"
    and get_keeps: "ok X \<Longrightarrow> run (get X i) w = (r, w') \<Longrightarrow> session_at X w' = session_at X w"
    and destroy_Inr: "ok X \<Longrightarrow> run (destroy X i) w = (Inr u, w') \<Longrightarrow> session_at X w' i = None"
    and destroy_other: "ok X \<Longrightarrow> run (destroy X i) w = (rd, w') \<Longrightarrow> j \<noteq> i
      \<Longrightarrow> session_at X w' j = session_at X w j"
begin

lemma destroyed_not_found:
  assumes "ok X" and "run (destroy X i) w = (Inr u, w1)" and "run (get X i) w1 = (r, w2)"
  shows "\<exists>e. r = Inl e"
  using get_Inr [OF assms(1), of i w1 _ w2] destroy_Inr [OF assms(1,2)] assms(3) by (cases r) auto

end

section \<open>userRepo, clientRepo and refreshTokenRepo\<close>

text \<open>
  Lookup by a key: what is found is stored and has that key (up to the equality of the
  column), \<open>nil\<close> means nothing stored has it, and looking changes nothing stored.
\<close>

locale lookup_port =
  fixes ok :: "'x \<Rightarrow> bool"
    and get :: "'x \<Rightarrow> 'k \<Rightarrow> ('w, goerr + 'a option) state"
    and stored :: "'x \<Rightarrow> 'w \<Rightarrow> 'a set"
    and has_key :: "'x \<Rightarrow> 'k \<Rightarrow> 'a \<Rightarrow> bool"
  assumes get_Some: "ok X \<Longrightarrow> run (get X k) w = (Inr (Some a), w') \<Longrightarrow> a \<in> stored X w \<and> has_key X k a"
    and get_None: "ok X \<Longrightarrow> run (get X k) w = (Inr None, w') \<Longrightarrow> a \<in> stored X w \<Longrightarrow> \<not> has_key X k a"
    and get_stored: "ok X \<Longrightarrow> run (get X k) w = (r, w') \<Longrightarrow> stored X w' = stored X w"
begin

lemma found_again:
  assumes "ok X" "run (get X k) w = (Inr (Some a), w1)" "run (get X k) w1 = (r, w2)"
  shows "r \<noteq> Inr None"
  using get_Some [OF assms(1,2)] get_stored [OF assms(1,2)] get_None [OF assms(1), of k w1 w2 a]
    assms(3) by auto

end

text \<open>A repository that also inserts: an insert adds at most the given value, and only then.\<close>

locale insert_port = lookup_port ok get stored has_key
  for ok :: "'x \<Rightarrow> bool"
    and get :: "'x \<Rightarrow> 'k \<Rightarrow> ('w, goerr + 'a option) state"
    and stored :: "'x \<Rightarrow> 'w \<Rightarrow> 'a set"
    and has_key :: "'x \<Rightarrow> 'k \<Rightarrow> 'a \<Rightarrow> bool" +
  fixes create :: "'x \<Rightarrow> 'b \<Rightarrow> ('w, goerr + unit) state"
    and row_of :: "'x \<Rightarrow> 'w \<Rightarrow> 'b \<Rightarrow> 'a set"
  assumes create_Inr: "ok X \<Longrightarrow> run (create X b) w = (Inr (), w')
      \<Longrightarrow> stored X w' = stored X w \<union> row_of X w b"
    and create_bound: "ok X \<Longrightarrow> run (create X b) w = (rc, w')
      \<Longrightarrow> stored X w' = stored X w \<or> stored X w' = stored X w \<union> row_of X w b"
begin

lemma create_keeps: "ok X \<Longrightarrow> run (create X b) w = (r, w') \<Longrightarrow> stored X w \<subseteq> stored X w'"
  using create_bound by blast

end

section \<open>tokenIssuer\<close>

text \<open>
  Issuing reads the clock and the random source and leaves the rest of the state alone; the
  lifetimes are fixed.
\<close>

locale issuer_port =
  fixes issue_access :: "'x \<Rightarrow> gostring \<Rightarrow> gostring \<Rightarrow> gostring \<Rightarrow> gostring \<Rightarrow> ('w, goerr + access_token) state"
    and issue_refresh :: "'x \<Rightarrow> ('w, gostring \<times> gotime) state"
    and rest :: "'w \<Rightarrow> 'v"
    and clock :: "'v \<Rightarrow> gotime"
  assumes access_rest: "run (issue_access X u e c s) w = (r, w') \<Longrightarrow> rest w' = rest w"
    and access_lifetime: "run (issue_access X u e c s) w = (Inr a, w') \<Longrightarrow> at_AccessTokenExpiresIn a = 900"
    and refresh_rest: "run (issue_refresh X) w = (te, w') \<Longrightarrow> rest w' = rest w"
    and refresh_lifetime: "run (issue_refresh X) w = ((tok, expires), w')
      \<Longrightarrow> expires = clock (rest w) + 7 * 24 * 3600 * second"
begin

lemma issue_pair:
  assumes "run (issue_access X u e c s) w = (Inr a, w1)" "run (issue_refresh X) w1 = ((t, x), w2)"
  shows "rest w2 = rest w" and "clock (rest w) + 1000000000 * at_AccessTokenExpiresIn a < x"
  using access_rest [OF assms(1)] access_lifetime [OF assms(1)] refresh_rest [OF assms(2)]
    refresh_lifetime [OF assms(2)]
  by (simp_all add: second_def)

end

end
