(* ===== verification/RedisRepos.thy ===== *)
theory RedisRepos
  imports Cache Ports
begin

text \<open>
  \<open>internal/repository/session.go\<close> and \<open>internal/repository/auth_code.go\<close>: login sessions and
  authorization codes, kept as JSON under prefixed keys with a time to live.
\<close>

section \<open>SessionRepository\<close>

definition sessionTTL :: int where
  "sessionTTL = 30 * 24 * 3600 * second"

definition sessionKeyPrefix :: gostring where
  "sessionKeyPrefix = ''session:''"

definition Session_Create ::
  "('r, 'd) ext \<Rightarrow> gostring \<Rightarrow> gostring \<Rightarrow> ('r, 'd, gostring \<times> gotime) prog" where
  "Session_Create X userID email = do {
     sessionID \<leftarrow> draw (new_uuid X);
     created \<leftarrow> time_Now;
     case marshal_session (time_text X)
            \<lparr>se_UserID = userID, se_Email = email, se_CreatedAt = created\<rparr> of
       None \<Rightarrow> ret (Inl (wrap ''SessionRepository.Create marshal'' (ErrNew ''json'')))
     | Some payload \<Rightarrow> do {
         r \<leftarrow> Cache_Set X (sessionKeyPrefix @ sessionID) payload sessionTTL;
         case r of
           Inl e \<Rightarrow> ret (Inl (wrap ''SessionRepository.Create'' e))
         | Inr _ \<Rightarrow> do {
             t \<leftarrow> time_Now;
             ret (Inr (sessionID, t + sessionTTL))
           }
       }
   }"

definition Session_Get :: "('r, 'd) ext \<Rightarrow> gostring \<Rightarrow> ('r, 'd, session) prog" where
  "Session_Get X sessionID = do {
     r \<leftarrow> Cache_Get X (sessionKeyPrefix @ sessionID);
     ret (case r of
       Inl e \<Rightarrow> (if err_is e ErrRedisKeyNotFound then Inl ErrSessionNotFound
                 else Inl (wrap ''SessionRepository.Get'' e))
     | Inr raw \<Rightarrow> (case unmarshal_session (time_parse X) raw of
         None \<Rightarrow> Inl (wrap ''SessionRepository.Get unmarshal'' (ErrNew ''json''))
       | Some sess \<Rightarrow> Inr sess))
   }"

definition Session_Destroy :: "('r, 'd) ext \<Rightarrow> gostring \<Rightarrow> ('r, 'd, unit) prog" where
  "Session_Destroy X sessionID = do {
     r \<leftarrow> Cache_Delete X [sessionKeyPrefix @ sessionID];
     ret (case r of
       Inl e \<Rightarrow> Inl (wrap ''SessionRepository.Destroy'' e)
     | Inr _ \<Rightarrow> Inr ())
   }"

section \<open>AuthCodeRepository\<close>

definition authCodeTTL :: int where
  "authCodeTTL = 60 * second"

definition authCodeKeyPrefix :: gostring where
  "authCodeKeyPrefix = ''authcode:''"

definition AuthCode_Create :: "('r, 'd) ext \<Rightarrow> auth_code \<Rightarrow> ('r, 'd, gostring) prog" where
  "AuthCode_Create X data = do {
     raw \<leftarrow> draw (rand32 X);
     case raw of
       None \<Rightarrow> ret (Inl (wrap ''AuthCodeRepository.Create random'' (ErrNew ''rand'')))
     | Some bytes \<Rightarrow> do {
         let code = base64_raw_url bytes;
         created \<leftarrow> time_Now;
         case marshal_auth_code (time_text X) (data\<lparr>ac_CreatedAt := created\<rparr>) of
           None \<Rightarrow> ret (Inl (wrap ''AuthCodeRepository.Create marshal'' (ErrNew ''json'')))
         | Some payload \<Rightarrow> do {
             r \<leftarrow> Cache_Set X (authCodeKeyPrefix @ code) payload authCodeTTL;
             ret (case r of
               Inl e \<Rightarrow> Inl (wrap ''AuthCodeRepository.Create'' e)
             | Inr _ \<Rightarrow> Inr code)
           }
       }
   }"

definition AuthCode_Consume :: "('r, 'd) ext \<Rightarrow> gostring \<Rightarrow> ('r, 'd, auth_code) prog" where
  "AuthCode_Consume X code = do {
     r \<leftarrow> Cache_GetDel X (authCodeKeyPrefix @ code);
     ret (case r of
       Inl e \<Rightarrow> (if err_is e ErrRedisKeyNotFound then Inl ErrAuthCodeNotFound
                 else Inl (wrap ''AuthCodeRepository.Consume'' e))
     | Inr raw \<Rightarrow> (case unmarshal_auth_code (time_parse X) raw of
         None \<Rightarrow> Inl (wrap ''AuthCodeRepository.Consume unmarshal'' (ErrNew ''json''))
       | Some data \<Rightarrow> Inr data))
   }"

section \<open>The sessions and codes a store holds\<close>

definition session_at :: "('r, 'd) ext \<Rightarrow> ('r, 'd) world \<Rightarrow> gostring \<Rightarrow> session option" where
  "session_at X w i =
     Option.bind (cached X w (sessionKeyPrefix @ i)) (unmarshal_session (time_parse X))"

definition code_at :: "('r, 'd) ext \<Rightarrow> ('r, 'd) world \<Rightarrow> gostring \<Rightarrow> auth_code option" where
  "code_at X w c =
     Option.bind (cached X w (authCodeKeyPrefix @ c)) (unmarshal_auth_code (time_parse X))"

lemma key_prefixes_disjoint [simp]:
  "sessionKeyPrefix @ i \<noteq> authCodeKeyPrefix @ c" "authCodeKeyPrefix @ c \<noteq> sessionKeyPrefix @ i"
  by (simp_all add: sessionKeyPrefix_def authCodeKeyPrefix_def)

lemma whole_seconds_TTL [simp]: "whole_seconds sessionTTL" "whole_seconds authCodeTTL"
  by (simp_all add: whole_seconds_def sessionTTL_def authCodeTTL_def second_def)

lemma TTL_pos [simp]: "sessionTTL \<noteq> 0" "authCodeTTL \<noteq> 0" "0 < sessionTTL" "0 < authCodeTTL"
  by (simp_all add: sessionTTL_def authCodeTTL_def second_def)

lemma session_ops_frame [frame]:
  "keeps_field now (Session_Create X u e)" "keeps_field sdb (Session_Create X u e)"
  "keeps_field now (Session_Get X i)" "keeps_field sdb (Session_Get X i)"
  "keeps_field draws (Session_Get X i)"
  "keeps_field now (Session_Destroy X i)" "keeps_field sdb (Session_Destroy X i)"
  "keeps_field draws (Session_Destroy X i)"
  unfolding Session_Create_def Session_Get_def Session_Destroy_def
  by (intro keeps_field_intros frame)+

lemma code_ops_frame [frame]:
  "keeps_field now (AuthCode_Create X a)" "keeps_field sdb (AuthCode_Create X a)"
  "keeps_field now (AuthCode_Consume X c)" "keeps_field sdb (AuthCode_Consume X c)"
  "keeps_field draws (AuthCode_Consume X c)"
  unfolding AuthCode_Create_def AuthCode_Consume_def Let_def
  by (intro keeps_field_intros frame)+

subsection \<open>Consume\<close>

lemma AuthCode_Consume_cases:
  assumes "redis_spec up X" and "run (AuthCode_Consume X c) w = (r, w')"
  shows "r = Inr a \<Longrightarrow> code_at X w c = Some a \<and> store X w' = (store X w)(authCodeKeyPrefix @ c := None)"
    and "store X w' = (store X w)(authCodeKeyPrefix @ c := None) \<or> store X w' = store X w"
    and "up \<Longrightarrow> store X w' = (store X w)(authCodeKeyPrefix @ c := None)"
    and "up \<Longrightarrow> code_at X w c = Some a \<Longrightarrow> r = Inr a"
    and "up \<Longrightarrow> cached X w (authCodeKeyPrefix @ c) = None \<Longrightarrow> r = Inl ErrAuthCodeNotFound"
proof -
  obtain res where c: "run (Cache_GetDel X (authCodeKeyPrefix @ c)) w = (res, w')"
    and r: "r = (case res of
       Inl e \<Rightarrow> (if err_is e ErrRedisKeyNotFound then Inl ErrAuthCodeNotFound
                 else Inl (wrap ''AuthCodeRepository.Consume'' e))
     | Inr raw \<Rightarrow> (case unmarshal_auth_code (time_parse X) raw of
         None \<Rightarrow> Inl (wrap ''AuthCodeRepository.Consume unmarshal'' (ErrNew ''json''))
       | Some data \<Rightarrow> Inr data))"
    using assms(2) by (auto simp: AuthCode_Consume_def split: prod.splits)
  note S = Cache_GetDel_store [OF assms(1) c]
  show "r = Inr a \<Longrightarrow> code_at X w c = Some a \<and> store X w' = (store X w)(authCodeKeyPrefix @ c := None)"
    using S(2) by (auto simp: r code_at_def split: sum.splits option.splits if_splits)
  show "store X w' = (store X w)(authCodeKeyPrefix @ c := None) \<or> store X w' = store X w"
    using S(1) by auto
  show "up \<Longrightarrow> store X w' = (store X w)(authCodeKeyPrefix @ c := None)"
    using S(1,3) by (auto split: option.splits)
  show "up \<Longrightarrow> code_at X w c = Some a \<Longrightarrow> r = Inr a"
    using S(3) by (auto simp: code_at_def r bind_eq_Some_conv)
  show "up \<Longrightarrow> cached X w (authCodeKeyPrefix @ c) = None \<Longrightarrow> r = Inl ErrAuthCodeNotFound"
    using S(3) by (auto simp: r)
qed

subsection \<open>Create\<close>

lemma sessionTTL_bounds [simp]: "0 \<le> sessionTTL" by (simp add: sessionTTL_def second_def)
lemma authCodeTTL_bounds [simp]: "0 \<le> authCodeTTL" by (simp add: authCodeTTL_def second_def)

lemma AuthCode_Create_cases:
  assumes "redis_spec up X" and "run (AuthCode_Create X a) w = (r, w')"
  shows "r = Inr c \<Longrightarrow> \<exists>bytes payload. rand32 X (draws w) = Some bytes \<and> c = base64_raw_url bytes
      \<and> marshal_auth_code (time_text X) (a\<lparr>ac_CreatedAt := now w\<rparr>) = Some payload
      \<and> store X w' = (store X w)(authCodeKeyPrefix @ c \<mapsto> (payload, Some (now w + authCodeTTL)))"
    and "store X w' = store X w \<or> (\<exists>bytes payload. rand32 X (draws w) = Some bytes
      \<and> marshal_auth_code (time_text X) (a\<lparr>ac_CreatedAt := now w\<rparr>) = Some payload
      \<and> store X w' = (store X w)(authCodeKeyPrefix @ base64_raw_url bytes
          \<mapsto> (payload, Some (now w + authCodeTTL))))"
    and "up \<Longrightarrow> rand32 X (draws w) = Some bytes \<Longrightarrow> time_text X (now w) \<noteq> None
      \<Longrightarrow> r = Inr (base64_raw_url bytes)"
proof -
  let ?p = "marshal_auth_code (time_text X) (a\<lparr>ac_CreatedAt := now w\<rparr>)"
  let ?w1 = "w\<lparr>draws := Suc (draws w)\<rparr>"
  have set: "store X w2 = (store X w)(authCodeKeyPrefix @ base64_raw_url b \<mapsto> (p, Some (now w + authCodeTTL)))
      \<and> (up \<longrightarrow> r' = Inr ()) \<or> \<not> up \<and> r' \<noteq> Inr () \<and> store X w2 = store X w"
    if "run (Cache_Set X (authCodeKeyPrefix @ base64_raw_url b) p authCodeTTL) ?w1 = (r', w2)"
    for b p r' w2
    using Cache_Set_store [OF assms(1) _ that] by (simp add: expiry_def store_def)
  consider (failed) e where "r = Inl e" "store X w' = store X w" "\<not> up \<or> rand32 X (draws w) = None \<or> ?p = None"
    | (set) b p r' where "rand32 X (draws w) = Some b" "?p = Some p"
        "run (Cache_Set X (authCodeKeyPrefix @ base64_raw_url b) p authCodeTTL) ?w1 = (r', w')"
        "r = (case r' of Inl e \<Rightarrow> Inl (wrap ''AuthCodeRepository.Create'' e)
          | Inr _ \<Rightarrow> Inr (base64_raw_url b))"
    using assms(2)
    by (cases "rand32 X (draws w)"; cases ?p)
      (auto simp: AuthCode_Create_def Let_def store_def split: prod.splits)
  then have "(\<exists>e. r = Inl e \<and> store X w' = store X w \<and> (\<not> up \<or> rand32 X (draws w) = None \<or> ?p = None))
    \<or> (\<exists>b p. rand32 X (draws w) = Some b \<and> ?p = Some p \<and> (r = Inr (base64_raw_url b) \<or> \<not> up \<and> (\<exists>e. r = Inl e))
      \<and> store X w' = (store X w)(authCodeKeyPrefix @ base64_raw_url b \<mapsto> (p, Some (now w + authCodeTTL))))"
  proof cases
    case set': set
    from set [OF set'(3)] set'(1,2,4) show ?thesis by (cases r') auto
  qed blast
  note * = this
  have m: "?p \<noteq> None" if "time_text X (now w) \<noteq> None"
    using that by (auto simp: marshal_auth_code_def)
  show "r = Inr c \<Longrightarrow> \<exists>bytes payload. rand32 X (draws w) = Some bytes \<and> c = base64_raw_url bytes
      \<and> ?p = Some payload
      \<and> store X w' = (store X w)(authCodeKeyPrefix @ c \<mapsto> (payload, Some (now w + authCodeTTL)))"
    using * by auto
  show "store X w' = store X w \<or> (\<exists>bytes payload. rand32 X (draws w) = Some bytes
      \<and> ?p = Some payload
      \<and> store X w' = (store X w)(authCodeKeyPrefix @ base64_raw_url bytes
          \<mapsto> (payload, Some (now w + authCodeTTL))))"
    using * by blast
  show "up \<Longrightarrow> rand32 X (draws w) = Some bytes \<Longrightarrow> time_text X (now w) \<noteq> None
      \<Longrightarrow> r = Inr (base64_raw_url bytes)"
    using * m by auto
qed

text \<open>What a fresh code stands for: the given data, stamped, as JSON carries it.\<close>

lemma live_upd: "live (st(k \<mapsto> (v, e))) t k' =
    (if k' = k then (case e of None \<Rightarrow> Some v | Some x \<Rightarrow> if t < x then Some v else None)
     else live st t k')"
  by (simp add: live_def split: option.splits)

lemma live_del: "live (st(k := None)) t k' = (if k' = k then None else live st t k')"
  by (simp add: live_def)

lemma AuthCode_Create_code_at:
  assumes "redis_ok X" "library_ok X" "run (AuthCode_Create X a) w = (Inr c, w')"
  shows "code_at X w' c = Some (valid_code (a\<lparr>ac_CreatedAt := now w\<rparr>))"
    and "\<And>t. code_at X (w'\<lparr>now := t\<rparr>) c
      = (if t < now w + authCodeTTL then Some (valid_code (a\<lparr>ac_CreatedAt := now w\<rparr>)) else None)"
    and "c' \<noteq> c \<Longrightarrow> code_at X w' c' = code_at X w c'"
    and "session_at X w' = session_at X w"
proof -
  have n: "now w' = now w"
    using keeps_field_runD [OF code_ops_frame(1) assms(3)] .
  obtain p where p: "marshal_auth_code (time_text X) (a\<lparr>ac_CreatedAt := now w\<rparr>) = Some p"
    and st: "store X w' = (store X w)(authCodeKeyPrefix @ c \<mapsto> (p, Some (now w + authCodeTTL)))"
    using AuthCode_Create_cases(1) [OF assms(1,3)] by blast
  have dec: "unmarshal_auth_code (time_parse X) p = Some (valid_code (a\<lparr>ac_CreatedAt := now w\<rparr>))"
    using auth_code_roundtrip [OF _ p] assms(2) by (simp add: library_ok_def)
  show "code_at X w' c = Some (valid_code (a\<lparr>ac_CreatedAt := now w\<rparr>))"
    by (simp add: code_at_def cached_def st live_upd n dec)
  show "code_at X (w'\<lparr>now := t\<rparr>) c
      = (if t < now w + authCodeTTL then Some (valid_code (a\<lparr>ac_CreatedAt := now w\<rparr>)) else None)" for t
    using st by (simp add: code_at_def cached_def live_upd dec store_def)
  show "c' \<noteq> c \<Longrightarrow> code_at X w' c' = code_at X w c'"
    by (simp add: code_at_def cached_def st live_upd n)
  show "session_at X w' = session_at X w"
    by (rule ext) (simp add: session_at_def cached_def st live_upd n)
qed

subsection \<open>Sessions\<close>

lemma Session_Get_cases:
  assumes "redis_spec up X" and "run (Session_Get X i) w = (r, w')"
  shows "r = Inr s \<Longrightarrow> session_at X w i = Some s"
    and "r = Inl e \<Longrightarrow> err_is e ErrSessionNotFound \<Longrightarrow> session_at X w i = None"
    and "store X w' = store X w"
    and "up \<Longrightarrow> session_at X w i = Some s \<Longrightarrow> r = Inr s"
    and "up \<Longrightarrow> cached X w (sessionKeyPrefix @ i) = None \<Longrightarrow> r = Inl ErrSessionNotFound"
proof -
  obtain res where c: "run (Cache_Get X (sessionKeyPrefix @ i)) w = (res, w')"
    and r: "r = (case res of
       Inl e \<Rightarrow> (if err_is e ErrRedisKeyNotFound then Inl ErrSessionNotFound
                 else Inl (wrap ''SessionRepository.Get'' e))
     | Inr raw \<Rightarrow> (case unmarshal_session (time_parse X) raw of
         None \<Rightarrow> Inl (wrap ''SessionRepository.Get unmarshal'' (ErrNew ''json''))
       | Some sess \<Rightarrow> Inr sess))"
    using assms(2) by (auto simp: Session_Get_def split: prod.splits)
  note S = Cache_Get_store [OF assms(1) c]
  show "r = Inr s \<Longrightarrow> session_at X w i = Some s"
    using S(2) by (auto simp: r session_at_def split: sum.splits option.splits if_splits)
  have E: "\<not> err_is e' ErrSessionNotFound" if "res = Inl e'" for e'
    using Cache_Get_error [OF assms(1) c [unfolded that]] by auto
  show "r = Inl e \<Longrightarrow> err_is e ErrSessionNotFound \<Longrightarrow> session_at X w i = None"
    using S(3) E by (auto simp: r session_at_def split: sum.splits option.splits if_splits)
  show "store X w' = store X w" by (rule S(1))
  show "up \<Longrightarrow> session_at X w i = Some s \<Longrightarrow> r = Inr s"
    using S(4) by (auto simp: session_at_def r bind_eq_Some_conv)
  show "up \<Longrightarrow> cached X w (sessionKeyPrefix @ i) = None \<Longrightarrow> r = Inl ErrSessionNotFound"
    using S(4) by (auto simp: r)
qed

lemma Session_Create_cases:
  assumes "redis_spec up X" and "run (Session_Create X u e) w = (r, w')"
  shows "r = Inr (i, t) \<Longrightarrow> i = new_uuid X (draws w) \<and> t = now w + sessionTTL
      \<and> (\<exists>payload. marshal_session (time_text X)
            \<lparr>se_UserID = u, se_Email = e, se_CreatedAt = now w\<rparr> = Some payload
          \<and> store X w' = (store X w)(sessionKeyPrefix @ i \<mapsto> (payload, Some (now w + sessionTTL))))"
    and "store X w' = store X w \<or> (\<exists>payload. marshal_session (time_text X)
            \<lparr>se_UserID = u, se_Email = e, se_CreatedAt = now w\<rparr> = Some payload
          \<and> store X w' = (store X w)(sessionKeyPrefix @ new_uuid X (draws w)
              \<mapsto> (payload, Some (now w + sessionTTL))))"
    and "up \<Longrightarrow> time_text X (now w) \<noteq> None
      \<Longrightarrow> r = Inr (new_uuid X (draws w), now w + sessionTTL)"
proof -
  let ?w1 = "w\<lparr>draws := Suc (draws w)\<rparr>"
  let ?k = "sessionKeyPrefix @ new_uuid X (draws w)"
  let ?p = "marshal_session (time_text X) \<lparr>se_UserID = u, se_Email = e, se_CreatedAt = now w\<rparr>"
  have set: "now w2 = now w \<and> (store X w2 = (store X w)(?k \<mapsto> (p, Some (now w + sessionTTL)))
      \<and> (up \<longrightarrow> r' = Inr ()) \<or> \<not> up \<and> r' \<noteq> Inr () \<and> store X w2 = store X w)"
    if "run (Cache_Set X ?k p sessionTTL) ?w1 = (r', w2)" for p r' w2
    using Cache_Set_store [OF assms(1) _ that] keeps_field_runD [OF cache_frame(1) that]
    by (simp add: expiry_def store_def)
  have some: "(r = Inr (new_uuid X (draws w), now w + sessionTTL) \<or> \<not> up \<and> (\<exists>e. r = Inl e))
      \<and> store X w' = (store X w)(?k \<mapsto> (p, Some (now w + sessionTTL)))
    \<or> \<not> up \<and> (\<exists>e. r = Inl e) \<and> store X w' = store X w" if p: "?p = Some p" for p
  proof -
    obtain r' where c: "run (Cache_Set X ?k p sessionTTL) ?w1 = (r', w')"
      and r: "r = (case r' of Inl e \<Rightarrow> Inl (wrap ''SessionRepository.Create'' e)
            | Inr _ \<Rightarrow> Inr (new_uuid X (draws w), now w' + sessionTTL))"
      using assms(2) p by (auto simp: Session_Create_def split: prod.splits sum.splits)
    have n: "now w' = now w"
      using set [OF c] by (rule conjunct1)
    show ?thesis
      using conjunct2 [OF set [OF c]] unfolding r n by (cases r') auto
  qed
  have none: "(\<exists>e. r = Inl e) \<and> store X w' = store X w" if "?p = None"
    using assms(2) that by (auto simp: Session_Create_def store_def)
  have m: "?p \<noteq> None" if "time_text X (now w) \<noteq> None"
    using that by (auto simp: marshal_session_def)
  show "r = Inr (i, t) \<Longrightarrow> i = new_uuid X (draws w) \<and> t = now w + sessionTTL
      \<and> (\<exists>payload. ?p = Some payload
          \<and> store X w' = (store X w)(sessionKeyPrefix @ i \<mapsto> (payload, Some (now w + sessionTTL))))"
    using none some by (cases ?p) auto
  show "store X w' = store X w \<or> (\<exists>payload. ?p = Some payload
          \<and> store X w' = (store X w)(?k \<mapsto> (payload, Some (now w + sessionTTL))))"
    using none some by (cases ?p) auto
  show "up \<Longrightarrow> time_text X (now w) \<noteq> None
      \<Longrightarrow> r = Inr (new_uuid X (draws w), now w + sessionTTL)"
    using some m by (cases ?p) auto
qed

lemma Session_Create_session_at:
  assumes "redis_ok X" "library_ok X" "run (Session_Create X u e) w = (Inr (i, t), w')"
  shows "t = now w + sessionTTL"
    and "\<And>t'. session_at X (w'\<lparr>now := t'\<rparr>) i = (if t' < t
      then Some (valid_session \<lparr>se_UserID = u, se_Email = e, se_CreatedAt = now w\<rparr>) else None)"
    and "j \<noteq> i \<Longrightarrow> session_at X w' j = session_at X w j"
    and "code_at X w' = code_at X w"
proof -
  let ?s = "\<lparr>se_UserID = u, se_Email = e, se_CreatedAt = now w\<rparr>"
  have n: "now w' = now w"
    using keeps_field_runD [OF session_ops_frame(1) assms(3)] .
  obtain p where t: "t = now w + sessionTTL" and p: "marshal_session (time_text X) ?s = Some p"
    and st: "store X w' = (store X w)(sessionKeyPrefix @ i \<mapsto> (p, Some t))"
    using Session_Create_cases(1) [OF assms(1,3)] by auto
  have dec: "unmarshal_session (time_parse X) p = Some (valid_session ?s)"
    using session_roundtrip [OF _ p] assms(2) by (simp add: library_ok_def)
  show "t = now w + sessionTTL" by (rule t)
  show "session_at X (w'\<lparr>now := t'\<rparr>) i = (if t' < t then Some (valid_session ?s) else None)" for t'
    using st by (simp add: session_at_def cached_def live_upd dec store_def)
  show "j \<noteq> i \<Longrightarrow> session_at X w' j = session_at X w j"
    by (simp add: session_at_def cached_def st live_upd n)
  show "code_at X w' = code_at X w"
    by (rule ext) (simp add: code_at_def cached_def st live_upd n)
qed

lemma Session_Destroy_cases:
  assumes "redis_spec up X" and "run (Session_Destroy X i) w = (r, w')"
  shows "store X w' = (store X w)(sessionKeyPrefix @ i := None) \<and> (up \<longrightarrow> r = Inr ())
    \<or> \<not> up \<and> store X w' = store X w \<and> r \<noteq> Inr ()"
proof -
  obtain res where c: "run (Cache_Delete X [sessionKeyPrefix @ i]) w = (res, w')"
    and r: "r = (case res of
       Inl e \<Rightarrow> Inl (wrap ''SessionRepository.Destroy'' e) | Inr _ \<Rightarrow> Inr ())"
    using assms(2) by (auto simp: Session_Destroy_def split: prod.splits)
  have "(\<lambda>k. if k \<in> set [sessionKeyPrefix @ i] then None else store X w k)
      = (store X w)(sessionKeyPrefix @ i := None)" by auto
  then show ?thesis
    using Cache_Delete_store [OF assms(1) c] by (auto simp: r split: sum.splits)
qed

section \<open>The repositories provide the ports\<close>

interpretation codes: auth_code_port redis_ok AuthCode_Create AuthCode_Consume code_at
proof
  fix X :: "('a, 'b) ext" and c c' w w' a r
  assume X: "redis_ok X"
  show "code_at X w c = Some a \<and> code_at X w' c = None"
    if "run (AuthCode_Consume X c) w = (Inr a, w')"
    using AuthCode_Consume_cases(1) [OF X that refl]
    by (simp add: code_at_def cached_def live_del)
  show "code_at X w' c = None \<or> code_at X w' c = code_at X w c"
    and "c' \<noteq> c \<Longrightarrow> code_at X w' c' = code_at X w c'"
    if "run (AuthCode_Consume X c) w = (r, w')"
    using AuthCode_Consume_cases(2) [OF X that] keeps_field_runD [OF code_ops_frame(3) that]
    by (auto simp: code_at_def cached_def live_del)
  show "code_at X w' c' = code_at X w c'"
    if "run (AuthCode_Create X a) w = (Inr c, w')" and "c' \<noteq> c"
    using AuthCode_Create_cases(1) [OF X that(1) refl] keeps_field_runD [OF code_ops_frame(1) that(1)] that(2)
    by (auto simp: code_at_def cached_def live_upd)
qed

interpretation sessions: session_port redis_ok Session_Create Session_Get Session_Destroy session_at
proof
  fix X :: "('a, 'b) ext" and i j w w' s u r and rd :: "goerr + unit"
  assume X: "redis_ok X"
  show "session_at X w i = Some s" if "run (Session_Get X i) w = (Inr s, w')"
    using Session_Get_cases(1) [OF X that] by simp
  show "session_at X w i = None" if "run (Session_Get X i) w = (Inl ErrSessionNotFound, w')"
    using Session_Get_cases(2) [OF X that] by simp
  show "session_at X w' = session_at X w" if "run (Session_Get X i) w = (r, w')"
    using Session_Get_cases(3) [OF X that] keeps_field_runD [OF session_ops_frame(3) that]
    by (intro ext) (simp add: session_at_def cached_def)
  show "session_at X w' i = None" if "run (Session_Destroy X i) w = (Inr u, w')"
    using Session_Destroy_cases [OF X that] by (auto simp: session_at_def cached_def live_del)
  show "session_at X w' j = session_at X w j"
    if "run (Session_Destroy X i) w = (rd, w')" and "j \<noteq> i"
    using Session_Destroy_cases [OF X that(1)] keeps_field_runD [OF session_ops_frame(6) that(1)] that(2)
    by (auto simp: session_at_def cached_def live_del)
qed

end
