(* ===== verification/SqlRepos.thy ===== *)
theory SqlRepos
  imports Cache Ports
begin

text \<open>
  \<open>internal/repository/user.go\<close>, \<open>client.go\<close> and \<open>refresh_token.go\<close>: the three tables, read
  through \<open>sqlx\<close> into the structures of \<open>internal/models\<close>.
\<close>

section \<open>UserRepository\<close>

definition User_Create :: "('r, 'd) ext \<Rightarrow> user \<Rightarrow> ('r, 'd, unit) prog" where
  "User_Create X u = do {
     r \<leftarrow> sql_call (sql_exec X (InsertUser (us_ID u) (us_Email u) (us_PasswordHash u)));
     ret (case r of Inl e \<Rightarrow> Inl (wrap ''UserRepository.Create'' e) | Inr _ \<Rightarrow> Inr ())
   }"

definition User_GetByID :: "('r, 'd) ext \<Rightarrow> gostring \<Rightarrow> ('r, 'd, user option) prog" where
  "User_GetByID X i = do {
     r \<leftarrow> sql_call (sql_get_user X (UserById i));
     ret (case r of
       Inl e \<Rightarrow> Inl (wrap ''UserRepository.GetByID'' e)
     | Inr u \<Rightarrow> Inr (Some u))
   }"

definition User_GetByEmail :: "('r, 'd) ext \<Rightarrow> gostring \<Rightarrow> ('r, 'd, user option) prog" where
  "User_GetByEmail X email = do {
     r \<leftarrow> sql_call (sql_get_user X (UserByEmail email));
     ret (case r of
       Inl e \<Rightarrow> (if err_is e SqlNoRows then Inr None
                 else Inl (wrap ''UserRepository.GetByEmail'' e))
     | Inr u \<Rightarrow> Inr (Some u))
   }"

definition User_Delete :: "('r, 'd) ext \<Rightarrow> gostring \<Rightarrow> ('r, 'd, unit) prog" where
  "User_Delete X i = do {
     r \<leftarrow> sql_call (sql_exec X (DeleteUser i));
     ret (case r of Inl e \<Rightarrow> Inl (wrap ''UserRepository.Delete'' e) | Inr _ \<Rightarrow> Inr ())
   }"

section \<open>ClientRepository\<close>

text \<open>
  \<open>database/sql\<close> scans the columns in order; the first that fails is reported with its
  position and name.
\<close>

definition scan_error :: "gostring \<Rightarrow> goerr \<Rightarrow> goerr" where
  "scan_error col e = Errorf (''sql: Scan error on column '' @ col @ '': '') e []"

definition scan_client :: "client_row \<Rightarrow> goerr + client" where
  "scan_client row = (case StringSlice_Scan (DbBytes (cr_redirect_uris row)) of
     Inl e \<Rightarrow> Inl (scan_error ''index 3, name \"redirect_uris\"'' e)
   | Inr us \<Rightarrow> (case StringSlice_Scan (DbBytes (cr_scopes row)) of
       Inl e \<Rightarrow> Inl (scan_error ''index 4, name \"scopes\"'' e)
     | Inr ss \<Rightarrow> (case StringSlice_Scan (DbBytes (cr_grant_types row)) of
         Inl e \<Rightarrow> Inl (scan_error ''index 5, name \"grant_types\"'' e)
       | Inr gs \<Rightarrow> Inr \<lparr>cl_ID = cr_id row, cl_Name = cr_name row,
           cl_ClientSecretHash = cr_secret_hash row, cl_RedirectURIs = us, cl_Scopes = ss,
           cl_GrantTypes = gs, cl_IsFirstParty = cr_is_first_party row,
           cl_CreatedAt = cr_created_at row\<rparr>)))"

definition Client_Create :: "('r, 'd) ext \<Rightarrow> client \<Rightarrow> ('r, 'd, unit) prog" where
  "Client_Create X c = do {
     r \<leftarrow> sql_call (sql_exec X (InsertClient (cl_ID c) (cl_Name c) (cl_ClientSecretHash c)
            (StringSlice_Value (cl_RedirectURIs c)) (StringSlice_Value (cl_Scopes c))
            (StringSlice_Value (cl_GrantTypes c)) (cl_IsFirstParty c)));
     ret (case r of Inl e \<Rightarrow> Inl (wrap ''ClientRepository.Create'' e) | Inr _ \<Rightarrow> Inr ())
   }"

definition Client_GetByID :: "('r, 'd) ext \<Rightarrow> gostring \<Rightarrow> ('r, 'd, client option) prog" where
  "Client_GetByID X i = do {
     r \<leftarrow> sql_call (sql_get_client X i);
     ret (case (case r of Inl e \<Rightarrow> Inl e | Inr row \<Rightarrow> scan_client row) of
       Inl e \<Rightarrow> (if err_is e SqlNoRows then Inr None
                 else Inl (wrap ''ClientRepository.GetByID'' e))
     | Inr c \<Rightarrow> Inr (Some c))
   }"

section \<open>RefreshTokenRepository\<close>

definition scan_token :: "token_row \<Rightarrow> goerr + refresh_token" where
  "scan_token row = (case StringSlice_Scan (DbBytes (tw_scope row)) of
     Inl e \<Rightarrow> Inl (scan_error ''index 3, name \"scope\"'' e)
   | Inr ss \<Rightarrow> Inr \<lparr>rt_ID = tw_id row, rt_UserID = tw_user_id row, rt_ClientID = tw_client_id row,
       rt_Scope = ss, rt_TokenHash = tw_token_hash row, rt_ExpiresAt = tw_expires_at row,
       rt_RevokedAt = tw_revoked_at row, rt_CreatedAt = tw_created_at row\<rparr>)"

fun scan_tokens :: "token_row list \<Rightarrow> goerr + refresh_token list" where
  "scan_tokens [] = Inr []"
| "scan_tokens (row # rows) = (case scan_token row of
     Inl e \<Rightarrow> Inl e
   | Inr t \<Rightarrow> (case scan_tokens rows of Inl e \<Rightarrow> Inl e | Inr ts \<Rightarrow> Inr (t # ts)))"

definition Token_Create :: "('r, 'd) ext \<Rightarrow> refresh_token \<Rightarrow> ('r, 'd, unit) prog" where
  "Token_Create X t = do {
     r \<leftarrow> sql_call (sql_exec X (InsertToken (rt_ID t) (rt_UserID t) (rt_ClientID t)
            (StringSlice_Value (rt_Scope t)) (rt_TokenHash t) (rt_ExpiresAt t)));
     ret (case r of Inl e \<Rightarrow> Inl (wrap ''RefreshTokenRepository.Create'' e) | Inr _ \<Rightarrow> Inr ())
   }"

definition get_token :: "('r, 'd) ext \<Rightarrow> gostring \<Rightarrow> token_query
    \<Rightarrow> ('r, 'd, refresh_token option) prog" where
  "get_token X name q = do {
     r \<leftarrow> sql_call (sql_get_token X q);
     ret (case (case r of Inl e \<Rightarrow> Inl e | Inr row \<Rightarrow> scan_token row) of
       Inl e \<Rightarrow> (if err_is e SqlNoRows then Inr None else Inl (wrap name e))
     | Inr t \<Rightarrow> Inr (Some t))
   }"

definition Token_GetByID :: "('r, 'd) ext \<Rightarrow> gostring \<Rightarrow> ('r, 'd, refresh_token option) prog" where
  "Token_GetByID X i = get_token X ''RefreshTokenRepository.GetByID'' (TokenById i)"

definition Token_GetTokenByHash ::
  "('r, 'd) ext \<Rightarrow> gostring \<Rightarrow> ('r, 'd, refresh_token option) prog" where
  "Token_GetTokenByHash X h =
     get_token X ''RefreshTokenRepository.GetTokenByHash'' (TokenByHash h)"

definition Token_GetActiveByUserID ::
  "('r, 'd) ext \<Rightarrow> gostring \<Rightarrow> ('r, 'd, refresh_token list) prog" where
  "Token_GetActiveByUserID X u = do {
     r \<leftarrow> sql_call (sql_active_tokens X u);
     ret (case (case r of Inl e \<Rightarrow> Inl e | Inr rows \<Rightarrow> scan_tokens rows) of
       Inl e \<Rightarrow> Inl (wrap ''RefreshTokenRepository.GetActiveByUserID'' e)
     | Inr ts \<Rightarrow> Inr ts)
   }"

definition Token_Revoke :: "('r, 'd) ext \<Rightarrow> gostring \<Rightarrow> ('r, 'd, unit) prog" where
  "Token_Revoke X i = do {
     r \<leftarrow> sql_call (sql_exec X (RevokeToken i));
     ret (case r of Inl e \<Rightarrow> Inl (wrap ''RefreshTokenRepository.Revoke'' e) | Inr _ \<Rightarrow> Inr ())
   }"

definition Token_RevokeAllForUser :: "('r, 'd) ext \<Rightarrow> gostring \<Rightarrow> ('r, 'd, unit) prog" where
  "Token_RevokeAllForUser X u = do {
     r \<leftarrow> sql_call (sql_exec X (RevokeUserTokens u));
     ret (case r of
       Inl e \<Rightarrow> Inl (wrap ''RefreshTokenRepository.RevokeAllForUser'' e) | Inr _ \<Rightarrow> Inr ())
   }"

definition Token_DeleteExpired :: "('r, 'd) ext \<Rightarrow> ('r, 'd, unit) prog" where
  "Token_DeleteExpired X = do {
     r \<leftarrow> sql_call (sql_exec X DeleteExpiredTokens);
     ret (case r of
       Inl e \<Rightarrow> Inl (wrap ''RefreshTokenRepository.DeleteExpired'' e) | Inr _ \<Rightarrow> Inr ())
   }"

section \<open>Their effect on the tables\<close>

definition tables_of :: "('r, 'd) ext \<Rightarrow> ('r, 'd) world \<Rightarrow> tables" where
  "tables_of X w = sql_view X (sdb w)"

lemmas user_ops_defs = User_Create_def User_GetByID_def User_GetByEmail_def User_Delete_def
lemmas client_ops_defs = Client_Create_def Client_GetByID_def
lemmas token_ops_defs = Token_Create_def Token_GetByID_def Token_GetTokenByHash_def get_token_def
  Token_GetActiveByUserID_def Token_Revoke_def Token_RevokeAllForUser_def Token_DeleteExpired_def

text \<open>Nothing but the database changes.\<close>

definition sql_only :: "(('r, 'd) world, 'a) state \<Rightarrow> bool" where
  "sql_only m \<longleftrightarrow> keeps_field (\<lambda>w. (now w, draws w, rds w)) m"

lemma sql_only_call: "sql_only (sql_call op)"
  by (simp add: sql_only_def keeps_field_def sql_call_def split: prod.splits)

lemma sql_only_bind: "sql_only m \<Longrightarrow> (\<And>x. sql_only (f x)) \<Longrightarrow> sql_only (State_Monad.bind m f)"
  unfolding sql_only_def by (rule keeps_field_bind)

lemma sql_only_ret: "sql_only (ret x)"
  by (simp add: sql_only_def)

lemma sql_only_frame:
  "sql_only m \<Longrightarrow> keeps_field now m" "sql_only m \<Longrightarrow> keeps_field draws m"
  "sql_only m \<Longrightarrow> keeps_field rds m"
  by (auto simp: sql_only_def keeps_field_def)

lemma sql_only_ops:
  "sql_only (User_Create X u)" "sql_only (User_GetByID X i)"
  "sql_only (User_GetByEmail X e)" "sql_only (User_Delete X i)"
  "sql_only (Client_Create X c)" "sql_only (Client_GetByID X i)"
  "sql_only (Token_Create X t)" "sql_only (Token_GetByID X i)"
  "sql_only (Token_GetTokenByHash X h)" "sql_only (Token_GetActiveByUserID X i)"
  "sql_only (Token_Revoke X i)" "sql_only (Token_RevokeAllForUser X i)"
  "sql_only (Token_DeleteExpired X)"
  unfolding user_ops_defs client_ops_defs token_ops_defs
  by (intro sql_only_bind sql_only_call sql_only_ret)+

lemmas sql_ops_frame [frame] = sql_only_ops [THEN sql_only_frame(1)]
  sql_only_ops [THEN sql_only_frame(2)] sql_only_ops [THEN sql_only_frame(3)]

lemma run_sql_tables:
  assumes "complies up (sql_view X) (op (now w)) sem" and "run (sql_call op) w = (res, w')"
  shows "(res, tables_of X w') = sem (tables_of X w)
    \<or> (\<not> up \<and> infra res
        \<and> (tables_of X w' = tables_of X w \<or> tables_of X w' = snd (sem (tables_of X w))))"
proof -
  obtain d where op: "op (now w) (sdb w) = (res, d)" and w': "w' = w\<lparr>sdb := d\<rparr>"
    using assms(2) by (auto simp: run_simps split: prod.splits)
  show ?thesis
    using compliesD [OF assms(1) op] by (simp add: tables_of_def w')
qed

lemma mysql_specD:
  assumes "mysql_spec up X"
  shows "complies up (sql_view X) (sql_exec X s t) (sem_exec X s t)"
    and "complies up (sql_view X) (sql_get_user X q t) (sem_get_user X q)"
    and "complies up (sql_view X) (sql_get_client X i t) (sem_get_client X i)"
    and "complies up (sql_view X) (sql_get_token X tq t) (sem_get_token X tq)"
    and "complies up (sql_view X) (sql_active_tokens X u t) (sem_active_tokens X u t)"
  using assms by (simp_all add: mysql_spec_def)

text \<open>
  A statement that only reports success or failure: on success its documented effect is
  there, on a failure it is there or not.
\<close>

lemma exec_tables:
  assumes "mysql_spec up X"
    and "run (do { r \<leftarrow> sql_call (sql_exec X s);
                   ret (case r of Inl e \<Rightarrow> Inl (wrap m e) | Inr _ \<Rightarrow> Inr ()) }) w = (r, w')"
  shows "r = Inr () \<Longrightarrow> sem_exec X s (now w) (tables_of X w) = (Inr (), tables_of X w')"
    and "tables_of X w' = tables_of X w
      \<or> tables_of X w' = snd (sem_exec X s (now w) (tables_of X w))"
    and "up \<Longrightarrow> fst (sem_exec X s (now w) (tables_of X w)) = Inr () \<Longrightarrow> r = Inr ()"
proof -
  obtain res where c: "run (sql_call (sql_exec X s)) w = (res, w')"
    and r: "r = (case res of Inl e \<Rightarrow> Inl (wrap m e) | Inr _ \<Rightarrow> Inr ())"
    using assms(2) by (auto split: prod.splits)
  note * = run_sql_tables [OF mysql_specD(1) [OF assms(1)] c]
  show "r = Inr () \<Longrightarrow> sem_exec X s (now w) (tables_of X w) = (Inr (), tables_of X w')"
    using * by (auto simp: r split: sum.splits)
  show "tables_of X w' = tables_of X w
      \<or> tables_of X w' = snd (sem_exec X s (now w) (tables_of X w))"
    using * by (metis snd_conv)
  show "up \<Longrightarrow> fst (sem_exec X s (now w) (tables_of X w)) = Inr () \<Longrightarrow> r = Inr ()"
    using * by (metis (lifting) fst_conv r sum.simps(6))
qed

subsection \<open>Users\<close>

definition user_row :: "('r, 'd) ext \<Rightarrow> ('r, 'd) world \<Rightarrow> user \<Rightarrow> user" where
  "user_row X w u = \<lparr>us_ID = char_value (us_ID u), us_Email = us_Email u,
     us_PasswordHash = us_PasswordHash u, us_CreatedAt = sql_datetime X (sql_now X (now w))\<rparr>"

lemma User_Create_tables:
  assumes "mysql_spec up X" and "run (User_Create X u) w = (r, w')"
  shows "r = Inr () \<Longrightarrow> tables_of X w' = (tables_of X w)
        \<lparr>t_users := t_users (tables_of X w) @ [user_row X w u]\<rparr>
      \<and> \<not> (\<exists>v \<in> set (t_users (tables_of X w)). sql_eq X (us_ID v) (us_ID u) \<or> sql_eq X (us_Email v) (us_Email u))"
    and "tables_of X w' = tables_of X w \<or> tables_of X w' = (tables_of X w)
        \<lparr>t_users := t_users (tables_of X w) @ [user_row X w u]\<rparr>
      \<and> \<not> (\<exists>v \<in> set (t_users (tables_of X w)). sql_eq X (us_ID v) (us_ID u) \<or> sql_eq X (us_Email v) (us_Email u))"
  using exec_tables(1,2) [OF assms(1) assms(2) [unfolded User_Create_def]]
  by (auto simp: refused_def user_row_def split: if_splits)

lemma get_user_tables:
  assumes "mysql_spec up X" and "run (sql_call (sql_get_user X q)) w = (res, w')"
  shows "tables_of X w' = tables_of X w"
    and "res = or_no_rows (List.find (user_where X q) (t_users (tables_of X w))) \<or> \<not> up \<and> infra res"
  using run_sql_tables [OF mysql_specD(2) [OF assms(1)] assms(2)]
  by (auto simp: sem_get_user_def)

lemma User_GetByEmail_cases:
  assumes "mysql_spec up X" and "run (User_GetByEmail X e) w = (r, w')"
  shows "tables_of X w' = tables_of X w"
    and "r = Inr uo \<Longrightarrow> uo = List.find (\<lambda>u. sql_eq X (us_Email u) e) (t_users (tables_of X w))"
    and "up \<Longrightarrow> r = Inr (List.find (\<lambda>u. sql_eq X (us_Email u) e) (t_users (tables_of X w)))"
proof -
  obtain res where c: "run (sql_call (sql_get_user X (UserByEmail e))) w = (res, w')"
    and r: "r = (case res of
       Inl e \<Rightarrow> (if err_is e SqlNoRows then Inr None else Inl (wrap ''UserRepository.GetByEmail'' e))
     | Inr u \<Rightarrow> Inr (Some u))"
    using assms(2) by (auto simp: User_GetByEmail_def split: prod.splits)
  note * = get_user_tables [OF assms(1) c]
  have w: "user_where X (UserByEmail e) = (\<lambda>u. sql_eq X (us_Email u) e)" by (rule ext) simp
  show "tables_of X w' = tables_of X w" by (rule *(1))
  show "r = Inr uo \<Longrightarrow> uo = List.find (\<lambda>u. sql_eq X (us_Email u) e) (t_users (tables_of X w))"
    using *(2) by (auto simp: r w or_no_rows_def split: option.splits elim: infraE)
  show "up \<Longrightarrow> r = Inr (List.find (\<lambda>u. sql_eq X (us_Email u) e) (t_users (tables_of X w)))"
    using *(2) by (auto simp: r w or_no_rows_def split: option.splits)
qed

lemma User_GetByID_cases:
  assumes "mysql_spec up X" and "run (User_GetByID X i) w = (r, w')"
  shows "tables_of X w' = tables_of X w"
    and "r = Inr uo \<Longrightarrow> \<exists>u. uo = Some u
      \<and> List.find (\<lambda>u. sql_eq X (us_ID u) i) (t_users (tables_of X w)) = Some u"
    and "up \<Longrightarrow> r = (case List.find (\<lambda>u. sql_eq X (us_ID u) i) (t_users (tables_of X w)) of
      None \<Rightarrow> Inl (wrap ''UserRepository.GetByID'' SqlNoRows) | Some u \<Rightarrow> Inr (Some u))"
    and "r \<noteq> Inr None"
proof -
  obtain res where c: "run (sql_call (sql_get_user X (UserById i))) w = (res, w')"
    and r: "r = (case res of
       Inl e \<Rightarrow> Inl (wrap ''UserRepository.GetByID'' e) | Inr u \<Rightarrow> Inr (Some u))"
    using assms(2) by (auto simp: User_GetByID_def split: prod.splits)
  note * = get_user_tables [OF assms(1) c]
  have w: "user_where X (UserById i) = (\<lambda>u. sql_eq X (us_ID u) i)" by (rule ext) simp
  show "tables_of X w' = tables_of X w" by (rule *(1))
  show "r = Inr uo \<Longrightarrow> \<exists>u. uo = Some u
      \<and> List.find (\<lambda>u. sql_eq X (us_ID u) i) (t_users (tables_of X w)) = Some u"
    using *(2) by (auto simp: r w or_no_rows_def split: option.splits sum.splits elim: infraE)
  show "up \<Longrightarrow> r = (case List.find (\<lambda>u. sql_eq X (us_ID u) i) (t_users (tables_of X w)) of
      None \<Rightarrow> Inl (wrap ''UserRepository.GetByID'' SqlNoRows) | Some u \<Rightarrow> Inr (Some u))"
    using *(2) by (auto simp: r w or_no_rows_def split: option.splits)
  show "r \<noteq> Inr None" by (simp add: r split: sum.splits)
qed

subsection \<open>Clients\<close>

lemma Scan_error: "StringSlice_Scan v = Inl e \<Longrightarrow> \<exists>m. e = ErrNew m"
  by (cases v) (auto simp: StringSlice_Scan_def Let_def split: option.splits)

lemma scan_error_not_nil:
  "scan_client row = Inl e \<Longrightarrow> \<not> err_is e SqlNoRows"
  "scan_token tw = Inl e \<Longrightarrow> \<not> err_is e SqlNoRows"
  by (auto simp: scan_client_def scan_token_def scan_error_def dest!: Scan_error split: sum.splits)

text \<open>A client as the insert stores it and a later lookup reads it.\<close>

definition client_stored :: "('r, 'd) ext \<Rightarrow> ('r, 'd) world \<Rightarrow> client \<Rightarrow> client" where
  "client_stored X w c = \<lparr>cl_ID = char_value (cl_ID c), cl_Name = cl_Name c,
     cl_ClientSecretHash = cl_ClientSecretHash c, cl_RedirectURIs = valid_slice (cl_RedirectURIs c),
     cl_Scopes = valid_slice (cl_Scopes c), cl_GrantTypes = valid_slice (cl_GrantTypes c),
     cl_IsFirstParty = cl_IsFirstParty c, cl_CreatedAt = sql_datetime X (sql_now X (now w))\<rparr>"

lemma json_column:
  assumes "columns_ok X"
  obtains t where "sql_json X (StringSlice_Value s) = Some t"
    and "StringSlice_Scan (DbBytes t) = Inr (valid_slice s)"
proof -
  have "json_unmarshal (StringSlice_Value s) = Some (slice_json (valid_slice s))"
    by (rule unmarshal_slice)
  with assms obtain t where t: "sql_json X (StringSlice_Value s) = Some t"
    and j: "json_unmarshal t = Some (slice_json (valid_slice s))"
    unfolding columns_ok_def by blast
  show thesis by (rule that [OF t]) (simp add: StringSlice_Scan_def j)
qed

lemma Client_Create_tables:
  assumes "mysql_spec up X" "columns_ok X" and "run (Client_Create X c) w = (r, w')"
  obtains row where "scan_client row = Inr (client_stored X w c)" "cr_id row = char_value (cl_ID c)"
    and "tables_of X w' = (tables_of X w)\<lparr>t_clients := t_clients (tables_of X w) @ [row]\<rparr>
        \<or> r \<noteq> Inr () \<and> tables_of X w' = tables_of X w"
    and "tables_of X w' = tables_of X w
      \<or> \<not> (\<exists>v \<in> set (t_clients (tables_of X w)). sql_eq X (cr_id v) (cl_ID c))"
    and "r = Inr () \<Longrightarrow> \<not> (\<exists>v \<in> set (t_clients (tables_of X w)). sql_eq X (cr_id v) (cl_ID c))"
    and "up \<Longrightarrow> fits 36 (cl_ID c) \<Longrightarrow> fits 255 (cl_Name c) \<Longrightarrow> fits 255 (cl_ClientSecretHash c)
      \<Longrightarrow> \<not> (\<exists>v \<in> set (t_clients (tables_of X w)). sql_eq X (cr_id v) (cl_ID c)) \<Longrightarrow> r = Inr ()"
proof -
  obtain us where us: "sql_json X (StringSlice_Value (cl_RedirectURIs c)) = Some us"
    "StringSlice_Scan (DbBytes us) = Inr (valid_slice (cl_RedirectURIs c))"
    by (rule json_column [OF assms(2)])
  obtain ss where ss: "sql_json X (StringSlice_Value (cl_Scopes c)) = Some ss"
    "StringSlice_Scan (DbBytes ss) = Inr (valid_slice (cl_Scopes c))"
    by (rule json_column [OF assms(2)])
  obtain gs where gs: "sql_json X (StringSlice_Value (cl_GrantTypes c)) = Some gs"
    "StringSlice_Scan (DbBytes gs) = Inr (valid_slice (cl_GrantTypes c))"
    by (rule json_column [OF assms(2)])
  let ?row = "\<lparr>cr_id = char_value (cl_ID c), cr_name = cl_Name c,
    cr_secret_hash = cl_ClientSecretHash c, cr_redirect_uris = us, cr_scopes = ss,
    cr_grant_types = gs, cr_is_first_party = cl_IsFirstParty c,
    cr_created_at = sql_datetime X (sql_now X (now w))\<rparr>"
  note * = exec_tables [OF assms(1) assms(3) [unfolded Client_Create_def]]
  show thesis
  proof (rule that [of ?row])
    show "scan_client ?row = Inr (client_stored X w c)"
      by (simp add: scan_client_def us ss gs client_stored_def)
    show "tables_of X w' = (tables_of X w)\<lparr>t_clients := t_clients (tables_of X w) @ [?row]\<rparr>
        \<or> r \<noteq> Inr () \<and> tables_of X w' = tables_of X w"
      using *(1,2) by (auto simp: us ss gs refused_def split: if_splits)
    show "tables_of X w' = tables_of X w
      \<or> \<not> (\<exists>v \<in> set (t_clients (tables_of X w)). sql_eq X (cr_id v) (cl_ID c))"
      using *(2) by (auto simp: us ss gs refused_def split: if_splits)
    show "r = Inr () \<Longrightarrow> \<not> (\<exists>v \<in> set (t_clients (tables_of X w)). sql_eq X (cr_id v) (cl_ID c))"
      using *(1) by (auto simp: us ss gs refused_def split: if_splits)
    show "up \<Longrightarrow> fits 36 (cl_ID c) \<Longrightarrow> fits 255 (cl_Name c) \<Longrightarrow> fits 255 (cl_ClientSecretHash c)
      \<Longrightarrow> \<not> (\<exists>v \<in> set (t_clients (tables_of X w)). sql_eq X (cr_id v) (cl_ID c)) \<Longrightarrow> r = Inr ()"
      by (rule *(3)) (simp_all add: us ss gs)
  qed simp
qed

abbreviation client_rows :: "('r, 'd) ext \<Rightarrow> ('r, 'd) world \<Rightarrow> gostring \<Rightarrow> client_row option" where
  "client_rows X w i \<equiv> List.find (\<lambda>c. sql_eq X (cr_id c) i) (t_clients (tables_of X w))"

lemma Client_GetByID_cases:
  assumes "mysql_spec up X" and "run (Client_GetByID X i) w = (r, w')"
  shows "tables_of X w' = tables_of X w"
    and "r = Inr (Some c) \<Longrightarrow> \<exists>row. client_rows X w i = Some row \<and> scan_client row = Inr c"
    and "r = Inr None \<Longrightarrow> client_rows X w i = None"
    and "r = Inl e \<Longrightarrow> up \<Longrightarrow> \<exists>row e'. client_rows X w i = Some row \<and> scan_client row = Inl e'"
    and "up \<Longrightarrow> client_rows X w i = None \<Longrightarrow> r = Inr None"
    and "up \<Longrightarrow> client_rows X w i = Some row \<Longrightarrow> scan_client row = Inr c \<Longrightarrow> r = Inr (Some c)"
proof -
  obtain res where c: "run (sql_call (sql_get_client X i)) w = (res, w')"
    and r: "r = (case (case res of Inl e \<Rightarrow> Inl e | Inr row \<Rightarrow> scan_client row) of
       Inl e \<Rightarrow> (if err_is e SqlNoRows then Inr None
                 else Inl (wrap ''ClientRepository.GetByID'' e))
     | Inr c \<Rightarrow> Inr (Some c))"
    using assms(2) by (auto simp: Client_GetByID_def split: prod.splits)
  note * = run_sql_tables [OF mysql_specD(3) [OF assms(1)] c]
  have res: "res = or_no_rows (client_rows X w i) \<or> \<not> up \<and> infra res"
    using * by (auto simp: sem_get_client_def)
  show "tables_of X w' = tables_of X w"
    using * by (auto simp: sem_get_client_def)
  show "r = Inr (Some c) \<Longrightarrow> \<exists>row. client_rows X w i = Some row \<and> scan_client row = Inr c"
    using res by (auto simp: r or_no_rows_def split: option.splits sum.splits if_splits elim!: infraE)
  show "r = Inr None \<Longrightarrow> client_rows X w i = None"
    using res by (auto simp: r or_no_rows_def dest: scan_error_not_nil
        split: option.splits sum.splits if_splits elim!: infraE)
  show "r = Inl e \<Longrightarrow> up \<Longrightarrow> \<exists>row e'. client_rows X w i = Some row \<and> scan_client row = Inl e'"
    using res by (auto simp: r or_no_rows_def split: option.splits sum.splits if_splits)
  show "up \<Longrightarrow> client_rows X w i = None \<Longrightarrow> r = Inr None"
    using res by (simp add: r or_no_rows_def)
  show "up \<Longrightarrow> client_rows X w i = Some row \<Longrightarrow> scan_client row = Inr c \<Longrightarrow> r = Inr (Some c)"
    using res by (simp add: r or_no_rows_def)
qed

subsection \<open>Refresh tokens\<close>

definition token_stored :: "('r, 'd) ext \<Rightarrow> ('r, 'd) world \<Rightarrow> refresh_token \<Rightarrow> refresh_token" where
  "token_stored X w t = \<lparr>rt_ID = char_value (rt_ID t), rt_UserID = char_value (rt_UserID t),
     rt_ClientID = char_value (rt_ClientID t), rt_Scope = valid_slice (rt_Scope t),
     rt_TokenHash = rt_TokenHash t, rt_ExpiresAt = sql_datetime X (rt_ExpiresAt t),
     rt_RevokedAt = None, rt_CreatedAt = sql_datetime X (sql_now X (now w))\<rparr>"

lemma Token_Create_tables:
  assumes "mysql_spec up X" "columns_ok X" and "run (Token_Create X t) w = (r, w')"
  obtains row where "scan_token row = Inr (token_stored X w t)" "tw_token_hash row = rt_TokenHash t"
    and "tables_of X w' = (tables_of X w)\<lparr>t_tokens := t_tokens (tables_of X w) @ [row]\<rparr>
        \<or> r \<noteq> Inr () \<and> tables_of X w' = tables_of X w"
    and "up \<Longrightarrow> fits 36 (rt_ID t) \<Longrightarrow> fits 36 (rt_UserID t) \<Longrightarrow> fits 36 (rt_ClientID t)
      \<Longrightarrow> fits 255 (rt_TokenHash t)
      \<Longrightarrow> \<not> (\<exists>v \<in> set (t_tokens (tables_of X w)). sql_eq X (tw_id v) (rt_ID t))
      \<Longrightarrow> (\<exists>v \<in> set (t_users (tables_of X w)). sql_eq X (us_ID v) (rt_UserID t)) \<Longrightarrow> r = Inr ()"
proof -
  obtain ss where ss: "sql_json X (StringSlice_Value (rt_Scope t)) = Some ss"
    "StringSlice_Scan (DbBytes ss) = Inr (valid_slice (rt_Scope t))"
    by (rule json_column [OF assms(2)])
  let ?row = "\<lparr>tw_id = char_value (rt_ID t), tw_user_id = char_value (rt_UserID t),
    tw_client_id = char_value (rt_ClientID t), tw_scope = ss, tw_token_hash = rt_TokenHash t,
    tw_expires_at = sql_datetime X (rt_ExpiresAt t), tw_revoked_at = None,
    tw_created_at = sql_datetime X (sql_now X (now w))\<rparr>"
  note * = exec_tables [OF assms(1) assms(3) [unfolded Token_Create_def]]
  show thesis
  proof (rule that [of ?row])
    show "scan_token ?row = Inr (token_stored X w t)"
      by (simp add: scan_token_def ss token_stored_def)
    show "tables_of X w' = (tables_of X w)\<lparr>t_tokens := t_tokens (tables_of X w) @ [?row]\<rparr>
        \<or> r \<noteq> Inr () \<and> tables_of X w' = tables_of X w"
      using *(1,2) by (auto simp: ss refused_def split: if_splits)
    show "up \<Longrightarrow> fits 36 (rt_ID t) \<Longrightarrow> fits 36 (rt_UserID t) \<Longrightarrow> fits 36 (rt_ClientID t)
      \<Longrightarrow> fits 255 (rt_TokenHash t)
      \<Longrightarrow> \<not> (\<exists>v \<in> set (t_tokens (tables_of X w)). sql_eq X (tw_id v) (rt_ID t))
      \<Longrightarrow> (\<exists>v \<in> set (t_users (tables_of X w)). sql_eq X (us_ID v) (rt_UserID t)) \<Longrightarrow> r = Inr ()"
      by (rule *(3)) (simp_all add: ss)
  qed simp
qed

abbreviation token_rows :: "('r, 'd) ext \<Rightarrow> ('r, 'd) world \<Rightarrow> token_query \<Rightarrow> token_row option" where
  "token_rows X w q \<equiv> List.find (token_where X q) (t_tokens (tables_of X w))"

lemma get_token_cases:
  assumes "mysql_spec up X" and "run (get_token X m q) w = (r, w')"
  shows "tables_of X w' = tables_of X w"
    and "r = Inr (Some t) \<Longrightarrow> \<exists>row. token_rows X w q = Some row \<and> scan_token row = Inr t"
    and "r = Inr None \<Longrightarrow> token_rows X w q = None"
    and "up \<Longrightarrow> token_rows X w q = None \<Longrightarrow> r = Inr None"
    and "up \<Longrightarrow> token_rows X w q = Some row \<Longrightarrow> scan_token row = Inr t \<Longrightarrow> r = Inr (Some t)"
proof -
  obtain res where c: "run (sql_call (sql_get_token X q)) w = (res, w')"
    and r: "r = (case (case res of Inl e \<Rightarrow> Inl e | Inr row \<Rightarrow> scan_token row) of
       Inl e \<Rightarrow> (if err_is e SqlNoRows then Inr None else Inl (wrap m e))
     | Inr c \<Rightarrow> Inr (Some c))"
    using assms(2) by (auto simp: get_token_def split: prod.splits)
  note * = run_sql_tables [OF mysql_specD(4) [OF assms(1)] c]
  have res: "res = or_no_rows (token_rows X w q) \<or> \<not> up \<and> infra res"
    using * by (auto simp: sem_get_token_def)
  show "tables_of X w' = tables_of X w"
    using * by (auto simp: sem_get_token_def)
  show "r = Inr (Some t) \<Longrightarrow> \<exists>row. token_rows X w q = Some row \<and> scan_token row = Inr t"
    using res by (auto simp: r or_no_rows_def split: option.splits sum.splits if_splits elim!: infraE)
  show "r = Inr None \<Longrightarrow> token_rows X w q = None"
    using res by (auto simp: r or_no_rows_def dest: scan_error_not_nil
        split: option.splits sum.splits if_splits elim!: infraE)
  show "up \<Longrightarrow> token_rows X w q = None \<Longrightarrow> r = Inr None"
    using res by (simp add: r or_no_rows_def)
  show "up \<Longrightarrow> token_rows X w q = Some row \<Longrightarrow> scan_token row = Inr t \<Longrightarrow> r = Inr (Some t)"
    using res by (simp add: r or_no_rows_def)
qed

section \<open>The repositories provide the ports\<close>

definition tables_ok :: "('r, 'd) ext \<Rightarrow> bool" where
  "tables_ok X \<longleftrightarrow> mysql_ok X \<and> columns_ok X"

definition stored_users :: "('r, 'd) ext \<Rightarrow> ('r, 'd) world \<Rightarrow> user set" where
  "stored_users X w = set (t_users (tables_of X w))"

definition stored_clients :: "('r, 'd) ext \<Rightarrow> ('r, 'd) world \<Rightarrow> client set" where
  "stored_clients X w = {c. \<exists>row \<in> set (t_clients (tables_of X w)). scan_client row = Inr c}"

definition stored_tokens :: "('r, 'd) ext \<Rightarrow> ('r, 'd) world \<Rightarrow> refresh_token set" where
  "stored_tokens X w = {t. \<exists>row \<in> set (t_tokens (tables_of X w)). scan_token row = Inr t}"

lemma scan_client_ID: "scan_client row = Inr c \<Longrightarrow> cl_ID c = cr_id row"
  by (auto simp: scan_client_def split: sum.splits)

lemma scan_token_fields:
  "scan_token row = Inr t \<Longrightarrow> rt_TokenHash t = tw_token_hash row \<and> rt_UserID t = tw_user_id row
    \<and> rt_ExpiresAt t = tw_expires_at row \<and> rt_RevokedAt t = tw_revoked_at row \<and> rt_ID t = tw_id row"
  by (auto simp: scan_token_def split: sum.splits)

interpretation users: insert_port tables_ok User_GetByEmail stored_users
  "\<lambda>X e u. sql_eq X (us_Email u) e" User_Create "\<lambda>X w u. {user_row X w u}"
proof
  fix X :: "('a, 'b) ext" and e w w' and a b :: user and r and rc :: "goerr + unit"
  assume "tables_ok X"
  then have X: "mysql_ok X" by (simp add: tables_ok_def)
  show "a \<in> stored_users X w \<and> sql_eq X (us_Email a) e"
    if "run (User_GetByEmail X e) w = (Inr (Some a), w')"
    using User_GetByEmail_cases(2) [OF X that refl, symmetric]
    by (auto simp: stored_users_def dest: find_SomeD)
  show "\<not> sql_eq X (us_Email a) e"
    if "run (User_GetByEmail X e) w = (Inr None, w')" and "a \<in> stored_users X w"
    using User_GetByEmail_cases(2) [OF X that(1) refl] that(2)
    by (metis find_None_conv stored_users_def)
  show "stored_users X w' = stored_users X w" if "run (User_GetByEmail X e) w = (r, w')"
    using User_GetByEmail_cases(1) [OF X that] by (simp add: stored_users_def)
  show "stored_users X w' = stored_users X w \<union> {user_row X w b}"
    if "run (User_Create X b) w = (Inr (), w')"
    using User_Create_tables(1) [OF X that] by (auto simp: stored_users_def)
  show "stored_users X w' = stored_users X w \<or> stored_users X w' = stored_users X w \<union> {user_row X w b}"
    if "run (User_Create X b) w = (rc, w')"
    using User_Create_tables(2) [OF X that] by (auto simp: stored_users_def)
qed

interpretation clients: insert_port tables_ok Client_GetByID stored_clients
  "\<lambda>X i c. sql_eq X (cl_ID c) i" Client_Create "\<lambda>X w c. {client_stored X w c}"
proof
  fix X :: "('a, 'b) ext" and i w w' and a b :: client and r and rc :: "goerr + unit"
  assume ok: "tables_ok X"
  then have X: "mysql_ok X" by (simp add: tables_ok_def)
  show "a \<in> stored_clients X w \<and> sql_eq X (cl_ID a) i"
    if "run (Client_GetByID X i) w = (Inr (Some a), w')"
    using Client_GetByID_cases(2) [OF X that refl]
    by (auto simp: stored_clients_def scan_client_ID dest!: find_SomeD)
  show "\<not> sql_eq X (cl_ID a) i"
    if "run (Client_GetByID X i) w = (Inr None, w')" and "a \<in> stored_clients X w"
    using Client_GetByID_cases(3) [OF X that(1) refl] that(2)
    by (auto simp: stored_clients_def scan_client_ID find_None_conv)
  show "stored_clients X w' = stored_clients X w" if "run (Client_GetByID X i) w = (r, w')"
    using Client_GetByID_cases(1) [OF X that] by (simp add: stored_clients_def)
  show *: "stored_clients X w' = stored_clients X w
      \<or> stored_clients X w' = stored_clients X w \<union> {client_stored X w b}"
    if "run (Client_Create X b) w = (rc, w')" for rc
    by (rule Client_Create_tables [OF X _ that])
      (use ok in \<open>auto simp: stored_clients_def tables_ok_def\<close>)
  show "stored_clients X w' = stored_clients X w \<union> {client_stored X w b}"
    if "run (Client_Create X b) w = (Inr (), w')"
    by (rule Client_Create_tables [OF X _ that])
      (use ok in \<open>auto simp: stored_clients_def tables_ok_def\<close>)
qed

interpretation tokens: insert_port tables_ok Token_GetTokenByHash stored_tokens
  "\<lambda>X h t. sql_eq X (rt_TokenHash t) h" Token_Create "\<lambda>X w t. {token_stored X w t}"
proof
  fix X :: "('a, 'b) ext" and h w w' and a b :: refresh_token and r and rc :: "goerr + unit"
  assume ok: "tables_ok X"
  then have X: "mysql_ok X" by (simp add: tables_ok_def)
  note G = get_token_cases [OF X, where q = "TokenByHash h" and m = "''RefreshTokenRepository.GetTokenByHash''", folded Token_GetTokenByHash_def]
  show "a \<in> stored_tokens X w \<and> sql_eq X (rt_TokenHash a) h"
    if "run (Token_GetTokenByHash X h) w = (Inr (Some a), w')"
    using G(2) [OF that refl]
    by (auto simp: stored_tokens_def scan_token_fields dest!: find_SomeD)
  show "\<not> sql_eq X (rt_TokenHash a) h"
    if "run (Token_GetTokenByHash X h) w = (Inr None, w')" and "a \<in> stored_tokens X w"
    using G(3) [OF that(1) refl] that(2)
    by (auto simp: stored_tokens_def scan_token_fields find_None_conv)
  show "stored_tokens X w' = stored_tokens X w" if "run (Token_GetTokenByHash X h) w = (r, w')"
    using G(1) [OF that] by (simp add: stored_tokens_def)
  show *: "stored_tokens X w' = stored_tokens X w
      \<or> stored_tokens X w' = stored_tokens X w \<union> {token_stored X w b}"
    if "run (Token_Create X b) w = (rc, w')" for rc
    by (rule Token_Create_tables [OF X _ that])
      (use ok in \<open>auto simp: stored_tokens_def tables_ok_def\<close>)
  show "stored_tokens X w' = stored_tokens X w \<union> {token_stored X w b}"
    if "run (Token_Create X b) w = (Inr (), w')"
    by (rule Token_Create_tables [OF X _ that])
      (use ok in \<open>auto simp: stored_tokens_def tables_ok_def\<close>)
qed

end
