(* ===== verification/Sha256.thy ===== *)
theory Sha256
  imports GoText "HOL-Library.Word"
begin

unbundle bit_operations_syntax

text \<open>
  \<open>sha256.Sum256\<close> of the Go standard library (FIPS 180-4) on byte strings: the code hashes
  refresh tokens, PKCE verifiers and JWK members with it.
\<close>

section \<open>SHA-256\<close>

type_synonym u32 = "32 word"

definition rotr :: "nat \<Rightarrow> u32 \<Rightarrow> u32" where
  "rotr n x = drop_bit n x OR push_bit (32 - n) x"

text \<open>The constants of the rounds and the initial hash value, four words to a numeral.\<close>

definition quad :: "nat \<Rightarrow> u32 list" where
  "quad n = map (\<lambda>i. of_nat (n div 2 ^ (32 * i))) [3, 2, 1, 0]"

definition sha_k :: "u32 list" where
  "sha_k = concat (map quad
     [0x428a2f9871374491b5c0fbcfe9b5dba5, 0x3956c25b59f111f1923f82a4ab1c5ed5,
      0xd807aa9812835b01243185be550c7dc3, 0x72be5d7480deb1fe9bdc06a7c19bf174,
      0xe49b69c1efbe47860fc19dc6240ca1cc, 0x2de92c6f4a7484aa5cb0a9dc76f988da,
      0x983e5152a831c66db00327c8bf597fc7, 0xc6e00bf3d5a7914706ca635114292967,
      0x27b70a852e1b21384d2c6dfc53380d13, 0x650a7354766a0abb81c2c92e92722c85,
      0xa2bfe8a1a81a664bc24b8b70c76c51a3, 0xd192e819d6990624f40e3585106aa070,
      0x19a4c1161e376c082748774c34b0bcb5, 0x391c0cb34ed8aa4a5b9cca4f682e6ff3,
      0x748f82ee78a5636f84c878148cc70208, 0x90befffaa4506cebbef9a3f7c67178f2])"

definition sha_h0 :: "u32 list" where
  "sha_h0 = concat (map quad
     [0x6a09e667bb67ae853c6ef372a54ff53a, 0x510e527f9b05688c1f83d9ab5be0cd19])"

text \<open>The \<open>n\<close> low-order bytes of a number, most significant first, and back.\<close>

fun be_bytes :: "nat \<Rightarrow> nat \<Rightarrow> nat list" where
  "be_bytes 0 v = []"
| "be_bytes (Suc n) v = be_bytes n (v div 256) @ [v mod 256]"

definition be_value :: "nat list \<Rightarrow> nat" where
  "be_value bs = foldl (\<lambda>a b. a * 256 + b) 0 bs"

definition sha_pad :: "nat list \<Rightarrow> nat list" where
  "sha_pad m = m @ 128 # replicate ((119 - length m mod 64) mod 64) 0
     @ be_bytes 8 (8 * length m)"

text \<open>The message schedule: 16 words of the block, extended to 64.\<close>

fun words_of :: "nat list \<Rightarrow> u32 list" where
  "words_of (a # b # c # d # r) = of_nat (be_value [a, b, c, d]) # words_of r"
| "words_of _ = []"

fun sha_extend :: "nat \<Rightarrow> u32 list \<Rightarrow> u32 list" where
  "sha_extend 0 w = w"
| "sha_extend (Suc n) w =
     (let t = length w; w15 = w ! (t - 15); w2 = w ! (t - 2);
          s0 = rotr 7 w15 XOR rotr 18 w15 XOR drop_bit 3 w15;
          s1 = rotr 17 w2 XOR rotr 19 w2 XOR drop_bit 10 w2
      in sha_extend n (w @ [w ! (t - 16) + s0 + w ! (t - 7) + s1]))"

text \<open>One round on the eight working variables, and the rounds of one block.\<close>

definition sha_round :: "u32 list \<Rightarrow> u32 \<times> u32 \<Rightarrow> u32 list" where
  "sha_round st kw = (case st of [a, b, c, d, e, f, g, h] \<Rightarrow>
     (let s1 = rotr 6 e XOR rotr 11 e XOR rotr 25 e;
          ch = (e AND f) XOR (NOT e AND g);
          t1 = h + s1 + ch + fst kw + snd kw;
          s0 = rotr 2 a XOR rotr 13 a XOR rotr 22 a;
          maj = (a AND b) XOR (a AND c) XOR (b AND c)
      in [t1 + s0 + maj, a, b, c, d + t1, e, f, g])
   | _ \<Rightarrow> st)"

definition sha_block :: "u32 list \<Rightarrow> nat list \<Rightarrow> u32 list" where
  "sha_block h block =
     map2 (+) h (foldl sha_round h (zip sha_k (sha_extend 48 (words_of block))))"

function sha_blocks :: "u32 list \<Rightarrow> nat list \<Rightarrow> u32 list" where
  "sha_blocks h m =
     (if m = [] then h else sha_blocks (sha_block h (take 64 m)) (drop 64 m))"
  by pat_completeness auto
termination
  by (relation "measure (\<lambda>(h, m). length m)") auto

declare sha_blocks.simps [simp del]

definition sha256 :: "gostring \<Rightarrow> gostring" where
  "sha256 s = map char_of (concat (map (\<lambda>w. be_bytes 4 (unat w))
     (sha_blocks sha_h0 (sha_pad (map of_char s)))))"

section \<open>Shape of a digest\<close>

lemma length_be_bytes [simp]: "length (be_bytes n v) = n"
  by (induction n v rule: be_bytes.induct) auto

lemma be_bytes_bound: "b \<in> set (be_bytes n v) \<Longrightarrow> b < 256"
  by (induction n v rule: be_bytes.induct) auto

lemma length_sha_round [simp]: "length (sha_round st kw) = length st"
  by (auto simp: sha_round_def Let_def split: list.split)

lemma length_sha_rounds [simp]: "length (foldl sha_round st kws) = length st"
  by (induction kws arbitrary: st) auto

lemma length_sha_block [simp]: "length (sha_block h b) = length h"
  by (simp add: sha_block_def)

lemma length_sha_blocks [simp]: "length (sha_blocks h m) = length h"
proof (induction h m rule: sha_blocks.induct)
  case (1 h m)
  then show ?case
    by (cases "m = []") (simp_all add: sha_blocks.simps [of h m] sha_blocks.simps [of h "[]"])
qed

lemma length_concat_const:
  "\<forall>x \<in> set xs. length (f x) = n \<Longrightarrow> length (concat (map f xs)) = n * length xs"
  by (induction xs) auto

lemma length_sha256 [simp]: "length (sha256 s) = 32"
proof -
  have "length (sha_blocks sha_h0 m) = 8" for m
    by (simp add: sha_h0_def quad_def)
  then show ?thesis
    using length_concat_const [of "sha_blocks sha_h0 (sha_pad (map of_char s))"
      "\<lambda>w. be_bytes 4 (unat w)" 4] by (simp add: sha256_def)
qed

end
