(* ===== verification/TokenService.thy ===== *)
theory TokenService
  imports Cache Ports Sha256 Base64
begin

text \<open>
  \<open>internal/service/token.go\<close>: access tokens (claims signed by the JWT library), the opaque
  refresh tokens, validation, and the published key set with its RFC 7638 thumbprint.
\<close>

section \<open>Operations\<close>

definition IssueAccessToken :: "('r, 'd) ext \<Rightarrow> gostring \<Rightarrow> gostring \<Rightarrow> gostring \<Rightarrow> gostring
    \<Rightarrow> ('r, 'd, access_token) prog" where
  "IssueAccessToken X userID email clientID scope = do {
     t \<leftarrow> time_Now;
     let tokenExpiresIn = t + 15 * 60 * second;
     jti \<leftarrow> draw (new_uuid X);
     issued \<leftarrow> time_Now;
     let claims = \<lparr>ic_UserID = userID, ic_Email = email, ic_ClientID = clientID,
       ic_Scope = scope, ic_ID = jti, ic_IssuedAt = issued, ic_ExpiresAt = tokenExpiresIn\<rparr>;
     ret (case jwt_sign X claims of
       None \<Rightarrow> Inl (ErrNew ''signing'')
     | Some signedToken \<Rightarrow> Inr \<lparr>at_AccessTokenString = signedToken,
         at_AccessTokenExpiresIn = 15 * 60\<rparr>)
   }"

definition IssueRefreshToken :: "('r, 'd) ext \<Rightarrow> (('r, 'd) world, gostring \<times> gotime) state" where
  "IssueRefreshToken X = do {
     t \<leftarrow> time_Now;
     let expiresAt = t + 7 * 24 * 3600 * second;
     token \<leftarrow> draw (new_uuid X);
     ret (token, expiresAt)
   }"

text \<open>The methods of type \<open>SigningMethodRSA\<close>; the PSS methods have a type of their own.\<close>

definition rsa_key :: "gostring \<Rightarrow> goerr + unit" where
  "rsa_key alg = (if alg \<in> {''RS256'', ''RS384'', ''RS512''} then Inr ()
     else Inl (ErrNew ''unexpected signing method''))"

definition Validate :: "('r, 'd) ext \<Rightarrow> gostring \<Rightarrow> ('r, 'd, iam_claims) prog" where
  "Validate X raw = do {
     t \<leftarrow> time_Now;
     ret (case jwt_parse X rsa_key t raw of
       Inl e \<Rightarrow> Inl e
     | Inr (claims, valid) \<Rightarrow> (if \<not> valid then Inl (ErrNew ''invalid token'') else Inr claims))
   }"

subsection \<open>The key set\<close>

record jwk =
  jk_Kty :: gostring
  jk_Use :: gostring
  jk_Alg :: gostring
  jk_Kid :: gostring
  jk_N :: gostring
  jk_E :: gostring

definition big_Bytes :: "int \<Rightarrow> gostring" where
  "big_Bytes i = nat_bytes (nat \<bar>i\<bar>)"

definition rsaThumbprint :: "gostring \<Rightarrow> gostring \<Rightarrow> gostring" where
  "rsaThumbprint n e = base64_raw_url (sha256
     (''{\"e\":\"'' @ e @ ''\",\"kty\":\"RSA\",\"n\":\"'' @ n @ ''\"}''))"

definition JWKS :: "int \<Rightarrow> int \<Rightarrow> jwk list" where
  "JWKS key_N key_E =
     (let n = base64_raw_url (big_Bytes key_N); e = base64_raw_url (big_Bytes key_E)
      in [\<lparr>jk_Kty = ''RSA'', jk_Use = ''sig'', jk_Alg = ''RS256'',
           jk_Kid = rsaThumbprint n e, jk_N = n, jk_E = e\<rparr>])"

section \<open>Lemmas\<close>

lemma run_IssueAccessToken:
  "run (IssueAccessToken X u e c s) w =
     (case jwt_sign X \<lparr>ic_UserID = u, ic_Email = e, ic_ClientID = c, ic_Scope = s,
        ic_ID = new_uuid X (draws w), ic_IssuedAt = now w,
        ic_ExpiresAt = now w + 15 * 60 * second\<rparr> of
        None \<Rightarrow> Inl (ErrNew ''signing'')
      | Some tok \<Rightarrow> Inr \<lparr>at_AccessTokenString = tok, at_AccessTokenExpiresIn = 900\<rparr>,
      w\<lparr>draws := Suc (draws w)\<rparr>)"
  by (simp add: IssueAccessToken_def Let_def split: option.splits)

lemma run_IssueRefreshToken:
  "run (IssueRefreshToken X) w =
     ((new_uuid X (draws w), now w + 7 * 24 * 3600 * second), w\<lparr>draws := Suc (draws w)\<rparr>)"
  by (simp add: IssueRefreshToken_def Let_def)

interpretation issuer: issuer_port IssueAccessToken IssueRefreshToken
  "\<lambda>w. (now w, rds w, sdb w)" fst
  by unfold_locales
    (auto simp: run_IssueAccessToken run_IssueRefreshToken split: option.splits)

lemma issuer_frame [frame]:
  "keeps_field now (IssueAccessToken X u e c s)" "keeps_field rds (IssueAccessToken X u e c s)"
  "keeps_field sdb (IssueAccessToken X u e c s)"
  "keeps_field now (IssueRefreshToken X)" "keeps_field rds (IssueRefreshToken X)"
  "keeps_field sdb (IssueRefreshToken X)"
  by (simp_all add: keeps_field_def run_IssueAccessToken run_IssueRefreshToken)

end
