(* ===== verification/Reference.thy ===== *)
theory Reference
  imports World Base64
begin

text \<open>
  One concrete parameter: the two servers answer exactly as documented, the random source and
  the UUIDs count, instants are written in base64, a token is the JSON array of its claims.
  It shows that what is asked of the parameter can hold, and concrete runs start from it.
\<close>

definition ref_uuid :: "nat \<Rightarrow> gostring" where
  "ref_uuid n = replicate 35 CHR ''a'' @ [hex_char (n mod 16)]"

definition ref_hash :: "gostring \<Rightarrow> gostring" where
  "ref_hash p = take 60 (hex p @ replicate 60 CHR ''.'')"

definition ref_time_text :: "gotime \<Rightarrow> gostring option" where
  "ref_time_text t = (if 0 \<le> t then Some (base64_raw_url (nat_bytes (nat t))) else None)"

definition ref_time_parse :: "gostring \<Rightarrow> gotime option" where
  "ref_time_parse s = map_option (\<lambda>b. int (bytes_nat b)) (base64_raw_url_decode s)"

definition ref_jwt_sign :: "iam_claims \<Rightarrow> gostring option" where
  "ref_jwt_sign c = (case (ref_time_text (numeric_date (ic_IssuedAt c)),
       ref_time_text (numeric_date (ic_ExpiresAt c))) of
     (Some i, Some e) \<Rightarrow> Some (json_text (JArr (map JStr
       [ic_UserID c, ic_Email c, ic_ClientID c, ic_Scope c, ic_ID c, i, e])))
   | _ \<Rightarrow> None)"

definition ref_jwt_parse ::
  "(gostring \<Rightarrow> goerr + unit) \<Rightarrow> gotime \<Rightarrow> gostring \<Rightarrow> goerr + iam_claims \<times> bool" where
  "ref_jwt_parse kf t raw = (case kf ''RS256'' of
     Inl e \<Rightarrow> Inl e
   | Inr _ \<Rightarrow> (case json_unmarshal raw of
       Some (JArr [JStr u, JStr m, JStr c, JStr s, JStr j, JStr i, JStr e]) \<Rightarrow>
         (case (ref_time_parse i, ref_time_parse e) of
           (Some i', Some e') \<Rightarrow>
             if t < e' then Inr (\<lparr>ic_UserID = u, ic_Email = m, ic_ClientID = c, ic_Scope = s,
               ic_ID = j, ic_IssuedAt = i', ic_ExpiresAt = e'\<rparr>, True)
             else Inl (ErrNew ''token is expired'')
         | _ \<Rightarrow> Inl (ErrNew ''token is malformed''))
     | _ \<Rightarrow> Inl (ErrNew ''token is malformed'')))"

text \<open>Redis rounds the milliseconds that are left to the nearest second.\<close>

definition millisecond :: int where
  "millisecond = 1000000"

definition sem_ttl :: "gostring \<Rightarrow> gotime \<Rightarrow> redis_store \<Rightarrow> (goerr + int) \<times> redis_store" where
  "sem_ttl k t st = (Inr (if live st t k = None then -2
     else case st k of
       Some (v, Some e) \<Rightarrow> (e div millisecond - t div millisecond + 500) div 1000 * second
     | _ \<Rightarrow> -1), st)"

definition ref_libs :: "(redis_store, tables) ext" where
  "ref_libs = \<lparr>
     r_set = sem_set, r_get = sem_get, r_getdel = sem_getdel, r_del = sem_del,
     r_exists = sem_exists, r_ttl = sem_ttl, r_view = id,
     sql_exec = \<lambda>s t d. (Inr (), d), sql_get_user = \<lambda>q t d. (Inl SqlNoRows, d),
     sql_get_client = \<lambda>i t d. (Inl SqlNoRows, d), sql_get_token = \<lambda>q t d. (Inl SqlNoRows, d),
     sql_active_tokens = \<lambda>u t d. (Inr [], d), sql_view = id,
     sql_eq = (=), sql_json = Some,
     sql_datetime = \<lambda>t. (t + 500000000) div second * second, sql_now = numeric_date,
     rand32 = \<lambda>n. Some (replicate 32 (char_of n)), new_uuid = ref_uuid,
     bcrypt_gen = \<lambda>n p. Some (ref_hash p), bcrypt_matches = \<lambda>h p. h = ref_hash p,
     jwt_sign = ref_jwt_sign, jwt_parse = ref_jwt_parse,
     time_text = ref_time_text, time_parse = ref_time_parse,
     go_quote = \<lambda>s. ''\"'' @ s @ ''\"''\<rparr>"

text \<open>The statements are the documented ones, over the columns above.\<close>

definition ref_ext :: "(redis_store, tables) ext" where
  "ref_ext = ref_libs\<lparr>
     sql_exec := sem_exec ref_libs,
     sql_get_user := \<lambda>q t. sem_get_user ref_libs q,
     sql_get_client := \<lambda>i t. sem_get_client ref_libs i,
     sql_get_token := \<lambda>q t. sem_get_token ref_libs q,
     sql_active_tokens := sem_active_tokens ref_libs\<rparr>"

definition ref_tables :: tables where
  "ref_tables = \<lparr>t_users = [], t_clients = [], t_tokens = []\<rparr>"

definition ref_world :: "(redis_store, tables) world" where
  "ref_world = \<lparr>now = 0, draws = 0, rds = Map.empty, sdb = ref_tables\<rparr>"

section \<open>It is as documented\<close>

lemma ref_ext_simps [simp]:
  "r_view ref_ext = id" "sql_view ref_ext = id" "sql_eq ref_ext = (=)" "sql_json ref_ext = Some"
  "sql_datetime ref_ext = (\<lambda>t. (t + 500000000) div second * second)"
  "sql_now ref_ext = numeric_date"
  "rand32 ref_ext = (\<lambda>n. Some (replicate 32 (char_of n)))" "new_uuid ref_ext = ref_uuid"
  "bcrypt_gen ref_ext = (\<lambda>n p. Some (ref_hash p))"
  "bcrypt_matches ref_ext = (\<lambda>h p. h = ref_hash p)"
  "jwt_sign ref_ext = ref_jwt_sign" "jwt_parse ref_ext = ref_jwt_parse"
  "time_text ref_ext = ref_time_text" "time_parse ref_ext = ref_time_parse"
  "go_quote ref_ext = (\<lambda>s. ''\"'' @ s @ ''\"'')"
  by (simp_all add: ref_ext_def ref_libs_def)

lemma ref_sem:
  "sem_exec ref_libs s t T = sem_exec ref_ext s t T"
  "sem_get_user ref_libs = sem_get_user ref_ext" "sem_get_client ref_libs = sem_get_client ref_ext"
  "sem_get_token ref_libs = sem_get_token ref_ext"
  "sem_active_tokens ref_libs = sem_active_tokens ref_ext"
proof -
  have c: "sql_eq ref_libs = (=)" "sql_json ref_libs = Some" "sql_now ref_libs = sql_now ref_ext"
    "sql_datetime ref_libs = sql_datetime ref_ext"
    by (simp_all add: ref_libs_def)
  show "sem_exec ref_libs s t T = sem_exec ref_ext s t T"
    by (cases s) (simp_all add: c del: ref_ext_simps(5,6))
  have u: "user_where ref_libs = user_where ref_ext"
    by (intro ext, rename_tac q u, case_tac q) (simp_all add: c)
  have k: "token_where ref_libs = token_where ref_ext"
    by (intro ext, rename_tac q u, case_tac q) (simp_all add: c)
  show "sem_get_user ref_libs = sem_get_user ref_ext"
    by (intro ext) (simp add: sem_get_user_def u)
  show "sem_get_client ref_libs = sem_get_client ref_ext"
    by (intro ext) (simp add: sem_get_client_def c)
  show "sem_get_token ref_libs = sem_get_token ref_ext"
    by (intro ext) (simp add: sem_get_token_def k)
  show "sem_active_tokens ref_libs = sem_active_tokens ref_ext"
    by (intro ext) (simp add: sem_active_tokens_def c)
qed

lemma ref_calls [simp]:
  "r_set ref_ext = sem_set" "r_get ref_ext = sem_get" "r_getdel ref_ext = sem_getdel"
  "r_del ref_ext = sem_del" "r_exists ref_ext = sem_exists" "r_ttl ref_ext = sem_ttl"
  "sql_exec ref_ext = sem_exec ref_ext" "sql_get_user ref_ext = (\<lambda>q t. sem_get_user ref_ext q)"
  "sql_get_client ref_ext = (\<lambda>i t. sem_get_client ref_ext i)"
  "sql_get_token ref_ext = (\<lambda>q t. sem_get_token ref_ext q)"
  "sql_active_tokens ref_ext = sem_active_tokens ref_ext"
  by (simp_all add: ref_sem [symmetric] fun_eq_iff) (simp_all add: ref_ext_def ref_libs_def ref_sem)

lemma rounded_ttl:
  fixes e t :: int
  assumes "t < e"
  defines "d \<equiv> (e div millisecond - t div millisecond + 500) div 1000 * second"
  shows "0 \<le> d \<and> second dvd d \<and> \<bar>d - (e - t)\<bar> \<le> second"
proof -
  define a where "a = e div 1000000 - t div 1000000"
  have e: "e = 1000000 * (e div 1000000) + e mod 1000000"
    and t: "t = 1000000 * (t div 1000000) + t mod 1000000" by simp_all
  have "0 \<le> e mod 1000000" "e mod 1000000 < 1000000"
    "0 \<le> t mod 1000000" "t mod 1000000 < 1000000" by simp_all
  then have near: "\<bar>1000000 * a - (e - t)\<bar> \<le> 1000000"
    using e t unfolding a_def by arith
  have "t div 1000000 \<le> e div 1000000" by (rule zdiv_mono1) (use assms(1) in simp_all)
  then have pos: "0 \<le> (a + 500) div 1000" by (simp add: a_def)
  have "a + 500 = 1000 * ((a + 500) div 1000) + (a + 500) mod 1000"
    "0 \<le> (a + 500) mod 1000" "(a + 500) mod 1000 < 1000" by simp_all
  then have round: "\<bar>1000000000 * ((a + 500) div 1000) - 1000000 * a\<bar> \<le> 500000000" by arith
  have d: "d = (a + 500) div 1000 * second" by (simp add: d_def a_def millisecond_def)
  show ?thesis
    using near round pos unfolding d second_def by auto
qed

lemma ref_ttl: "ttl_complies up ref_ext"
  using rounded_ttl
  by (auto simp: ttl_complies_def ttl_reply_def sem_ttl_def live_def split: option.splits if_splits)

lemma ref_redis: "redis_spec up ref_ext"
  by (simp add: redis_spec_def redis_complies_exact ref_ttl)

lemma ref_mysql: "mysql_spec up ref_ext"
  by (simp add: mysql_spec_def complies_exact)

lemma ref_columns: "columns_ok ref_ext"
proof -
  have "2 * \<bar>(t + 500000000) div second * second - t\<bar> \<le> second" for t
  proof -
    have "0 \<le> (t + 500000000) mod second" "(t + 500000000) mod second < second"
      by (simp_all add: second_def)
    moreover have "(t + 500000000) div second * second = t + 500000000 - (t + 500000000) mod second"
      by (simp add: minus_mod_eq_div_mult [symmetric])
    ultimately show ?thesis by (simp add: second_def)
  qed
  then show ?thesis by (simp add: columns_ok_def)
qed

lemma ascii_hex: "lower_hex s \<Longrightarrow> ascii s"
  by (auto simp: lower_hex_def ascii_def dest!: subsetD)

lemma ref_time_codec: "time_codec ref_time_text ref_time_parse"
  by (auto simp: time_codec_def ref_time_text_def ref_time_parse_def split: if_splits)

lemma ascii_take: "ascii s \<Longrightarrow> ascii (take n s)"
  by (auto simp: ascii_def dest: in_set_takeD)

lemma ref_library: "library_ok ref_ext"
proof -
  have "length (ref_hash p) = 60" "ascii (ref_hash p)" for p
    by (auto simp: ref_hash_def ascii_take ascii_hex intro!: ascii_take) (auto simp: ascii_def)
  moreover have "uuid_text (ref_uuid n)" for n
    using hex_char_lower [of "n mod 16"] by (auto simp: uuid_text_def ref_uuid_def)
  ultimately show ?thesis by (simp add: library_ok_def ref_time_codec)
qed

lemma ref_jwt: "jwt_ok ref_ext"
proof -
  have "if t < numeric_date (ic_ExpiresAt c) then ref_jwt_parse kf t tok = Inr (stamped c, True)
      else \<exists>e. ref_jwt_parse kf t tok = Inl e"
    if s: "ref_jwt_sign c = Some tok" and k: "kf ''RS256'' = Inr ()" for c tok kf t
  proof -
    obtain i e where i: "ref_time_text (numeric_date (ic_IssuedAt c)) = Some i"
      and e: "ref_time_text (numeric_date (ic_ExpiresAt c)) = Some e"
      and tok: "tok = json_text (JArr (map JStr
        [ic_UserID c, ic_Email c, ic_ClientID c, ic_Scope c, ic_ID c, i, e]))"
      using s by (auto simp: ref_jwt_sign_def split: option.splits)
    have p: "to_valid i = i" "to_valid e = e"
      "ref_time_parse i = Some (numeric_date (ic_IssuedAt c))"
      "ref_time_parse e = Some (numeric_date (ic_ExpiresAt c))"
      using ref_time_codec i e by (auto simp: time_codec_def to_valid_ascii)
    have "json_unmarshal tok = Some (valid_json (JArr (map JStr
        [ic_UserID c, ic_Email c, ic_ClientID c, ic_Scope c, ic_ID c, i, e])))"
      unfolding tok by (rule json_roundtrip) (simp add: json_max_depth_def)
    then show ?thesis
      by (simp add: ref_jwt_parse_def k p stamped_def)
  qed
  moreover have "kf ''RS256'' = Inr ()" if "ref_jwt_parse kf t raw = Inr x" for kf t raw x
    using that by (cases "kf ''RS256''") (simp_all add: ref_jwt_parse_def)
  ultimately show ?thesis
    unfolding jwt_ok_def by (simp only: ref_ext_simps) blast
qed

end
