(* ===== verification/AuthService.thy ===== *)
theory AuthService
  imports RedisRepos SqlRepos TokenService Reference
begin

text \<open>
  \<open>internal/service/auth.go\<close>: registration and login of users, logout, the legacy refresh of an
  access token, and the decision procedure of \<open>GET /oauth/authorize\<close>.
\<close>

section \<open>Data\<close>

datatype authorize_action =
  ActionIssueCode | ActionRequireLogin | ActionErrorToClient | ActionRejectDirect

record authorize_result =
  az_Action :: authorize_action
  az_RedirectURI :: gostring
  az_State :: gostring
  az_Code :: gostring
  az_OAuthError :: gostring
  az_Message :: gostring

text \<open>A result of which only the action is set.\<close>

definition plain_result :: "authorize_action \<Rightarrow> authorize_result" where
  "plain_result a = \<lparr>az_Action = a, az_RedirectURI = [], az_State = [], az_Code = [],
     az_OAuthError = [], az_Message = []\<rparr>"

section \<open>Operations\<close>

definition hashToken :: "gostring \<Rightarrow> gostring" where
  "hashToken t = hex (sha256 t)"

definition Register :: "('r, 'd) ext \<Rightarrow> register_input \<Rightarrow> ('r, 'd, user) prog" where
  "Register X inp = do {
     existing \<leftarrow> User_GetByEmail X (ri_Email inp);
     case existing of
       Inl e \<Rightarrow> ret (Inl (wrap ''AuthService.Register'' e))
     | Inr (Some _) \<Rightarrow> ret (Inl ErrEmailTaken)
     | Inr None \<Rightarrow> do {
         hash \<leftarrow> draw (\<lambda>n. bcrypt_gen X n (ri_Password inp));
         case hash of
           None \<Rightarrow> ret (Inl (wrap ''AuthService.Register bcrypt'' (ErrNew ''bcrypt'')))
         | Some h \<Rightarrow> do {
             i \<leftarrow> draw (new_uuid X);
             let u = \<lparr>us_ID = i, us_Email = ri_Email inp, us_PasswordHash = h,
               us_CreatedAt = zero_time\<rparr>;
             r \<leftarrow> User_Create X u;
             ret (case r of
               Inl e \<Rightarrow> Inl (wrap ''AuthService.Register'' e)
             | Inr _ \<Rightarrow> Inr u)
           }
       }
   }"

definition Login :: "('r, 'd) ext \<Rightarrow> login_request \<Rightarrow> ('r, 'd, login_result) prog" where
  "Login X req = do {
     found \<leftarrow> User_GetByEmail X (lq_Email req);
     case found of
       Inl e \<Rightarrow> ret (Inl (wrap ''AuthService.Login'' e))
     | Inr None \<Rightarrow> ret (Inl ErrEmailOrPasswordWrong)
     | Inr (Some u) \<Rightarrow>
         if \<not> bcrypt_matches X (us_PasswordHash u) (lq_Password req)
         then ret (Inl ErrEmailOrPasswordWrong)
         else do {
           r \<leftarrow> Session_Create X (us_ID u) (us_Email u);
           ret (case r of
             Inl e \<Rightarrow> Inl (wrap ''AuthService.Login creating session'' e)
           | Inr (sessionID, expiresAt) \<Rightarrow>
               Inr \<lparr>lr_SessionID = sessionID, lr_ExpiresAt = expiresAt\<rparr>)
         }
   }"

definition Logout :: "('r, 'd) ext \<Rightarrow> gostring \<Rightarrow> ('r, 'd, unit) prog" where
  "Logout X sessionID = (if sessionID = [] then ret (Inr ()) else Session_Destroy X sessionID)"

text \<open>The user is dereferenced without a test for \<open>nil\<close>.\<close>

definition RefreshToken :: "('r, 'd) ext \<Rightarrow> gostring \<Rightarrow> ('r, 'd, refresh_response) prog" where
  "RefreshToken X refreshTokenRaw = do {
     found \<leftarrow> Token_GetTokenByHash X (hashToken refreshTokenRaw);
     case found of
       Inl e \<Rightarrow> ret (Inl (wrap ''AuthService.RefreshToken'' e))
     | Inr None \<Rightarrow> ret (Inl (ErrNew ''refresh token not found''))
     | Inr (Some refreshToken) \<Rightarrow> do {
         t \<leftarrow> time_Now;
         if rt_ExpiresAt refreshToken < t then ret (Inl (ErrNew ''refresh token expired''))
         else do {
           owner \<leftarrow> User_GetByID X (rt_UserID refreshToken);
           case owner of
             Inl e \<Rightarrow> ret (Inl (wrap ''AuthService.RefreshToken, user not found'' e))
           | Inr None \<Rightarrow> ret (Inl (Panic ''invalid memory address or nil pointer dereference''))
           | Inr (Some u) \<Rightarrow> do {
               r \<leftarrow> IssueAccessToken X (us_ID u) (us_Email u) (rt_ClientID refreshToken)
                      (join (elems (rt_Scope refreshToken)) '' '');
               ret (case r of
                 Inl e \<Rightarrow> Inl (wrap ''AuthService.Login issuing access token'' e)
               | Inr a \<Rightarrow> Inr \<lparr>rr_AccessToken = at_AccessTokenString a,
                   rr_AccessTokenExpiryIn = at_AccessTokenExpiresIn a\<rparr>)
             }
         }
       }
   }"

definition SessionByID :: "('r, 'd) ext \<Rightarrow> gostring \<Rightarrow> ('r, 'd, session option) prog" where
  "SessionByID X sessionID = (if sessionID = [] then ret (Inr None) else do {
     r \<leftarrow> Session_Get X sessionID;
     ret (case r of
       Inl e \<Rightarrow> (if err_is e ErrSessionNotFound then Inr None
                 else Inl (wrap ''AuthService.SessionByID'' e))
     | Inr sess \<Rightarrow> Inr (Some sess))
   })"

definition errorToClient :: "authorize_request \<Rightarrow> gostring \<Rightarrow> authorize_result" where
  "errorToClient req oauthError = (plain_result ActionErrorToClient)
     \<lparr>az_RedirectURI := aq_RedirectURI req, az_State := aq_State req, az_OAuthError := oauthError\<rparr>"

definition Authorize :: "('r, 'd) ext \<Rightarrow> authorize_request \<Rightarrow> gostring
    \<Rightarrow> ('r, 'd, authorize_result) prog" where
  "Authorize X req inSessionID = do {
     found \<leftarrow> Client_GetByID X (aq_ClientID req);
     case found of
       Inl e \<Rightarrow> ret (Inl (wrap ''AuthService.Authorize'' e))
     | Inr None \<Rightarrow> ret (Inr ((plain_result ActionRejectDirect)\<lparr>az_Message := ''unknown client_id''\<rparr>))
     | Inr (Some client) \<Rightarrow>
         if aq_RedirectURI req \<notin> set (elems (cl_RedirectURIs client))
         then ret (Inr ((plain_result ActionRejectDirect)
                \<lparr>az_Message := ''redirect_uri is not registered for this client''\<rparr>))
         else
           let requested = Fields (aq_Scope req) in
           if requested = [] \<or> \<not> ContainsAll (elems (cl_Scopes client)) requested
           then ret (Inr (errorToClient req ''invalid_scope''))
           else
             let prompts = Fields (aq_Prompt req); promptNone = ''none'' \<in> set prompts in
             if promptNone \<and> length prompts > 1
             then ret (Inr (errorToClient req ''invalid_request''))
             else do {
               sess \<leftarrow> SessionByID X inSessionID;
               case sess of
                 Inl e \<Rightarrow> ret (Inl (wrap ''AuthService.Authorize'' e))
               | Inr None \<Rightarrow>
                   if promptNone then ret (Inr (errorToClient req ''login_required''))
                   else ret (Inr (plain_result ActionRequireLogin))
               | Inr (Some s) \<Rightarrow> do {
                   r \<leftarrow> AuthCode_Create X \<lparr>ac_ClientID = cl_ID client,
                     ac_UserID = se_UserID s, ac_RedirectURI = aq_RedirectURI req,
                     ac_Scope = Some requested, ac_CodeChallenge = aq_CodeChallenge req,
                     ac_CodeChallengeMethod = aq_CodeChallengeMethod req,
                     ac_Nonce = aq_Nonce req, ac_CreatedAt = zero_time\<rparr>;
                   ret (case r of
                     Inl e \<Rightarrow> Inl (wrap ''AuthService.Authorize'' e)
                   | Inr code \<Rightarrow> Inr ((plain_result ActionIssueCode)
                       \<lparr>az_RedirectURI := aq_RedirectURI req, az_State := aq_State req,
                        az_Code := code\<rparr>))
                 }
             }
   }"

section \<open>What a call reads and leaves\<close>

lemma Auth_frame [frame]:
  "keeps_field now (Register X inp)" "keeps_field rds (Register X inp)"
  "keeps_field now (Login X lreq)"
  "keeps_field now (Logout X i)" "keeps_field sdb (Logout X i)" "keeps_field draws (Logout X i)"
  "keeps_field now (RefreshToken X t)" "keeps_field rds (RefreshToken X t)"
  "keeps_field now (SessionByID X i)" "keeps_field sdb (SessionByID X i)"
  "keeps_field draws (SessionByID X i)"
  "keeps_field now (Authorize X req i)"
  unfolding Register_def Login_def Logout_def RefreshToken_def SessionByID_def Authorize_def Let_def
  by (intro keeps_field_intros keeps_field_case_prod frame)+

text \<open>The registered client with an identifier, the live session behind a cookie value.\<close>

definition client_at :: "('r, 'd) ext \<Rightarrow> ('r, 'd) world \<Rightarrow> gostring \<Rightarrow> client option" where
  "client_at X w i = (case client_rows X w i of
     None \<Rightarrow> None
   | Some row \<Rightarrow> (case scan_client row of Inl e \<Rightarrow> None | Inr c \<Rightarrow> Some c))"

definition session_of :: "('r, 'd) ext \<Rightarrow> ('r, 'd) world \<Rightarrow> gostring \<Rightarrow> session option" where
  "session_of X w i = (if i = [] then None else session_at X w i)"

text \<open>The parts of the world a call has not touched.\<close>

definition same_world :: "('r, 'd) ext \<Rightarrow> ('r, 'd) world \<Rightarrow> ('r, 'd) world \<Rightarrow> bool" where
  "same_world X w w' \<longleftrightarrow> now w' = now w \<and> draws w' = draws w
     \<and> store X w' = store X w \<and> tables_of X w' = tables_of X w"

lemma same_world_refl [simp]: "same_world X w w"
  by (simp add: same_world_def)

lemma same_world_trans: "same_world X w w1 \<Longrightarrow> same_world X w1 w2 \<Longrightarrow> same_world X w w2"
  by (simp add: same_world_def)

lemma same_world_reads:
  assumes "same_world X w w'"
  shows "client_at X w' = client_at X w" "session_of X w' = session_of X w"
    "session_at X w' = session_at X w" "code_at X w' = code_at X w"
    "cached X w' = cached X w" "store X w' = store X w" "tables_of X w' = tables_of X w"
    "now w' = now w" "draws w' = draws w"
  using assms
  by - ((intro ext)?; simp add: same_world_def client_at_def session_of_def session_at_def
      code_at_def cached_def)+

lemma sql_reads:
  assumes "mysql_spec up X"
  shows "run (Client_GetByID X i) w = (rc, w') \<Longrightarrow> same_world X w w'"
    and "run (User_GetByEmail X e) w = (ru, w') \<Longrightarrow> same_world X w w'"
    and "run (User_GetByID X i) w = (ru, w') \<Longrightarrow> same_world X w w'"
    and "run (Token_GetTokenByHash X h) w = (rt, w') \<Longrightarrow> same_world X w w'"
proof -
  have *: "sql_only m \<Longrightarrow> run m w = (r, w') \<Longrightarrow> tables_of X w' = tables_of X w \<Longrightarrow> same_world X w w'"
    for m :: "(('a, 'b) world, 'c) state" and r
    using keeps_field_runD [of "\<lambda>w. (now w, draws w, rds w)" m w r w']
    by (simp add: same_world_def store_def sql_only_def)
  show "run (Client_GetByID X i) w = (rc, w') \<Longrightarrow> same_world X w w'"
    using * [OF sql_only_ops(6)] Client_GetByID_cases(1) [OF assms] by blast
  show "run (User_GetByEmail X e) w = (ru, w') \<Longrightarrow> same_world X w w'"
    using * [OF sql_only_ops(3)] User_GetByEmail_cases(1) [OF assms] by blast
  show "run (User_GetByID X i) w = (ru, w') \<Longrightarrow> same_world X w w'"
    using * [OF sql_only_ops(2)] User_GetByID_cases(1) [OF assms] by blast
  show "run (Token_GetTokenByHash X h) w = (rt, w') \<Longrightarrow> same_world X w w'"
    using * [OF sql_only_ops(9)] get_token_cases(1) [OF assms]
    unfolding Token_GetTokenByHash_def by blast
qed

lemma client_lookup:
  assumes "mysql_spec up X" and "run (Client_GetByID X i) w = (Inr co, w')"
  shows "co = client_at X w i"
  using Client_GetByID_cases(2,3) [OF assms] 
  by (cases co) (auto simp: client_at_def)

lemma SessionByID_cases:
  assumes "redis_spec up X" and "run (SessionByID X i) w = (r, w')"
  shows "store X w' = store X w" and "r = Inr so \<Longrightarrow> so = session_of X w i"
    and "up \<Longrightarrow> session_of X w i = Some s \<Longrightarrow> r = Inr (Some s)"
    and "up \<Longrightarrow> i = [] \<or> cached X w (sessionKeyPrefix @ i) = None \<Longrightarrow> r = Inr None"
proof -
  have nil: "r = Inr None \<and> w' = w" if "i = []"
    using assms(2) that by (simp add: SessionByID_def)
  obtain res where g: "i \<noteq> [] \<Longrightarrow> run (Session_Get X i) w = (res, w')"
    and r: "i \<noteq> [] \<Longrightarrow> r = (case res of
         Inl e \<Rightarrow> (if err_is e ErrSessionNotFound then Inr None
                   else Inl (wrap ''AuthService.SessionByID'' e))
       | Inr sess \<Rightarrow> Inr (Some sess))"
    using assms(2) by (cases "i = []") (auto simp: SessionByID_def split: prod.splits)
  note G = Session_Get_cases [OF assms(1) g]
  show "store X w' = store X w"
    using nil G(3) by (cases "i = []") auto
  show "r = Inr so \<Longrightarrow> so = session_of X w i"
    using nil r G(1) [of "the so"] G(2)
    by (cases "i = []"; cases res) (auto simp: session_of_def split: if_splits)
  show "r = Inr (Some s)" if "up" "session_of X w i = Some s"
    using that r G(4) [of s] by (cases "i = []") (auto simp: session_of_def)
  show "r = Inr None" if "up" "i = [] \<or> cached X w (sessionKeyPrefix @ i) = None"
    using that nil r G(5) by (cases "i = []") auto
qed

lemma SessionByID_same:
  "redis_spec up X \<Longrightarrow> run (SessionByID X i) w = (r, w') \<Longrightarrow> same_world X w w'"
  using SessionByID_cases(1) keeps_field_runD [OF Auth_frame(9)] keeps_field_runD [OF Auth_frame(10)]
    keeps_field_runD [OF Auth_frame(11)]
  by (fastforce simp: same_world_def tables_of_def)

section \<open>What Authorize decides\<close>

text \<open>
  The rules of the endpoint over the registered client and the live session, without the
  order in which the code looks them up: who may not be redirected to, what goes back to the
  client as an error, who has to log in, and what a code is issued for.
\<close>

datatype decision =
    Reject gostring
  | ToClient gostring
  | NeedLogin
  | Issue client session

definition scope_granted :: "client \<Rightarrow> gostring \<Rightarrow> bool" where
  "scope_granted c scope \<longleftrightarrow> Fields scope \<noteq> [] \<and> set (Fields scope) \<subseteq> set (elems (cl_Scopes c))"

definition prompt_none :: "authorize_request \<Rightarrow> bool" where
  "prompt_none req \<longleftrightarrow> ''none'' \<in> set (Fields (aq_Prompt req))"

definition decide :: "client option \<Rightarrow> session option \<Rightarrow> authorize_request \<Rightarrow> decision" where
  "decide co so req = (case co of
     None \<Rightarrow> Reject ''unknown client_id''
   | Some c \<Rightarrow>
       if aq_RedirectURI req \<notin> set (elems (cl_RedirectURIs c))
       then Reject ''redirect_uri is not registered for this client''
       else if \<not> scope_granted c (aq_Scope req) then ToClient ''invalid_scope''
       else if prompt_none req \<and> length (Fields (aq_Prompt req)) \<noteq> 1 then ToClient ''invalid_request''
       else (case so of
           Some s \<Rightarrow> Issue c s
         | None \<Rightarrow> if prompt_none req then ToClient ''login_required'' else NeedLogin))"

definition code_for :: "authorize_request \<Rightarrow> client \<Rightarrow> session \<Rightarrow> auth_code" where
  "code_for req c s = \<lparr>ac_ClientID = cl_ID c, ac_UserID = se_UserID s,
     ac_RedirectURI = aq_RedirectURI req, ac_Scope = Some (Fields (aq_Scope req)),
     ac_CodeChallenge = aq_CodeChallenge req, ac_CodeChallengeMethod = aq_CodeChallengeMethod req,
     ac_Nonce = aq_Nonce req, ac_CreatedAt = zero_time\<rparr>"

lemma prompt_none_many: "x \<in> set xs \<Longrightarrow> Suc 0 < length xs \<longleftrightarrow> length xs \<noteq> Suc 0"
  by (cases xs) auto

text \<open>The outcome of a run that answers, and the state it leaves.\<close>

definition outcome_of :: "authorize_request \<Rightarrow> decision \<Rightarrow> gostring \<Rightarrow> authorize_result" where
  "outcome_of req d code = (case d of
     Reject m \<Rightarrow> (plain_result ActionRejectDirect)\<lparr>az_Message := m\<rparr>
   | ToClient e \<Rightarrow> (plain_result ActionErrorToClient)\<lparr>az_RedirectURI := aq_RedirectURI req,
       az_State := aq_State req, az_OAuthError := e\<rparr>
   | NeedLogin \<Rightarrow> plain_result ActionRequireLogin
   | Issue c s \<Rightarrow> (plain_result ActionIssueCode)\<lparr>az_RedirectURI := aq_RedirectURI req,
       az_State := aq_State req, az_Code := code\<rparr>)"

lemma Authorize_stages:
  assumes "redis_spec up X" "mysql_spec up X" and "run (Authorize X req sid) w = (r, w')"
  defines "d \<equiv> decide (client_at X w (aq_ClientID req)) (session_of X w sid) req"
  obtains (failed) e where "r = Inl e" "same_world X w w'"
        "up \<Longrightarrow> client_rows X w (aq_ClientID req) \<noteq> None \<and> client_at X w (aq_ClientID req) = None
          \<or> sid \<noteq> [] \<and> cached X w (sessionKeyPrefix @ sid) \<noteq> None \<and> session_of X w sid = None"
    | (quiet) "\<nexists>c s. d = Issue c s" "r = Inr (outcome_of req d code)" "same_world X w w'"
    | (issue) c s w1 rc where "d = Issue c s" "same_world X w w1"
        "run (AuthCode_Create X (code_for req c s)) w1 = (rc, w')"
        "r = (case rc of Inl e \<Rightarrow> Inl (wrap ''AuthService.Authorize'' e)
           | Inr code \<Rightarrow> Inr (outcome_of req d code))"
proof -
  obtain found w1 where f: "run (Client_GetByID X (aq_ClientID req)) w = (found, w1)" by fastforce
  note f1 = sql_reads(1) [OF assms(2) f] and R = assms(3) [unfolded Authorize_def run_bind_Pair [OF f]]
  show thesis
  proof (cases found)
    case (Inl e)
    have "client_rows X w (aq_ClientID req) \<noteq> None \<and> client_at X w (aq_ClientID req) = None" if up
      using Client_GetByID_cases(4) [OF assms(2) f Inl that] by (auto simp: client_at_def)
    with R f1 Inl show thesis by (intro failed) auto
  next
  case (Inr co)
  then have co: "co = client_at X w (aq_ClientID req)" and found: "found = Inr co"
    using client_lookup [OF assms(2)] f by auto
  show thesis
  proof (cases "\<exists>c. co = Some c \<and> aq_RedirectURI req \<in> set (elems (cl_RedirectURIs c))
      \<and> scope_granted c (aq_Scope req)
      \<and> \<not> (prompt_none req \<and> length (Fields (aq_Prompt req)) \<noteq> 1)")
    case False
    have "(\<nexists>c s. d = Issue c s) \<and> r = Inr (outcome_of req d code) \<and> w' = w1"
    proof (cases co)
      case None
      then show ?thesis using R by (simp add: found d_def decide_def co [symmetric] outcome_of_def)
    next
      case (Some c)
      note S = found d_def decide_def co [symmetric] outcome_of_def errorToClient_def Let_def Some
        scope_granted_def prompt_none_def prompt_none_many
      consider "aq_RedirectURI req \<notin> set (elems (cl_RedirectURIs c))"
        | "aq_RedirectURI req \<in> set (elems (cl_RedirectURIs c))" "\<not> scope_granted c (aq_Scope req)"
        | "aq_RedirectURI req \<in> set (elems (cl_RedirectURIs c))" "scope_granted c (aq_Scope req)"
          "prompt_none req" "length (Fields (aq_Prompt req)) \<noteq> 1"
        using False Some by blast
      then show ?thesis
      proof cases
        case 1
        then show ?thesis using R by (simp add: S del: bex_simps ball_simps)
      next
        case 2
        then show ?thesis using R by (cases "Fields (aq_Scope req) = []") (simp_all add: S)
      next
        case 3
        then show ?thesis using R by (simp add: S)
      qed
    qed
    with f1 quiet show thesis by auto
  next
    case True
    then obtain c where c: "co = Some c" "aq_RedirectURI req \<in> set (elems (cl_RedirectURIs c))"
      "scope_granted c (aq_Scope req)" "\<not> (prompt_none req \<and> length (Fields (aq_Prompt req)) \<noteq> 1)"
      by blast
    have tests: "Fields (aq_Scope req) \<noteq> []" "ContainsAll (elems (cl_Scopes c)) (Fields (aq_Scope req))"
      "(''none'' \<in> set (Fields (aq_Prompt req)) \<and> 1 < length (Fields (aq_Prompt req))) = False"
      using c(3,4) by (auto simp: scope_granted_def prompt_none_def prompt_none_many)
    let ?k = "\<lambda>so. (case so of None \<Rightarrow> if prompt_none req then ret (Inr (errorToClient req ''login_required''))
                   else ret (Inr (plain_result ActionRequireLogin))
       | Some s \<Rightarrow> do {
           r \<leftarrow> AuthCode_Create X (code_for req c s);
           ret (case r of
             Inl e \<Rightarrow> Inl (wrap ''AuthService.Authorize'' e)
           | Inr code \<Rightarrow> Inr ((plain_result ActionIssueCode)
               \<lparr>az_RedirectURI := aq_RedirectURI req, az_State := aq_State req, az_Code := code\<rparr>))
         })"
    have R1: "run (do {
        sess \<leftarrow> SessionByID X sid;
        case sess of Inl e \<Rightarrow> ret (Inl (wrap ''AuthService.Authorize'' e))
        | Inr so \<Rightarrow> ?k so }) w1 = (r, w')"
      using R by (simp only: found c(1,2) tests sum.case option.case Let_def code_for_def
          prompt_none_def not_True_eq_False not_False_eq_True if_False disj_not1 simp_thms)
    obtain sess w2 where s: "run (SessionByID X sid) w1 = (sess, w2)" by fastforce
    have w2: "same_world X w w2"
      using f1 SessionByID_same [OF assms(1) s] by (rule same_world_trans)
    show thesis
    proof (cases sess)
    case (Inl e)
    have "sid \<noteq> [] \<and> cached X w (sessionKeyPrefix @ sid) \<noteq> None \<and> session_of X w sid = None" if up
      using SessionByID_cases(3) [OF assms(1) s that] SessionByID_cases(4) [OF assms(1) s that] Inl
        same_world_reads(2,5) [OF f1] by (cases "session_of X w sid") auto
    with R1 w2 Inl show thesis unfolding run_bind_Pair [OF s] by (intro failed) auto
    next
    case sess: (Inr so)
    have so: "so = session_of X w sid"
      using SessionByID_cases(2) [OF assms(1) s sess] by (simp add: same_world_reads [OF f1])
    have R2: "run (?k so) w2 = (r, w')"
      using R1 unfolding run_bind_Pair [OF s] sess by simp
    have d: "d = (case so of Some s \<Rightarrow> Issue c s
         | None \<Rightarrow> if prompt_none req then ToClient ''login_required'' else NeedLogin)"
      using c by (simp add: d_def decide_def co [symmetric] so [symmetric])
    show thesis
    proof (cases so)
      case None
      with R2 d w2 show thesis
        by (intro quiet) (auto simp: outcome_of_def errorToClient_def split: if_splits)
    next
      case (Some s)
      obtain rc where a: "run (AuthCode_Create X (code_for req c s)) w2 = (rc, w')"
        using R2 Some by (auto split: prod.splits)
      show thesis
        using R2 Some a d w2 by (intro issue [of c s w2 rc]) (auto simp: outcome_of_def split: sum.splits)
    qed
    qed
  qed
  qed
qed

lemma Authorize_Inr:
  assumes "redis_spec up X" "mysql_spec up X" and "run (Authorize X req sid) w = (Inr res, w')"
  defines "d \<equiv> decide (client_at X w (aq_ClientID req)) (session_of X w sid) req"
  obtains (quiet) "\<nexists>c s. d = Issue c s" "res = outcome_of req d code" "same_world X w w'"
    | (issued) c s w1 code where "d = Issue c s" "res = outcome_of req d code"
        "same_world X w w1" "run (AuthCode_Create X (code_for req c s)) w1 = (Inr code, w')"
  using assms(1-3)
proof (cases rule: Authorize_stages [where code = code])
  case quiet
  with that(1) show ?thesis unfolding d_def by simp
next
  case (issue c s w1 rc)
  then show ?thesis using that(2) unfolding d_def by (cases rc) auto
qed simp

text \<open>With both servers up, a request that may have a code gets one.\<close>

lemma Authorize_issues:
  assumes "redis_spec True X" "mysql_spec True X" and "run (Authorize X req sid) w = (r, w')"
    and "decide (client_at X w (aq_ClientID req)) (session_of X w sid) req = Issue c s"
    and "rand32 X (draws w) \<noteq> None" "time_text X (now w) \<noteq> None"
  shows "\<exists>res. r = Inr res \<and> az_Action res = ActionIssueCode"
  using assms(1-3)
proof (cases rule: Authorize_stages [where code = "[]"])
  case (failed e)
  from failed(3) assms(4) show ?thesis
    by (auto simp: decide_def split: option.splits if_splits)
next
  case (issue c' s' w1 rc)
  obtain b where b: "rand32 X (draws w1) = Some b" and t: "time_text X (now w1) \<noteq> None"
    using assms(5,6) same_world_reads(8,9) [OF issue(2)] by auto
  show ?thesis
    using AuthCode_Create_cases(3) [OF assms(1) issue(3) TrueI b t] issue(1,4)
    by (auto simp: outcome_of_def plain_result_def)
qed (use assms(4) in simp)

text \<open>Whatever the outcome, the only change is one fresh code, and only when it may be issued.\<close>

lemma Authorize_bounds:
  assumes "redis_spec up X" "mysql_spec up X" and "run (Authorize X req sid) w = (r, w')"
  shows "tables_of X w' = tables_of X w"
    and "store X w' = store X w \<or> (\<exists>c s bytes payload.
        decide (client_at X w (aq_ClientID req)) (session_of X w sid) req = Issue c s
      \<and> rand32 X (draws w) = Some bytes
      \<and> marshal_auth_code (time_text X) (code_for req c s\<lparr>ac_CreatedAt := now w\<rparr>) = Some payload
      \<and> store X w' = (store X w)(authCodeKeyPrefix @ base64_raw_url bytes
          \<mapsto> (payload, Some (now w + authCodeTTL))))"
proof -
  have "tables_of X w' = tables_of X w \<and> (store X w' = store X w \<or> (\<exists>c s bytes payload.
        decide (client_at X w (aq_ClientID req)) (session_of X w sid) req = Issue c s
      \<and> rand32 X (draws w) = Some bytes
      \<and> marshal_auth_code (time_text X) (code_for req c s\<lparr>ac_CreatedAt := now w\<rparr>) = Some payload
      \<and> store X w' = (store X w)(authCodeKeyPrefix @ base64_raw_url bytes
          \<mapsto> (payload, Some (now w + authCodeTTL)))))"
    using assms
  proof (cases rule: Authorize_stages [where code = "[]"])
    case (issue c s w1 rc)
    note w1 = same_world_reads(6-9) [OF issue(2)]
    have "tables_of X w' = tables_of X w"
      using keeps_field_runD [OF code_ops_frame(2) issue(3)] w1(2) by (simp add: tables_of_def)
    with AuthCode_Create_cases(2) [OF assms(1) issue(3)] issue(1) w1 show ?thesis by auto
  qed (use same_world_reads(6,7) in blast)+
  then show "tables_of X w' = tables_of X w"
    and "store X w' = store X w \<or> (\<exists>c s bytes payload.
        decide (client_at X w (aq_ClientID req)) (session_of X w sid) req = Issue c s
      \<and> rand32 X (draws w) = Some bytes
      \<and> marshal_auth_code (time_text X) (code_for req c s\<lparr>ac_CreatedAt := now w\<rparr>) = Some payload
      \<and> store X w' = (store X w)(authCodeKeyPrefix @ base64_raw_url bytes
          \<mapsto> (payload, Some (now w + authCodeTTL))))" by blast+
qed

section \<open>Registration and login\<close>

definition user_by_email :: "('r, 'd) ext \<Rightarrow> ('r, 'd) world \<Rightarrow> gostring \<Rightarrow> user option" where
  "user_by_email X w e = List.find (\<lambda>u. sql_eq X (us_Email u) e) (t_users (tables_of X w))"

definition user_by_id :: "('r, 'd) ext \<Rightarrow> ('r, 'd) world \<Rightarrow> gostring \<Rightarrow> user option" where
  "user_by_id X w i = List.find (\<lambda>u. sql_eq X (us_ID u) i) (t_users (tables_of X w))"

lemma same_world_users:
  "same_world X w w' \<Longrightarrow> user_by_email X w' = user_by_email X w"
  "same_world X w w' \<Longrightarrow> user_by_id X w' = user_by_id X w"
  by (simp_all add: fun_eq_iff user_by_email_def user_by_id_def same_world_def)

text \<open>The user a password opens.\<close>

definition authenticates :: "('r, 'd) ext \<Rightarrow> ('r, 'd) world \<Rightarrow> login_request \<Rightarrow> user \<Rightarrow> bool" where
  "authenticates X w req u \<longleftrightarrow> user_by_email X w (lq_Email req) = Some u
     \<and> bcrypt_matches X (us_PasswordHash u) (lq_Password req)"

lemma Login_cases:
  assumes "redis_spec up X" "mysql_spec up X" and "run (Login X req) w = (r, w')"
  shows "r = Inr lr \<Longrightarrow> \<exists>u w1. authenticates X w req u \<and> same_world X w w1
      \<and> run (Session_Create X (us_ID u) (us_Email u)) w1 = (Inr (lr_SessionID lr, lr_ExpiresAt lr), w')"
    and "r = Inl ErrEmailOrPasswordWrong \<Longrightarrow> (\<nexists>u. authenticates X w req u) \<and> same_world X w w'"
    and "up \<Longrightarrow> \<nexists>u. authenticates X w req u \<Longrightarrow> r = Inl ErrEmailOrPasswordWrong"
    and "up \<Longrightarrow> authenticates X w req u \<Longrightarrow> time_text X (now w) \<noteq> None \<Longrightarrow> \<exists>lr. r = Inr lr"
proof -
  obtain found w1 where f: "run (User_GetByEmail X (lq_Email req)) w = (found, w1)" by fastforce
  note f1 = sql_reads(2) [OF assms(2) f]
  have found: "found = Inr uo \<Longrightarrow> uo = user_by_email X w (lq_Email req)"
    "up \<Longrightarrow> found = Inr (user_by_email X w (lq_Email req))" for uo
    using User_GetByEmail_cases(2,3) [OF assms(2) f] by (auto simp: user_by_email_def)
  note R = assms(3) [unfolded Login_def run_bind_Pair [OF f]]
  consider (failed) e where "found = Inl e" "r = Inl (wrap ''AuthService.Login'' e)" "w' = w1" "\<not> up"
    | (wrong) "\<nexists>u. authenticates X w req u" "r = Inl ErrEmailOrPasswordWrong" "w' = w1"
    | (session) u sr where "authenticates X w req u" 
        "run (Session_Create X (us_ID u) (us_Email u)) w1 = (sr, w')"
        "r = (case sr of Inl e \<Rightarrow> Inl (wrap ''AuthService.Login creating session'' e)
           | Inr (sessionID, expiresAt) \<Rightarrow> Inr \<lparr>lr_SessionID = sessionID, lr_ExpiresAt = expiresAt\<rparr>)"
  proof (cases found)
    case (Inl e)
    then show thesis using R found(2) by (intro failed) auto
  next
    case (Inr uo)
    show thesis
    proof (cases "\<exists>u. authenticates X w req u")
      case True
      then obtain u where u: "authenticates X w req u" by blast
      with Inr found(1) have uo: "uo = Some u" by (simp add: authenticates_def)
      obtain sr where c: "run (Session_Create X (us_ID u) (us_Email u)) w1 = (sr, w')"
        using R u by (auto simp: Inr uo authenticates_def split: prod.splits)
      show thesis
        using R u c by (intro session [OF u c]) (simp add: Inr uo authenticates_def)
    next
      case False
      with Inr found(1) R show thesis
        by (intro wrong) (auto simp: authenticates_def split: option.splits if_splits)
    qed
  qed
  note C = this
  show "\<exists>u w1. authenticates X w req u \<and> same_world X w w1
      \<and> run (Session_Create X (us_ID u) (us_Email u)) w1 = (Inr (lr_SessionID lr, lr_ExpiresAt lr), w')"
    if "r = Inr lr"
    using C
  proof cases
    case s: (session u sr)
    with f1 that show ?thesis by (intro exI [of _ u] exI [of _ w1]) (cases sr, auto)
  qed (use that in auto)
  show "r = Inl ErrEmailOrPasswordWrong \<Longrightarrow> (\<nexists>u. authenticates X w req u) \<and> same_world X w w'"
    using C f1 by cases (auto split: sum.splits)
  show "r = Inl ErrEmailOrPasswordWrong" if "up" "\<nexists>u. authenticates X w req u"
    using C that by cases auto
  show "\<exists>lr. r = Inr lr" if "up" "authenticates X w req u" "time_text X (now w) \<noteq> None"
    using C
  proof cases
    case s: (session u' sr)
    have "now w1 = now w" using f1 by (simp add: same_world_def)
    with Session_Create_cases(3) [OF assms(1) s(2)] that(1,3) s(3) show ?thesis by auto
  qed (use that in auto)
qed

lemma Register_Inr:
  assumes "mysql_spec up X" "library_ok X" and "run (Register X inp) w = (Inr u, w')"
  shows "us_Email u = ri_Email inp" "bcrypt_matches X (us_PasswordHash u) (ri_Password inp)"
    and "user_by_email X w (ri_Email inp) = None"
    and "tables_of X w' = (tables_of X w)\<lparr>t_users := t_users (tables_of X w) @ [user_row X w u]\<rparr>"
    and "\<not> (\<exists>v \<in> set (t_users (tables_of X w)). sql_eq X (us_ID v) (us_ID u))"
    and "store X w' = store X w"
proof -
  obtain found w1 where f: "run (User_GetByEmail X (ri_Email inp)) w = (found, w1)" by fastforce
  note f1 = sql_reads(2) [OF assms(1) f]
  note R = assms(3) [unfolded Register_def run_bind_Pair [OF f]]
  then have found: "found = Inr None" by (cases found) (auto split: option.splits)
  then have none: "user_by_email X w (ri_Email inp) = None"
    using User_GetByEmail_cases(2) [OF assms(1) f found] by (simp add: user_by_email_def)
  let ?w2 = "w1\<lparr>draws := Suc (Suc (draws w1))\<rparr>"
  obtain h where h: "bcrypt_gen X (draws w1) (ri_Password inp) = Some h"
    and u: "u = \<lparr>us_ID = new_uuid X (Suc (draws w1)), us_Email = ri_Email inp, us_PasswordHash = h,
      us_CreatedAt = zero_time\<rparr>"
    and c: "run (User_Create X u) ?w2 = (Inr (), w')"
    using R by (auto simp: found Let_def split: option.splits prod.splits sum.splits)
  show "us_Email u = ri_Email inp" "bcrypt_matches X (us_PasswordHash u) (ri_Password inp)"
    using h assms(2) by (auto simp: u library_ok_def)
  show "user_by_email X w (ri_Email inp) = None" by (rule none)
  have w2: "tables_of X ?w2 = tables_of X w" "now ?w2 = now w"
    using f1 by (simp_all add: same_world_def tables_of_def)
  then have row: "user_row X ?w2 u = user_row X w u" by (simp add: user_row_def)
  show "tables_of X w' = (tables_of X w)\<lparr>t_users := t_users (tables_of X w) @ [user_row X w u]\<rparr>"
    and "\<not> (\<exists>v \<in> set (t_users (tables_of X w)). sql_eq X (us_ID v) (us_ID u))"
    using User_Create_tables(1) [OF assms(1) c refl] unfolding w2 row by blast+
  show "store X w' = store X w"
    using keeps_field_runD [OF Auth_frame(2) assms(3)] by (simp add: store_def)
qed

section \<open>The legacy refresh\<close>

definition token_by_hash :: "('r, 'd) ext \<Rightarrow> ('r, 'd) world \<Rightarrow> gostring \<Rightarrow> refresh_token option" where
  "token_by_hash X w h = (case token_rows X w (TokenByHash h) of
     None \<Rightarrow> None
   | Some row \<Rightarrow> (case scan_token row of Inl e \<Rightarrow> None | Inr t \<Rightarrow> Some t))"

lemma token_lookup:
  assumes "mysql_spec up X" and "run (Token_GetTokenByHash X h) w = (Inr t, w')"
  shows "t = token_by_hash X w h"
  using get_token_cases(2,3) [OF assms(1) assms(2) [unfolded Token_GetTokenByHash_def]]
  by (cases t) (auto simp: token_by_hash_def)

definition refreshed_claims :: "('r, 'd) ext \<Rightarrow> ('r, 'd) world \<Rightarrow> refresh_token \<Rightarrow> user \<Rightarrow> iam_claims" where
  "refreshed_claims X w t u = \<lparr>ic_UserID = us_ID u, ic_Email = us_Email u,
     ic_ClientID = rt_ClientID t, ic_Scope = join (elems (rt_Scope t)) '' '',
     ic_ID = new_uuid X (draws w), ic_IssuedAt = now w, ic_ExpiresAt = now w + 900 * second\<rparr>"

lemma RefreshToken_Inr:
  assumes "mysql_spec up X" and "run (RefreshToken X raw) w = (Inr resp, w')"
  obtains t u where "token_by_hash X w (hashToken raw) = Some t" "now w \<le> rt_ExpiresAt t"
    "user_by_id X w (rt_UserID t) = Some u"
    "jwt_sign X (refreshed_claims X w t u) = Some (rr_AccessToken resp)"
    "rr_AccessTokenExpiryIn resp = 900" "tables_of X w' = tables_of X w" "store X w' = store X w"
proof -
  obtain found w1 where f: "run (Token_GetTokenByHash X (hashToken raw)) w = (found, w1)" by fastforce
  note f1 = sql_reads(4) [OF assms(1) f]
  note R = assms(2) [unfolded RefreshToken_def run_bind_Pair [OF f]]
  then obtain t where found: "found = Inr (Some t)"
    by (cases found) (auto split: option.splits)
  have t: "token_by_hash X w (hashToken raw) = Some t"
    using token_lookup [OF assms(1)] f found by auto
  have n: "now w1 = now w" "draws w1 = draws w" using f1 by (simp_all add: same_world_def)
  obtain owner w2 where o: "run (User_GetByID X (rt_UserID t)) w1 = (owner, w2)" by fastforce
  note o1 = sql_reads(3) [OF assms(1) o]
  note R1 = R [unfolded found sum.case option.case, unfolded run_bind_Pair [OF run_time_Now] n]
  then have exp: "now w \<le> rt_ExpiresAt t" by (cases "rt_ExpiresAt t < now w") simp_all
  then have nlt: "\<not> rt_ExpiresAt t < now w" by simp
  note R2 = R1 [unfolded if_not_P [OF nlt], unfolded run_bind_Pair [OF o]]
  have "\<exists>u. owner = Inr (Some u)"
  proof (cases owner)
    case (Inr uo)
    then show ?thesis using R2 by (cases uo) simp_all
  qed (use R2 in simp)
  then obtain u where owner: "owner = Inr (Some u)" ..
  have u: "user_by_id X w (rt_UserID t) = Some u"
    using User_GetByID_cases(2) [OF assms(1) o owner] same_world_reads(7) [OF f1]
    by (simp add: user_by_id_def)
  have w2: "same_world X w w2" using f1 o1 by (rule same_world_trans)
  then have n2: "now w2 = now w" "draws w2 = draws w" "store X w2 = store X w"
    "tables_of X w2 = tables_of X w"
    by (simp_all add: same_world_def)
  have "15 * 60 * second = 900 * second" by simp
  note R3 = R2 [unfolded owner sum.case option.case, simplified run_IssueAccessToken n2 this,
      folded refreshed_claims_def]
  show thesis
  proof (rule that [OF t exp u])
    show "jwt_sign X (refreshed_claims X w t u) = Some (rr_AccessToken resp)"
      and "rr_AccessTokenExpiryIn resp = 900"
      using R3 by (auto simp: run_IssueAccessToken n2 refreshed_claims_def split: option.splits)
    show "tables_of X w' = tables_of X w" and "store X w' = store X w"
      using R3 n2(3,4) by (auto simp: run_IssueAccessToken tables_of_def store_def)
  qed
qed

lemma RefreshToken_no_panic:
  assumes "mysql_spec up X" and "run (RefreshToken X raw) w = (r, w')"
  shows "r \<noteq> Inl (Panic m)"
proof -
  obtain found w1 where f: "run (Token_GetTokenByHash X (hashToken raw)) w = (found, w1)" by fastforce
  note R = assms(2) [unfolded RefreshToken_def run_bind_Pair [OF f]]
  show ?thesis
  proof (cases found)
    case (Inr t)
    show ?thesis
    proof (cases t)
      case (Some tok)
      obtain owner w2 where o: "run (User_GetByID X (rt_UserID tok)) w1 = (owner, w2)" by fastforce
      have "owner \<noteq> Inr None" by (rule User_GetByID_cases(4) [OF assms(1) o])
      then show ?thesis
        using R o by (cases owner)
          (auto simp: Inr Some run_IssueAccessToken split: option.splits sum.splits if_splits)
    qed (use R Inr in auto)
  qed (use R in auto)
qed

lemma RefreshToken_up:
  assumes "mysql_spec True X"
  shows "token_by_hash X w (hashToken raw) = Some t \<Longrightarrow> now w \<le> rt_ExpiresAt t
      \<Longrightarrow> user_by_id X w (rt_UserID t) = Some u
      \<Longrightarrow> jwt_sign X (refreshed_claims X w t u) = Some tok
      \<Longrightarrow> result_of (RefreshToken X raw) w
          = Inr \<lparr>rr_AccessToken = tok, rr_AccessTokenExpiryIn = 900\<rparr>"
    and "token_by_hash X w (hashToken raw) = Some t \<Longrightarrow> rt_ExpiresAt t < now w
      \<Longrightarrow> result_of (RefreshToken X raw) w = Inl (ErrNew ''refresh token expired'')"
    and "token_rows X w (TokenByHash (hashToken raw)) = None
      \<Longrightarrow> result_of (RefreshToken X raw) w = Inl (ErrNew ''refresh token not found'')"
proof -
  obtain found w1 where f: "run (Token_GetTokenByHash X (hashToken raw)) w = (found, w1)" by fastforce
  note w1 = same_world_reads(7-9) [OF sql_reads(4) [OF assms f]]
  note G = get_token_cases [OF assms f [unfolded Token_GetTokenByHash_def]]
  have some: "found = Inr (Some t)" if "token_by_hash X w (hashToken raw) = Some t" for t
    using that G(5) by (auto simp: token_by_hash_def split: option.splits sum.splits)
  show "result_of (RefreshToken X raw) w = Inr \<lparr>rr_AccessToken = tok, rr_AccessTokenExpiryIn = 900\<rparr>"
    if t: "token_by_hash X w (hashToken raw) = Some t" "now w \<le> rt_ExpiresAt t"
      "user_by_id X w (rt_UserID t) = Some u" "jwt_sign X (refreshed_claims X w t u) = Some tok"
  proof -
    obtain owner w2 where o: "run (User_GetByID X (rt_UserID t)) w1 = (owner, w2)" by fastforce
    have owner: "owner = Inr (Some u)"
      using User_GetByID_cases(3) [OF assms o TrueI] t(3) by (simp add: user_by_id_def w1)
    note w2 = same_world_reads(8,9) [OF sql_reads(3) [OF assms o]]
    show ?thesis
      using t(2,4) o owner some [OF t(1)] w2 w1
      by (simp add: RefreshToken_def f run_IssueAccessToken refreshed_claims_def)
  qed
  show "result_of (RefreshToken X raw) w = Inl (ErrNew ''refresh token expired'')"
    if "token_by_hash X w (hashToken raw) = Some t" "rt_ExpiresAt t < now w"
    using some [OF that(1)] that(2) w1 by (simp add: RefreshToken_def f)
  show "result_of (RefreshToken X raw) w = Inl (ErrNew ''refresh token not found'')"
    if "token_rows X w (TokenByHash (hashToken raw)) = None"
    using G(4) [OF TrueI that] by (simp add: RefreshToken_def f)
qed

end
