(* ===== verification/TokenGrant.thy ===== *)
theory TokenGrant
  imports AuthService
begin

text \<open>
  \<open>internal/service/token_grant.go\<close>: the grants of \<open>POST /oauth/token\<close>.  The code grant is
  described a second time, as the conditions under which it succeeds and the one change it
  makes, and every run is shown to be one of the two.
\<close>

section \<open>Operations\<close>

text \<open>\<open>subtle.ConstantTimeCompare\<close>: the differing bits are collected over equal lengths.\<close>

fun ct_diff :: "gostring \<Rightarrow> gostring \<Rightarrow> nat" where
  "ct_diff (x # xs) (y # ys) = or (xor (byte x) (byte y)) (ct_diff xs ys)"
| "ct_diff _ _ = 0"

definition ConstantTimeCompare :: "gostring \<Rightarrow> gostring \<Rightarrow> int" where
  "ConstantTimeCompare x y =
     (if length x \<noteq> length y then 0 else if ct_diff x y = 0 then 1 else 0)"

definition pkce_ok :: "auth_code \<Rightarrow> gostring \<Rightarrow> bool" where
  "pkce_ok authCode verifier \<longleftrightarrow>
     (let verifierHash = sha256 verifier;
          computedChallenge = base64_raw_url verifierHash
      in ac_CodeChallengeMethod authCode = ''S256''
       \<and> ConstantTimeCompare computedChallenge (ac_CodeChallenge authCode) = 1)"

text \<open>From the loaded user to the answer: both tokens are made and the second one is stored.\<close>

definition mint_pair :: "('r, 'd) ext \<Rightarrow> user \<Rightarrow> client \<Rightarrow> auth_code
    \<Rightarrow> ('r, 'd, token_response) prog" where
  "mint_pair X u client authCode = do {
     let scope = join (elems (ac_Scope authCode)) '' '';
     a \<leftarrow> IssueAccessToken X (us_ID u) (us_Email u) (cl_ID client) scope;
     case a of
       Inl e \<Rightarrow> ret (Inl (wrap ''TokenGrantService.authorizationCodeGrant'' e))
     | Inr accessToken \<Rightarrow> do {
         (refreshTokenRaw, refreshExpiresAt) \<leftarrow> IssueRefreshToken X;
         i \<leftarrow> draw (new_uuid X);
         r \<leftarrow> Token_Create X \<lparr>rt_ID = i, rt_UserID = us_ID u, rt_ClientID = cl_ID client,
           rt_Scope = ac_Scope authCode, rt_TokenHash = hashToken refreshTokenRaw,
           rt_ExpiresAt = refreshExpiresAt, rt_RevokedAt = None, rt_CreatedAt = zero_time\<rparr>;
         ret (case r of
           Inl e \<Rightarrow> Inl (wrap ''TokenGrantService.authorizationCodeGrant'' e)
         | Inr _ \<Rightarrow> Inr \<lparr>tr_AccessToken = at_AccessTokenString accessToken,
             tr_TokenType = ''Bearer'', tr_ExpiresIn = at_AccessTokenExpiresIn accessToken,
             tr_Scope = scope, tr_RefreshToken = refreshTokenRaw\<rparr>)
       }
   }"

definition authorizationCodeGrant :: "('r, 'd) ext \<Rightarrow> token_request
    \<Rightarrow> ('r, 'd, token_response) prog" where
  "authorizationCodeGrant X req = do {
     found \<leftarrow> Client_GetByID X (tq_ClientID req);
     case found of
       Inl e \<Rightarrow> ret (Inl (wrap ''TokenGrantService.authorizationCodeGrant'' e))
     | Inr None \<Rightarrow> ret (Inl ErrInvalidClient)
     | Inr (Some client) \<Rightarrow>
         if cl_ClientSecretHash client \<noteq> []
            \<and> \<not> bcrypt_matches X (cl_ClientSecretHash client) (tq_ClientSecret req)
         then ret (Inl ErrInvalidClient)
         else do {
           consumed \<leftarrow> AuthCode_Consume X (tq_Code req);
           case consumed of
             Inl e \<Rightarrow> ret (if err_is e ErrAuthCodeNotFound then Inl ErrInvalidGrant
                            else Inl (wrap ''TokenGrantService.authorizationCodeGrant'' e))
           | Inr authCode \<Rightarrow>
               if ac_ClientID authCode \<noteq> tq_ClientID req
                  \<or> ac_RedirectURI authCode \<noteq> tq_RedirectURI req
               then ret (Inl ErrInvalidGrant)
               else if \<not> pkce_ok authCode (tq_CodeVerifier req) then ret (Inl ErrInvalidGrant)
               else do {
                 owner \<leftarrow> User_GetByID X (ac_UserID authCode);
                 case owner of
                   Inl e \<Rightarrow> ret (Inl (wrap ''TokenGrantService.authorizationCodeGrant'' e))
                 | Inr None \<Rightarrow> ret (Inl ErrInvalidGrant)
                 | Inr (Some u) \<Rightarrow> mint_pair X u client authCode
               }
         }
   }"

definition refreshTokenGrant :: "('r, 'd) ext \<Rightarrow> token_request \<Rightarrow> ('r, 'd, token_response) prog" where
  "refreshTokenGrant X req = ret (Inl (ErrNew ''refreshTokenGrant: not implemented''))"

definition clientCredentialsGrant ::
  "('r, 'd) ext \<Rightarrow> token_request \<Rightarrow> ('r, 'd, token_response) prog" where
  "clientCredentialsGrant X req = ret (Inl (ErrNew ''clientCredentialsGrant: not implemented''))"

definition Exchange :: "('r, 'd) ext \<Rightarrow> token_request \<Rightarrow> ('r, 'd, token_response) prog" where
  "Exchange X req =
     (if tq_GrantType req = GrantAuthorizationCode then authorizationCodeGrant X req
      else if tq_GrantType req = GrantRefreshToken then refreshTokenGrant X req
      else ret (Inl ErrUnsupportedGrantType))"

section \<open>Comparison in constant time is comparison\<close>

lemma ct_diff_0: "length x = length y \<Longrightarrow> ct_diff x y = 0 \<longleftrightarrow> x = y"
proof (induction x y rule: ct_diff.induct)
  case (1 x xs y ys)
  have "or (xor (byte x) (byte y)) (ct_diff xs ys) = 0 \<longleftrightarrow> byte x = byte y \<and> ct_diff xs ys = 0"
    by (auto simp: bit_eq_iff bit_simps)
  with 1 show ?case by simp
qed auto

lemma ConstantTimeCompare_eq: "ConstantTimeCompare x y = 1 \<longleftrightarrow> x = y"
  using ct_diff_0 [of x y] by (auto simp: ConstantTimeCompare_def)

lemma pkce_ok_iff: "pkce_ok a v \<longleftrightarrow>
    ac_CodeChallengeMethod a = ''S256'' \<and> ac_CodeChallenge a = base64_raw_url (sha256 v)"
  by (auto simp: pkce_ok_def ConstantTimeCompare_eq)

section \<open>What the code grant asks for, and what it does\<close>

definition client_authenticates ::
  "('r, 'd) ext \<Rightarrow> ('r, 'd) world \<Rightarrow> token_request \<Rightarrow> client \<Rightarrow> bool" where
  "client_authenticates X w req c \<longleftrightarrow> client_at X w (tq_ClientID req) = Some c
     \<and> (cl_ClientSecretHash c = [] \<or> bcrypt_matches X (cl_ClientSecretHash c) (tq_ClientSecret req))"

definition code_matches :: "token_request \<Rightarrow> auth_code \<Rightarrow> bool" where
  "code_matches req a \<longleftrightarrow> ac_ClientID a = tq_ClientID req \<and> ac_RedirectURI a = tq_RedirectURI req
     \<and> ac_CodeChallengeMethod a = ''S256''
     \<and> ac_CodeChallenge a = base64_raw_url (sha256 (tq_CodeVerifier req))"

definition grant_claims :: "('r, 'd) ext \<Rightarrow> ('r, 'd) world \<Rightarrow> user \<Rightarrow> client \<Rightarrow> auth_code \<Rightarrow> iam_claims"
where
  "grant_claims X w u c a = \<lparr>ic_UserID = us_ID u, ic_Email = us_Email u, ic_ClientID = cl_ID c,
     ic_Scope = join (elems (ac_Scope a)) '' '', ic_ID = new_uuid X (draws w),
     ic_IssuedAt = now w, ic_ExpiresAt = now w + 15 * 60 * second\<rparr>"

definition grant_token :: "('r, 'd) ext \<Rightarrow> ('r, 'd) world \<Rightarrow> user \<Rightarrow> client \<Rightarrow> auth_code \<Rightarrow> refresh_token"
where
  "grant_token X w u c a = \<lparr>rt_ID = new_uuid X (draws w + 2), rt_UserID = us_ID u,
     rt_ClientID = cl_ID c, rt_Scope = ac_Scope a, rt_TokenHash = hashToken (new_uuid X (draws w + 1)),
     rt_ExpiresAt = now w + 7 * 24 * 3600 * second, rt_RevokedAt = None, rt_CreatedAt = zero_time\<rparr>"

definition grant_answer :: "('r, 'd) ext \<Rightarrow> ('r, 'd) world \<Rightarrow> auth_code \<Rightarrow> gostring \<Rightarrow> token_response"
where
  "grant_answer X w a tok = \<lparr>tr_AccessToken = tok, tr_TokenType = ''Bearer'', tr_ExpiresIn = 900,
     tr_Scope = join (elems (ac_Scope a)) '' '', tr_RefreshToken = new_uuid X (draws w + 1)\<rparr>"

text \<open>The row of the refresh token is added.\<close>

definition token_added ::
  "('r, 'd) ext \<Rightarrow> ('r, 'd) world \<Rightarrow> refresh_token \<Rightarrow> tables \<Rightarrow> bool" where
  "token_added X w t T \<longleftrightarrow> (\<exists>row. scan_token row = Inr (token_stored X w t)
     \<and> tw_token_hash row = rt_TokenHash t
     \<and> T = (tables_of X w)\<lparr>t_tokens := t_tokens (tables_of X w) @ [row]\<rparr>)"

lemma mint_pair_cases:
  assumes "mysql_spec up X" "columns_ok X" and "run (mint_pair X u c a) w = (r, w')"
  shows "store X w' = store X w"
    and "r = Inr resp \<Longrightarrow> \<exists>tok. jwt_sign X (grant_claims X w u c a) = Some tok
      \<and> resp = grant_answer X w a tok \<and> token_added X w (grant_token X w u c a) (tables_of X w')"
    and "tables_of X w' = tables_of X w \<or> token_added X w (grant_token X w u c a) (tables_of X w')"
    and "r \<noteq> Inl ErrInvalidClient" "r \<noteq> Inl ErrInvalidGrant"
    and "up \<Longrightarrow> jwt_sign X (grant_claims X w u c a) \<noteq> None
      \<Longrightarrow> fits 36 (new_uuid X (draws w + 2)) \<Longrightarrow> fits 36 (us_ID u) \<Longrightarrow> fits 36 (cl_ID c)
      \<Longrightarrow> \<not> (\<exists>v \<in> set (t_tokens (tables_of X w)). sql_eq X (tw_id v) (new_uuid X (draws w + 2)))
      \<Longrightarrow> (\<exists>v \<in> set (t_users (tables_of X w)). sql_eq X (us_ID v) (us_ID u)) \<Longrightarrow> \<exists>resp. r = Inr resp"
proof -
  let ?t = "grant_token X w u c a"
  let ?w3 = "w\<lparr>draws := Suc (Suc (Suc (draws w)))\<rparr>"
  have w3: "tables_of X ?w3 = tables_of X w" "store X ?w3 = store X w"
    "token_stored X ?w3 ?t = token_stored X w ?t"
    by (simp_all add: tables_of_def store_def token_stored_def)
  consider (unsigned) "jwt_sign X (grant_claims X w u c a) = None" "tables_of X w' = tables_of X w"
      "store X w' = store X w" "r = Inl (wrap ''TokenGrantService.authorizationCodeGrant'' (ErrNew ''signing''))"
    | (signed) tok res where "jwt_sign X (grant_claims X w u c a) = Some tok"
        "run (Token_Create X ?t) ?w3 = (res, w')"
        "r = (case res of Inl e \<Rightarrow> Inl (wrap ''TokenGrantService.authorizationCodeGrant'' e)
           | Inr _ \<Rightarrow> Inr (grant_answer X w a tok))"
  proof (cases "jwt_sign X (grant_claims X w u c a)")
    case None
    then show thesis using assms(3)
      by (intro unsigned) (auto simp: mint_pair_def Let_def run_IssueAccessToken grant_claims_def
          tables_of_def store_def)
  next
    case (Some tok)
    obtain res where res: "run (Token_Create X ?t) ?w3 = (res, w')"
      using assms(3) Some
      by (auto simp: mint_pair_def Let_def run_IssueAccessToken run_IssueRefreshToken
          grant_claims_def grant_token_def split: prod.splits)
    show thesis
      using assms(3) Some res
      by (intro signed [OF Some res]) (auto simp: mint_pair_def Let_def run_IssueAccessToken
          run_IssueRefreshToken grant_claims_def grant_token_def grant_answer_def split: sum.splits)
  qed
  then have *: "store X w' = store X w
    \<and> (r = Inr resp \<longrightarrow> (\<exists>tok. jwt_sign X (grant_claims X w u c a) = Some tok
      \<and> resp = grant_answer X w a tok \<and> token_added X w ?t (tables_of X w')))
    \<and> (tables_of X w' = tables_of X w \<or> token_added X w ?t (tables_of X w'))
    \<and> r \<noteq> Inl ErrInvalidClient \<and> r \<noteq> Inl ErrInvalidGrant
    \<and> (up \<longrightarrow> jwt_sign X (grant_claims X w u c a) \<noteq> None \<longrightarrow> fits 36 (rt_ID ?t)
      \<longrightarrow> fits 36 (us_ID u) \<longrightarrow> fits 36 (cl_ID c)
      \<longrightarrow> \<not> (\<exists>v \<in> set (t_tokens (tables_of X w)). sql_eq X (tw_id v) (rt_ID ?t))
      \<longrightarrow> (\<exists>v \<in> set (t_users (tables_of X w)). sql_eq X (us_ID v) (us_ID u)) \<longrightarrow> (\<exists>resp. r = Inr resp))"
    for resp
  proof cases
    case s: signed
    have st: "store X w' = store X w"
      using keeps_field_runD [OF sql_only_ops(7) [THEN sql_only_frame(3)] s(2)]
      by (simp add: store_def)
    have h: "fits 255 (rt_TokenHash ?t)"
    proof -
      have "ascii (rt_TokenHash ?t)" "length (rt_TokenHash ?t) = 64"
        by (simp_all add: grant_token_def hashToken_def ascii_hex)
      then show ?thesis by (simp add: fits_def ascii_valid runes_ascii)
    qed
    have f: "rt_UserID ?t = us_ID u" "rt_ClientID ?t = cl_ID c" by (simp_all add: grant_token_def)
    obtain row where "scan_token row = Inr (token_stored X w ?t)" "tw_token_hash row = rt_TokenHash ?t"
      and tb: "tables_of X w' = (tables_of X w)\<lparr>t_tokens := t_tokens (tables_of X w) @ [row]\<rparr>
        \<or> res \<noteq> Inr () \<and> tables_of X w' = tables_of X w"
      and u: "up \<Longrightarrow> fits 36 (rt_ID ?t) \<Longrightarrow> fits 36 (us_ID u) \<Longrightarrow> fits 36 (cl_ID c)
        \<Longrightarrow> \<not> (\<exists>v \<in> set (t_tokens (tables_of X w)). sql_eq X (tw_id v) (rt_ID ?t))
        \<Longrightarrow> (\<exists>v \<in> set (t_users (tables_of X w)). sql_eq X (us_ID v) (us_ID u)) \<Longrightarrow> res = Inr ()"
      by (rule Token_Create_tables [OF assms(1,2) s(2), unfolded w3 f]) (use h in auto)
    then have "token_added X w ?t (tables_of X w') \<or> res \<noteq> Inr () \<and> tables_of X w' = tables_of X w"
      unfolding token_added_def by blast
    with st u show ?thesis
      by (cases res) (auto simp: s(1,3))
  qed (auto simp: )
  show "store X w' = store X w"
    and "r = Inr resp \<Longrightarrow> \<exists>tok. jwt_sign X (grant_claims X w u c a) = Some tok
      \<and> resp = grant_answer X w a tok \<and> token_added X w (grant_token X w u c a) (tables_of X w')"
    and "tables_of X w' = tables_of X w \<or> token_added X w (grant_token X w u c a) (tables_of X w')"
    and "r \<noteq> Inl ErrInvalidClient" "r \<noteq> Inl ErrInvalidGrant"
    using * by blast+
  have "rt_ID ?t = new_uuid X (draws w + 2)" by (simp add: grant_token_def)
  then show "up \<Longrightarrow> jwt_sign X (grant_claims X w u c a) \<noteq> None
      \<Longrightarrow> fits 36 (new_uuid X (draws w + 2)) \<Longrightarrow> fits 36 (us_ID u) \<Longrightarrow> fits 36 (cl_ID c)
      \<Longrightarrow> \<not> (\<exists>v \<in> set (t_tokens (tables_of X w)). sql_eq X (tw_id v) (new_uuid X (draws w + 2)))
      \<Longrightarrow> (\<exists>v \<in> set (t_users (tables_of X w)). sql_eq X (us_ID v) (us_ID u)) \<Longrightarrow> \<exists>resp. r = Inr resp"
    using * by simp
qed

text \<open>Where a run of the code grant stops, and in which state.\<close>

lemma code_grant_stages:
  assumes "redis_spec up X" "mysql_spec up X" and "run (authorizationCodeGrant X req) w = (r, w')"
  obtains (lookup) e where "r = Inl (wrap ''TokenGrantService.authorizationCodeGrant'' e)"
      "same_world X w w'"
      "up \<Longrightarrow> client_rows X w (tq_ClientID req) \<noteq> None \<and> client_at X w (tq_ClientID req) = None"
    | (client) "r = Inl ErrInvalidClient" "same_world X w w'" "\<nexists>c. client_authenticates X w req c"
    | (code) c e w1 where "client_authenticates X w req c" "same_world X w w1"
        "run (AuthCode_Consume X (tq_Code req)) w1 = (Inl e, w')"
        "r = (if err_is e ErrAuthCodeNotFound then Inl ErrInvalidGrant
              else Inl (wrap ''TokenGrantService.authorizationCodeGrant'' e))"
    | (mismatch) c a w1 where "client_authenticates X w req c" "same_world X w w1"
        "run (AuthCode_Consume X (tq_Code req)) w1 = (Inr a, w')"
        "\<not> code_matches req a" "r = Inl ErrInvalidGrant"
    | (owner) c a e w1 w2 where "client_authenticates X w req c" "same_world X w w1"
        "run (AuthCode_Consume X (tq_Code req)) w1 = (Inr a, w2)" "code_matches req a"
        "run (User_GetByID X (ac_UserID a)) w2 = (Inl e, w')"
        "r = Inl (wrap ''TokenGrantService.authorizationCodeGrant'' e)"
    | (mint) c a u w1 w2 w3 where "client_authenticates X w req c" "same_world X w w1"
        "run (AuthCode_Consume X (tq_Code req)) w1 = (Inr a, w2)" "code_matches req a"
        "run (User_GetByID X (ac_UserID a)) w2 = (Inr (Some u), w3)"
        "run (mint_pair X u c a) w3 = (r, w')"
proof -
  obtain found w1 where f: "run (Client_GetByID X (tq_ClientID req)) w = (found, w1)" by fastforce
  note f1 = sql_reads(1) [OF assms(2) f]
    and R = assms(3) [unfolded authorizationCodeGrant_def, unfolded run_bind_Pair [OF f]]
  show thesis
  proof (cases found)
    case (Inl e)
    have "up \<Longrightarrow> client_rows X w (tq_ClientID req) \<noteq> None \<and> client_at X w (tq_ClientID req) = None"
      using Client_GetByID_cases(4) [OF assms(2) f Inl] by (auto simp: client_at_def)
    then show thesis using R f1 Inl by (intro lookup [of e]) simp_all
  next
    case (Inr co)
    with client_lookup [OF assms(2)] f have co: "co = client_at X w (tq_ClientID req)" by auto
    show thesis
    proof (cases "\<exists>c. client_authenticates X w req c")
      case False
      then have "run (ret (Inl ErrInvalidClient)) w1 = (r, w')"
        using R unfolding Inr sum.case by (cases co) (auto simp: client_authenticates_def co)
      then show thesis using f1 False by (intro client) simp_all
    next
      case True
      then obtain c where c: "client_authenticates X w req c" by blast
      then have coc: "co = Some c"
        and sec: "\<not> (cl_ClientSecretHash c \<noteq> []
            \<and> \<not> bcrypt_matches X (cl_ClientSecretHash c) (tq_ClientSecret req))"
        using co by (auto simp: client_authenticates_def)
      obtain con w2 where k: "run (AuthCode_Consume X (tq_Code req)) w1 = (con, w2)" by fastforce
      note R2 = R [unfolded Inr coc sum.case option.case, unfolded if_not_P [OF sec],
          unfolded run_bind_Pair [OF k]]
      show thesis
      proof (cases con)
        case (Inl e)
        with R2 have "w' = w2" and "r = (if err_is e ErrAuthCodeNotFound then Inl ErrInvalidGrant
              else Inl (wrap ''TokenGrantService.authorizationCodeGrant'' e))" by auto
        with k Inl show thesis by (intro code [OF c f1]) simp_all
      next
        case a: (Inr a)
        show thesis
        proof (cases "code_matches req a")
          case False
          then have "run (ret (Inl ErrInvalidGrant)) w2 = (r, w')"
            using R2 unfolding a sum.case code_matches_def
            by (cases "ac_ClientID a \<noteq> tq_ClientID req \<or> ac_RedirectURI a \<noteq> tq_RedirectURI req")
              (simp_all add: pkce_ok_iff)
          with k a False show thesis by (intro mismatch [OF c f1 _ False]) simp_all
        next
          case True
          obtain owner' w3 where o: "run (User_GetByID X (ac_UserID a)) w2 = (owner', w3)" by fastforce
          have m: "\<not> (ac_ClientID a \<noteq> tq_ClientID req \<or> ac_RedirectURI a \<noteq> tq_RedirectURI req)"
            "\<not> \<not> pkce_ok a (tq_CodeVerifier req)"
            using True by (simp_all add: code_matches_def pkce_ok_iff)
          note R3 = R2 [unfolded a sum.case, unfolded if_not_P [OF m(1)] if_not_P [OF m(2)],
              unfolded run_bind_Pair [OF o]]
          show thesis
          proof (cases owner')
            case (Inl e)
            with R3 k a o show thesis by (intro owner [OF c f1 _ True]) auto
          next
            case (Inr uo)
            with User_GetByID_cases(4) [OF assms(2) o] obtain u where "uo = Some u"
              by (cases uo) auto
            with Inr R3 k a o show thesis by (intro mint [OF c f1 _ True]) simp_all
          qed
        qed
      qed
    qed
  qed
qed

definition code_key :: "token_request \<Rightarrow> gostring" where
  "code_key req = authCodeKeyPrefix @ tq_Code req"

lemma after_consume:
  assumes "same_world X w w1" and "run (AuthCode_Consume X k) w1 = (r, w2)"
  shows "now w2 = now w" "draws w2 = draws w" "tables_of X w2 = tables_of X w"
    "user_by_id X w2 = user_by_id X w"
proof -
  show "now w2 = now w" "draws w2 = draws w" "tables_of X w2 = tables_of X w"
    using assms(1) keeps_field_runD [OF code_ops_frame(3) assms(2)]
      keeps_field_runD [OF code_ops_frame(4) assms(2)] keeps_field_runD [OF code_ops_frame(5) assms(2)]
    by (simp_all add: same_world_def tables_of_def)
  then show "user_by_id X w2 = user_by_id X w"
    by (intro ext) (simp add: user_by_id_def)
qed

lemma grant_reads:
  assumes "now w3 = now w" "draws w3 = draws w" "tables_of X w3 = tables_of X w"
  shows "grant_claims X w3 = grant_claims X w" "grant_token X w3 = grant_token X w"
    "grant_answer X w3 = grant_answer X w" "token_added X w3 = token_added X w"
  using assms
  by (simp_all add: fun_eq_iff grant_claims_def grant_token_def grant_answer_def token_added_def
      token_stored_def)

text \<open>All that a successful exchange has checked and done.\<close>

definition exchanged :: "('r, 'd) ext \<Rightarrow> ('r, 'd) world \<Rightarrow> token_request \<Rightarrow> client \<Rightarrow> auth_code \<Rightarrow> user
    \<Rightarrow> token_response \<Rightarrow> ('r, 'd) world \<Rightarrow> bool" where
  "exchanged X w req c a u resp w' \<longleftrightarrow>
     client_authenticates X w req c
   \<and> code_at X w (tq_Code req) = Some a \<and> code_matches req a
   \<and> user_by_id X w (ac_UserID a) = Some u
   \<and> (\<exists>tok. jwt_sign X (grant_claims X w u c a) = Some tok \<and> resp = grant_answer X w a tok)
   \<and> token_added X w (grant_token X w u c a) (tables_of X w')
   \<and> store X w' = (store X w)(code_key req := None)"

lemma code_grant_Inr:
  assumes "redis_spec up X" "mysql_spec up X" "columns_ok X"
    and "run (authorizationCodeGrant X req) w = (Inr resp, w')"
  shows "\<exists>c a u. exchanged X w req c a u resp w'"
  using assms(1,2,4)
proof (cases rule: code_grant_stages)
  case (mint c a u w1 w2 w3)
  note w2 = after_consume [OF mint(2,3)]
  note o = sql_reads(3) [OF assms(2) mint(5)]
  have w3: "now w3 = now w" "draws w3 = draws w" "tables_of X w3 = tables_of X w"
    using w2 same_world_reads(7-9) [OF o] by simp_all
  have code: "code_at X w (tq_Code req) = Some a"
    "store X w3 = (store X w)(code_key req := None)"
    using AuthCode_Consume_cases(1) [OF assms(1) mint(3) refl] same_world_reads(4,6) [OF mint(2)]
      same_world_reads(6) [OF o] by (simp_all add: code_key_def)
  have u: "user_by_id X w (ac_UserID a) = Some u"
    using User_GetByID_cases(2) [OF assms(2) mint(5) refl] w2(3) by (simp add: user_by_id_def)
  note m = mint_pair_cases(1,2) [OF assms(2,3) mint(6)]
  show ?thesis
    using mint(1,4) code u m(1) m(2) [OF refl] unfolding grant_reads [OF w3] exchanged_def by metis
qed (auto split: if_splits)

text \<open>
  Whatever the outcome: no other code and no session changes, and the tables change only when
  everything was checked.
\<close>

lemma code_grant_bounds:
  assumes "redis_spec up X" "mysql_spec up X" "columns_ok X"
    and "run (authorizationCodeGrant X req) w = (r, w')"
  shows "store X w' = store X w \<or> store X w' = (store X w)(code_key req := None)"
    and "store X w' \<noteq> store X w \<Longrightarrow> \<exists>c. client_authenticates X w req c"
    and "tables_of X w' \<noteq> tables_of X w \<Longrightarrow> \<exists>c a u. client_authenticates X w req c
      \<and> code_at X w (tq_Code req) = Some a \<and> code_matches req a
      \<and> user_by_id X w (ac_UserID a) = Some u
      \<and> token_added X w (grant_token X w u c a) (tables_of X w')
      \<and> store X w' = (store X w)(code_key req := None)"
proof -
  have "(store X w' = store X w \<or> store X w' = (store X w)(code_key req := None))
    \<and> (store X w' \<noteq> store X w \<longrightarrow> (\<exists>c. client_authenticates X w req c))
    \<and> (tables_of X w' \<noteq> tables_of X w \<longrightarrow> (\<exists>c a u. client_authenticates X w req c
      \<and> code_at X w (tq_Code req) = Some a \<and> code_matches req a
      \<and> user_by_id X w (ac_UserID a) = Some u
      \<and> token_added X w (grant_token X w u c a) (tables_of X w')
      \<and> store X w' = (store X w)(code_key req := None)))"
    using assms(1,2,4)
  proof (cases rule: code_grant_stages)
    case (lookup e)
    show ?thesis using same_world_reads(6,7) [OF lookup(2)] by blast
  next
    case client
    show ?thesis using same_world_reads(6,7) [OF client(2)] by blast
  next
    case (code c e w1)
    show ?thesis
      using AuthCode_Consume_cases(2) [OF assms(1) code(3)] same_world_reads(6) [OF code(2)]
        after_consume(3) [OF code(2,3)] code(1)
      unfolding code_key_def by metis
  next
    case (mismatch c a w1)
    show ?thesis
      using AuthCode_Consume_cases(2) [OF assms(1) mismatch(3)] same_world_reads(6) [OF mismatch(2)]
        after_consume(3) [OF mismatch(2,3)] mismatch(1)
      unfolding code_key_def by metis
  next
    case (owner c a e w1 w2)
    show ?thesis
      using AuthCode_Consume_cases(2) [OF assms(1) owner(3)] same_world_reads(6) [OF owner(2)]
        after_consume(3) [OF owner(2,3)] same_world_reads(6,7) [OF sql_reads(3) [OF assms(2) owner(5)]]
        owner(1)
      unfolding code_key_def by metis
  next
    case (mint c a u w1 w2 w3)
    note w2 = after_consume [OF mint(2,3)]
    note o = sql_reads(3) [OF assms(2) mint(5)]
    have w3: "now w3 = now w" "draws w3 = draws w" "tables_of X w3 = tables_of X w"
      using w2 same_world_reads(7-9) [OF o] by simp_all
    have code: "code_at X w (tq_Code req) = Some a"
      "store X w3 = (store X w)(code_key req := None)"
      using AuthCode_Consume_cases(1) [OF assms(1) mint(3) refl] same_world_reads(4,6) [OF mint(2)]
        same_world_reads(6) [OF o] by (simp_all add: code_key_def)
    have u: "user_by_id X w (ac_UserID a) = Some u"
      using User_GetByID_cases(2) [OF assms(2) mint(5) refl] w2(3) by (simp add: user_by_id_def)
    note m = mint_pair_cases(1,3) [OF assms(2,3) mint(6), unfolded grant_reads [OF w3] w3(3) code(2)]
    show ?thesis using mint(1,4) code(1) u m by blast
  qed
  then show "store X w' = store X w \<or> store X w' = (store X w)(code_key req := None)"
    and "store X w' \<noteq> store X w \<Longrightarrow> \<exists>c. client_authenticates X w req c"
    and "tables_of X w' \<noteq> tables_of X w \<Longrightarrow> \<exists>c a u. client_authenticates X w req c
      \<and> code_at X w (tq_Code req) = Some a \<and> code_matches req a
      \<and> user_by_id X w (ac_UserID a) = Some u
      \<and> token_added X w (grant_token X w u c a) (tables_of X w')
      \<and> store X w' = (store X w)(code_key req := None)" by blast+
qed

text \<open>With both servers up, every outcome is decided by the state.\<close>

lemma code_grant_up:
  assumes "redis_spec True X" "mysql_spec True X" "columns_ok X"
    and "run (authorizationCodeGrant X req) w = (r, w')"
  shows "client_rows X w (tq_ClientID req) = None \<Longrightarrow> r = Inl ErrInvalidClient"
    and "client_at X w (tq_ClientID req) = Some c \<Longrightarrow> \<not> client_authenticates X w req c
      \<Longrightarrow> r = Inl ErrInvalidClient"
    and "client_authenticates X w req c \<Longrightarrow> cached X w (code_key req) = None
      \<Longrightarrow> r = Inl ErrInvalidGrant \<and> store X w' = (store X w)(code_key req := None)"
    and "client_authenticates X w req c \<Longrightarrow> code_at X w (tq_Code req) = Some a
      \<Longrightarrow> \<not> code_matches req a
      \<Longrightarrow> r = Inl ErrInvalidGrant \<and> store X w' = (store X w)(code_key req := None)"
    and "client_authenticates X w req c \<Longrightarrow> code_at X w (tq_Code req) = Some a
      \<Longrightarrow> code_matches req a \<Longrightarrow> user_by_id X w (ac_UserID a) = None
      \<Longrightarrow> r = Inl (wrap ''TokenGrantService.authorizationCodeGrant''
            (wrap ''UserRepository.GetByID'' SqlNoRows))"
    and "client_authenticates X w req c \<Longrightarrow> code_at X w (tq_Code req) = Some a
      \<Longrightarrow> code_matches req a \<Longrightarrow> user_by_id X w (ac_UserID a) = Some u
      \<Longrightarrow> jwt_sign X (grant_claims X w u c a) \<noteq> None
      \<Longrightarrow> fits 36 (new_uuid X (draws w + 2)) \<Longrightarrow> fits 36 (us_ID u) \<Longrightarrow> fits 36 (cl_ID c)
      \<Longrightarrow> \<not> (\<exists>v \<in> set (t_tokens (tables_of X w)). sql_eq X (tw_id v) (new_uuid X (draws w + 2)))
      \<Longrightarrow> (\<exists>v \<in> set (t_users (tables_of X w)). sql_eq X (us_ID v) (us_ID u)) \<Longrightarrow> \<exists>resp. r = Inr resp"
    and "client_authenticates X w req c \<Longrightarrow> code_at X w (tq_Code req) = Some a
      \<Longrightarrow> code_matches req a \<Longrightarrow> user_by_id X w (ac_UserID a) = Some u
      \<Longrightarrow> jwt_sign X (grant_claims X w u c a) = None
      \<Longrightarrow> r = Inl (wrap ''TokenGrantService.authorizationCodeGrant'' (ErrNew ''signing''))"
proof -
  note go = assms(1,2,4)
  have cons: "run (AuthCode_Consume X (tq_Code req)) w1 = (con, w2) \<Longrightarrow> same_world X w w1 \<Longrightarrow>
      (con = Inr a \<longrightarrow> code_at X w (tq_Code req) = Some a)
    \<and> (code_at X w (tq_Code req) = Some a \<longrightarrow> con = Inr a)
    \<and> (cached X w (code_key req) = None \<longrightarrow> con = Inl ErrAuthCodeNotFound)
    \<and> store X w2 = (store X w)(code_key req := None)" for con w1 w2 a
    using AuthCode_Consume_cases [OF assms(1), of "tq_Code req" w1 con w2]
      same_world_reads(4,5,6) [of X w w1] unfolding code_key_def by metis
  have no_code: "cached X w (code_key req) = None \<Longrightarrow> code_at X w (tq_Code req) = None"
    by (simp add: code_at_def code_key_def)
  show "r = Inl ErrInvalidClient" if "client_rows X w (tq_ClientID req) = None"
  proof -
    have "client_at X w (tq_ClientID req) = None" using that by (simp add: client_at_def)
    with go show ?thesis
      by (cases rule: code_grant_stages) (auto simp: client_authenticates_def that)
  qed
  show "r = Inl ErrInvalidClient" if "client_at X w (tq_ClientID req) = Some c"
      "\<not> client_authenticates X w req c"
    using go that by (cases rule: code_grant_stages) (auto simp: client_authenticates_def)
  have at: "client_at X w (tq_ClientID req) = Some c" if "client_authenticates X w req c" for c
    using that by (simp add: client_authenticates_def)
  have one: "c' = c" if "client_authenticates X w req c" "client_authenticates X w req c'" for c c'
    using that by (simp add: client_authenticates_def)
  show "r = Inl ErrInvalidGrant \<and> store X w' = (store X w)(code_key req := None)"
    if h: "client_authenticates X w req c" "cached X w (code_key req) = None"
    using go
  proof (cases rule: code_grant_stages)
    case s: (code c e w1)
    with cons [OF s(3,2)] h show ?thesis by auto
  next
    case s: (mismatch c a w1)
    with cons [OF s(3,2)] no_code h show ?thesis by auto
  next
    case s: (owner c a e w1 w2)
    with cons [OF s(3,2)] no_code h show ?thesis by auto
  next
    case s: (mint c a u w1 w2 w3)
    with cons [OF s(3,2)] no_code h show ?thesis by auto
  qed (use h at in auto)
  have single: "con = Inr a" if "code_at X w (tq_Code req) = Some a"
    "run (AuthCode_Consume X (tq_Code req)) w1 = (con, w2)" "same_world X w w1" for con a w1 w2
    using cons [OF that(2,3)] that(1) by blast
  show "r = Inl ErrInvalidGrant \<and> store X w' = (store X w)(code_key req := None)"
    if h: "client_authenticates X w req c" "code_at X w (tq_Code req) = Some a" "\<not> code_matches req a"
    using go
  proof (cases rule: code_grant_stages)
    case s: (code c e w1)
    with single [OF h(2) s(3,2)] show ?thesis by simp
  next
    case s: (mismatch c a' w1)
    with cons [OF s(3,2)] show ?thesis by blast
  next
    case s: (owner c a' e w1 w2)
    with single [OF h(2) s(3,2)] h(3) show ?thesis by simp
  next
    case s: (mint c a' u w1 w2 w3)
    with single [OF h(2) s(3,2)] h(3) show ?thesis by simp
  qed (use h at in auto)
  have found: "ro = (case user_by_id X w (ac_UserID a) of
      None \<Rightarrow> Inl (wrap ''UserRepository.GetByID'' SqlNoRows) | Some u \<Rightarrow> Inr (Some u))"
    if "same_world X w w1" "run (AuthCode_Consume X (tq_Code req)) w1 = (con, w2)"
      "run (User_GetByID X (ac_UserID a)) w2 = (ro, w3)" for con ro a w1 w2 w3
    using User_GetByID_cases(3) [OF assms(2) that(3)] after_consume(3) [OF that(1,2)]
    by (simp add: user_by_id_def)
  show "r = Inl (wrap ''TokenGrantService.authorizationCodeGrant''
            (wrap ''UserRepository.GetByID'' SqlNoRows))"
    if h: "client_authenticates X w req c" "code_at X w (tq_Code req) = Some a" "code_matches req a"
      "user_by_id X w (ac_UserID a) = None"
    using go
  proof (cases rule: code_grant_stages)
    case s: (code c e w1)
    with single [OF h(2) s(3,2)] show ?thesis by simp
  next
    case s: (mismatch c a' w1)
    with single [OF h(2) s(3,2)] h(3) show ?thesis by simp
  next
    case s: (owner c a' e w1 w2)
    with single [OF h(2) s(3,2)] found [OF s(2,3,5)] h(4) show ?thesis by simp
  next
    case s: (mint c a' u w1 w2 w3)
    with single [OF h(2) s(3,2)] found [OF s(2,3,5)] h(4) show ?thesis by simp
  qed (use h at in auto)
  have minted: "\<exists>w3. run (mint_pair X u c a) w3 = (r, w') \<and> now w3 = now w \<and> draws w3 = draws w
      \<and> tables_of X w3 = tables_of X w"
    if h: "client_authenticates X w req c" "code_at X w (tq_Code req) = Some a" "code_matches req a"
      "user_by_id X w (ac_UserID a) = Some u"
    using go
  proof (cases rule: code_grant_stages)
    case s: (code c e w1)
    with single [OF h(2) s(3,2)] show ?thesis by simp
  next
    case s: (mismatch c a' w1)
    with single [OF h(2) s(3,2)] h(3) show ?thesis by simp
  next
    case s: (owner c a' e w1 w2)
    with single [OF h(2) s(3,2)] found [OF s(2,3,5)] h(4) show ?thesis by simp
  next
    case s: (mint c' a' u' w1 w2 w3)
    have eq: "c' = c" "a' = a" "u' = u"
      using one [OF h(1) s(1)] single [OF h(2) s(3,2)] found [OF s(2,3,5)] h(4) by simp_all
    note w2 = after_consume [OF s(2,3)] and o = sql_reads(3) [OF assms(2) s(5)]
    show ?thesis
      using s(6) w2 same_world_reads(7-9) [OF o] by (intro exI [of _ w3]) (simp add: eq)
  qed (use h at in auto)
  show "\<exists>resp. r = Inr resp"
    if h: "client_authenticates X w req c" "code_at X w (tq_Code req) = Some a" "code_matches req a"
      "user_by_id X w (ac_UserID a) = Some u" and sg: "jwt_sign X (grant_claims X w u c a) \<noteq> None"
      and ft: "fits 36 (new_uuid X (draws w + 2))" "fits 36 (us_ID u)" "fits 36 (cl_ID c)"
      and fr: "\<not> (\<exists>v \<in> set (t_tokens (tables_of X w)). sql_eq X (tw_id v) (new_uuid X (draws w + 2)))"
      and us: "\<exists>v \<in> set (t_users (tables_of X w)). sql_eq X (us_ID v) (us_ID u)"
  proof -
    obtain w3 where m: "run (mint_pair X u c a) w3 = (r, w')" "now w3 = now w" "draws w3 = draws w"
      "tables_of X w3 = tables_of X w"
      using minted [OF h] by blast
    show ?thesis
      using mint_pair_cases(6) [OF assms(2,3) m(1) TrueI, unfolded grant_reads [OF m(2-4)] m(2-4)]
        sg ft fr us by blast
  qed
  show "r = Inl (wrap ''TokenGrantService.authorizationCodeGrant'' (ErrNew ''signing''))"
    if h: "client_authenticates X w req c" "code_at X w (tq_Code req) = Some a" "code_matches req a"
      "user_by_id X w (ac_UserID a) = Some u" and sg: "jwt_sign X (grant_claims X w u c a) = None"
  proof -
    obtain w3 where m: "run (mint_pair X u c a) w3 = (r, w')" "now w3 = now w" "draws w3 = draws w"
      using minted [OF h] by blast
    with sg show ?thesis
      by (auto simp: mint_pair_def Let_def run_IssueAccessToken grant_claims_def)
  qed
qed

end
