(* ===== verification/ClientService.thy ===== *)
theory ClientService
  imports SqlRepos
begin

text \<open>
  \<open>internal/service/client.go\<close>: registration of OAuth clients, and the secret they are given.
\<close>

section \<open>Operations\<close>

text \<open>The loop over \<open>req.GrantTypes\<close>: the first grant type that is refused decides.\<close>

fun check_grant_types :: "('r, 'd) ext \<Rightarrow> bool \<Rightarrow> gostring list \<Rightarrow> goerr option" where
  "check_grant_types X isPublic [] = None"
| "check_grant_types X isPublic (gt # gts) =
     (if isPublic \<and> gt = GrantClientCredentials then Some ErrPublicClientCredentialsGrant
      else if \<not> supported_grant gt
      then Some (Errorf [] ErrUnsupportedGrantType ('': '' @ go_quote X gt))
      else check_grant_types X isPublic gts)"

text \<open>The raw secret and its hash, both empty for a public client.\<close>

definition make_secret :: "('r, 'd) ext \<Rightarrow> bool \<Rightarrow> ('r, 'd, gostring \<times> gostring) prog" where
  "make_secret X isPublic = (if isPublic then ret (Inr ([], [])) else do {
     raw \<leftarrow> draw (rand32 X);
     case raw of
       None \<Rightarrow> ret (Inl (wrap ''ClientService.RegisterClient generating secret'' (ErrNew ''rand'')))
     | Some rawBytes \<Rightarrow> do {
         let rawSecret = base64_raw_url rawBytes;
         hash \<leftarrow> draw (\<lambda>n. bcrypt_gen X n rawSecret);
         ret (case hash of
           None \<Rightarrow> Inl (wrap ''ClientService.RegisterClient hashing secret'' (ErrNew ''bcrypt''))
         | Some h \<Rightarrow> Inr (rawSecret, h))
       }
   })"

definition RegisterClient :: "('r, 'd) ext \<Rightarrow> register_client_request
    \<Rightarrow> ('r, 'd, register_client_response) prog" where
  "RegisterClient X req = (case check_grant_types X (rq_IsPublic req) (elems (rq_GrantTypes req)) of
     Some e \<Rightarrow> ret (Inl e)
   | None \<Rightarrow> do {
       secret \<leftarrow> make_secret X (rq_IsPublic req);
       case secret of
         Inl e \<Rightarrow> ret (Inl e)
       | Inr (rawSecret, secretHash) \<Rightarrow> do {
           clientID \<leftarrow> draw (new_uuid X);
           r \<leftarrow> Client_Create X \<lparr>cl_ID = clientID, cl_Name = rq_Name req,
             cl_ClientSecretHash = secretHash, cl_RedirectURIs = rq_RedirectURIs req,
             cl_Scopes = rq_Scopes req, cl_GrantTypes = rq_GrantTypes req,
             cl_IsFirstParty = rq_IsFirstParty req, cl_CreatedAt = zero_time\<rparr>;
           ret (case r of
             Inl e \<Rightarrow> Inl (wrap ''ClientService.RegisterClient'' e)
           | Inr _ \<Rightarrow> Inr \<lparr>rp_ClientID = clientID, rp_ClientSecret = rawSecret,
               rp_Name = rq_Name req\<rparr>)
         }
     })"

section \<open>Lemmas\<close>

lemma make_secret_frame [frame]:
  "keeps_field now (make_secret X p)" "keeps_field rds (make_secret X p)"
  "keeps_field sdb (make_secret X p)"
  unfolding make_secret_def Let_def by (intro keeps_field_intros frame)+

lemma RegisterClient_frame [frame]:
  "keeps_field now (RegisterClient X req)" "keeps_field rds (RegisterClient X req)"
  unfolding RegisterClient_def
  by (intro keeps_field_intros keeps_field_case_prod frame)+

lemma check_grant_types_None:
  "check_grant_types X p gts = None \<longleftrightarrow>
     (\<forall>gt \<in> set gts. supported_grant gt \<and> \<not> (p \<and> gt = GrantClientCredentials))"
  by (induction gts) auto

lemma supported_grant_iff:
  "supported_grant gt \<longleftrightarrow> gt = ''authorization_code'' \<or> gt = ''refresh_token''"
  by (auto simp: supported_grant_def SupportedGrantTypes_def GrantAuthorizationCode_def
      GrantRefreshToken_def split: if_splits)

lemma check_grant_types_Some:
  "check_grant_types X p gts = Some e \<Longrightarrow>
     e = ErrPublicClientCredentialsGrant
       \<and> p \<and> GrantClientCredentials \<in> set gts
     \<or> (\<exists>gt \<in> set gts. e = Errorf [] ErrUnsupportedGrantType ('': '' @ go_quote X gt)
         \<and> \<not> supported_grant gt)"
  by (induction gts) (auto split: if_splits)

lemma make_secret_Inr:
  assumes "library_ok X" and "run (make_secret X p) w = (Inr (raw, h), w')"
  shows "if p then raw = [] \<and> h = []
    else h \<noteq> [] \<and> bcrypt_matches X h raw \<and> (\<exists>b. length b = 32 \<and> raw = base64_raw_url b)"
proof (cases p)
  case False
  with assms(2) obtain b where b: "rand32 X (draws w) = Some b" and raw: "raw = base64_raw_url b"
    and h: "bcrypt_gen X (Suc (draws w)) raw = Some h"
    by (auto simp: make_secret_def Let_def split: option.splits)
  have "length b = 32" and "length h = 60" and "bcrypt_matches X h raw"
    using assms(1) b h by (auto simp: library_ok_def)
  with False raw show ?thesis by auto
qed (use assms(2) in \<open>simp add: make_secret_def\<close>)

lemma RegisterClient_Inr:
  assumes "tables_ok X" "library_ok X" and "run (RegisterClient X req) w = (Inr resp, w')"
  obtains h row c where "tables_of X w' = (tables_of X w)\<lparr>t_clients := t_clients (tables_of X w) @ [row]\<rparr>"
    and "scan_client row = Inr c" and "cr_id row = cl_ID c"
    and "c = \<lparr>cl_ID = char_value (rp_ClientID resp), cl_Name = rq_Name req, cl_ClientSecretHash = h,
          cl_RedirectURIs = valid_slice (rq_RedirectURIs req), cl_Scopes = valid_slice (rq_Scopes req),
          cl_GrantTypes = valid_slice (rq_GrantTypes req), cl_IsFirstParty = rq_IsFirstParty req,
          cl_CreatedAt = sql_datetime X (sql_now X (now w))\<rparr>"
    and "\<forall>gt \<in> set (elems (rq_GrantTypes req)). supported_grant gt"
    and "if rq_IsPublic req then rp_ClientSecret resp = [] \<and> h = []
         else h \<noteq> [] \<and> bcrypt_matches X h (rp_ClientSecret resp)
           \<and> (\<exists>b. length b = 32 \<and> rp_ClientSecret resp = base64_raw_url b)"
    and "rp_Name resp = rq_Name req"
    and "\<not> (\<exists>v \<in> set (t_clients (tables_of X w)). sql_eq X (cr_id v) (rp_ClientID resp))"
proof -
  have X: "mysql_ok X" "columns_ok X" using assms(1) by (simp_all add: tables_ok_def)
  obtain raw h w1 where s: "run (make_secret X (rq_IsPublic req)) w = (Inr (raw, h), w1)"
    and g: "check_grant_types X (rq_IsPublic req) (elems (rq_GrantTypes req)) = None"
    using assms(3) by (auto simp: RegisterClient_def split: option.splits prod.splits sum.splits)
  let ?w1 = "w1\<lparr>draws := Suc (draws w1)\<rparr>"
  let ?c = "\<lparr>cl_ID = new_uuid X (draws w1), cl_Name = rq_Name req, cl_ClientSecretHash = h,
    cl_RedirectURIs = rq_RedirectURIs req, cl_Scopes = rq_Scopes req,
    cl_GrantTypes = rq_GrantTypes req, cl_IsFirstParty = rq_IsFirstParty req,
    cl_CreatedAt = zero_time\<rparr>"
  have c: "run (Client_Create X ?c) ?w1 = (Inr (), w')"
    and resp: "resp = \<lparr>rp_ClientID = new_uuid X (draws w1), rp_ClientSecret = raw, rp_Name = rq_Name req\<rparr>"
    using assms(3) s g
    by (auto simp: RegisterClient_def split: option.splits prod.splits sum.splits)
  have w1: "now ?w1 = now w" "tables_of X ?w1 = tables_of X w"
    using keeps_field_runD [OF make_secret_frame(1) s] keeps_field_runD [OF make_secret_frame(3) s]
    by (simp_all add: tables_of_def)
  obtain row where r: "scan_client row = Inr (client_stored X ?w1 ?c)"
    "tables_of X w' = (tables_of X w)\<lparr>t_clients := t_clients (tables_of X w) @ [row]\<rparr>"
    "cr_id row = char_value (cl_ID ?c)"
    "\<not> (\<exists>v \<in> set (t_clients (tables_of X w)). sql_eq X (cr_id v) (cl_ID ?c))"
    by (rule Client_Create_tables [OF X c, unfolded w1]) simp
  show thesis
  proof (rule that [of row])
    show "if rq_IsPublic req then rp_ClientSecret resp = [] \<and> h = []
         else h \<noteq> [] \<and> bcrypt_matches X h (rp_ClientSecret resp)
           \<and> (\<exists>b. length b = 32 \<and> rp_ClientSecret resp = base64_raw_url b)"
      using make_secret_Inr [OF assms(2) s] by (simp add: resp)
    show "\<forall>gt \<in> set (elems (rq_GrantTypes req)). supported_grant gt"
      using g by (simp add: check_grant_types_None)
  qed (use r in \<open>simp_all add: resp client_stored_def w1\<close>)
qed

end
