(* ===== verification/Handlers.thy ===== *)
theory Handlers
  imports Validator TokenGrant ClientService
begin

text \<open>
  Package \<open>handler\<close>.  A handler takes the request and runs in the world of the services; its
  value is the response it wrote, or a panic.  \<open>auth_handler\<close> is the structure
  \<open>AuthHandler\<close>: the methods of its collaborators (the interfaces of \<open>ports.go\<close>) and the
  two settings.
\<close>

record ('r, 'd) auth_handler =
  ah_Login :: "login_request \<Rightarrow> ('r, 'd, login_result) prog"
  ah_Logout :: "gostring \<Rightarrow> ('r, 'd, unit) prog"
  ah_RefreshToken :: "gostring \<Rightarrow> ('r, 'd, refresh_response) prog"
  ah_Authorize :: "authorize_request \<Rightarrow> gostring \<Rightarrow> ('r, 'd, authorize_result) prog"
  ah_RegisterClient :: "register_client_request \<Rightarrow> ('r, 'd, register_client_response) prog"
  ah_Exchange :: "token_request \<Rightarrow> ('r, 'd, token_response) prog"
  ah_JWKS :: "jwk list"
  ah_secureCookies :: bool
  ah_loginURL :: gostring

type_synonym ('r, 'd) endpoint = "http_request \<Rightarrow> ('r, 'd, http_response) prog"

text \<open>A call of a service and what is done with its two results; a panic goes through.\<close>

definition call :: "('r, 'd, 'a) prog \<Rightarrow> (goerr + 'a \<Rightarrow> http_response) \<Rightarrow> ('r, 'd, http_response) prog"
where
  "call m k = do {
     r \<leftarrow> m;
     ret (case r of Inl (Panic msg) \<Rightarrow> Inl (Panic msg) | _ \<Rightarrow> Inr (k r))
   }"

definition SessionCookieName :: gostring where
  "SessionCookieName = ''session_id''"

definition internal_error :: http_response where
  "internal_error = WriteError 500 ''internal server error'' new_response"

section \<open>Login and logout\<close>

definition login_fields :: "login_request fields" where
  "login_fields =
     [(''email'', str_field (\<lambda>t a. a\<lparr>lq_Email := t\<rparr>)),
      (''password'', str_field (\<lambda>t a. a\<lparr>lq_Password := t\<rparr>))]"

definition decode_login :: "gostring \<Rightarrow> login_request option" where
  "decode_login body =
     decode_struct login_fields \<lparr>lq_Email = [], lq_Password = []\<rparr> (json_decode_stream body)"

definition safeNext :: "web \<Rightarrow> gostring \<Rightarrow> gostring" where
  "safeNext H nxt =
    (if nxt = [] then ''/''
     else if \<not> has_prefix nxt ''/'' \<or> has_prefix nxt ''//'' then ''/''
     else case parse_url (ip_literal H) nxt of
       None \<Rightarrow> ''/''
     | Some u \<Rightarrow>
         if is_abs u \<or> u_Host u \<noteq> [] then ''/''
         else if u_Path u \<noteq> ''/oauth/authorize'' then ''/''
         else url_text u)"

definition login_response_json :: "gostring \<Rightarrow> gostring \<Rightarrow> json" where
  "login_response_json nxt expires =
     JObj [(''next'', JStr nxt), (''session_expires_at'', JStr expires)]"

definition login_cookie :: "bool \<Rightarrow> login_result \<Rightarrow> cookie" where
  "login_cookie secure result = \<lparr>ck_Name = SessionCookieName, ck_Value = lr_SessionID result,
     ck_Path = ''/'', ck_Expires = Some (lr_ExpiresAt result), ck_MaxAge = 0, ck_HttpOnly = True,
     ck_Secure = secure, ck_SameSite = SameSiteLax\<rparr>"

definition login_answer :: "('r, 'd) ext \<Rightarrow> gostring \<Rightarrow> bool \<Rightarrow> goerr + login_result \<Rightarrow> http_response"
where
  "login_answer X nxt secure res = (case res of
     Inl err \<Rightarrow>
       if err_is err ErrEmailOrPasswordWrong
       then WriteError 401 ''email or password wrong'' new_response
       else internal_error
   | Inr result \<Rightarrow>
       WriteJSON 200 (map_option (login_response_json nxt) (time_text X (lr_ExpiresAt result)))
         (SetCookie (login_cookie secure result) new_response))"

definition LoginHandler ::
  "('r, 'd) ext \<Rightarrow> web \<Rightarrow> ('r, 'd) auth_handler \<Rightarrow> ('r, 'd) endpoint" where
  "LoginHandler X H h r = (case decode_login (hr_Body r) of
     None \<Rightarrow> ret (Inr (WriteError 400 ''invalid request body'' new_response))
   | Some req \<Rightarrow>
       if lq_Email req = [] \<or> lq_Password req = []
       then ret (Inr (WriteError 400 ''email and password are required'' new_response))
       else let nxt = safeNext H (vals_get (url_query r) ''next'') in
         call (ah_Login h req) (login_answer X nxt (ah_secureCookies h)))"

definition cleared_cookie :: "bool \<Rightarrow> cookie" where
  "cleared_cookie secure = \<lparr>ck_Name = SessionCookieName, ck_Value = [], ck_Path = ''/'',
     ck_Expires = None, ck_MaxAge = -1, ck_HttpOnly = True, ck_Secure = secure,
     ck_SameSite = SameSiteLax\<rparr>"

definition logged_out :: "bool \<Rightarrow> http_response" where
  "logged_out secure = WriteHeader 204 (SetCookie (cleared_cookie secure) new_response)"

definition LogoutHandler :: "('r, 'd) auth_handler \<Rightarrow> ('r, 'd) endpoint" where
  "LogoutHandler h r = (case map_of (hr_Cookies r) SessionCookieName of
     None \<Rightarrow> ret (Inr (logged_out (ah_secureCookies h)))
   | Some value \<Rightarrow> call (ah_Logout h value) (\<lambda>res. case res of
       Inl err \<Rightarrow> internal_error
     | Inr _ \<Rightarrow> logged_out (ah_secureCookies h)))"

section \<open>Refresh and client registration\<close>

definition decode_refresh :: "gostring \<Rightarrow> gostring option" where
  "decode_refresh body =
     decode_struct [(''refresh_token'', str_field (\<lambda>t a. t))] [] (json_decode_stream body)"

definition refresh_response_json :: "refresh_response \<Rightarrow> json" where
  "refresh_response_json v = JObj [(''access_token'', JStr (rr_AccessToken v)),
     (''access_token_expiry'', JNum (itoa (rr_AccessTokenExpiryIn v)))]"

definition RefreshHandler :: "('r, 'd) auth_handler \<Rightarrow> ('r, 'd) endpoint" where
  "RefreshHandler h r = (case decode_refresh (hr_Body r) of
     None \<Rightarrow> ret (Inr (WriteError 400 ''invalid request body'' new_response))
   | Some rawToken \<Rightarrow>
       if rawToken = [] then ret (Inr (WriteError 400 ''refresh token is required'' new_response))
       else call (ah_RefreshToken h rawToken) (\<lambda>res. case res of
         Inl err \<Rightarrow> internal_error
       | Inr v \<Rightarrow> WriteJSON 200 (Some (refresh_response_json v)) new_response))"

definition register_client_fields :: "register_client_request fields" where
  "register_client_fields =
     [(''name'', str_field (\<lambda>t a. a\<lparr>rq_Name := t\<rparr>)),
      (''redirect_uris'', slice_field (\<lambda>t a. a\<lparr>rq_RedirectURIs := t\<rparr>)),
      (''scopes'', slice_field (\<lambda>t a. a\<lparr>rq_Scopes := t\<rparr>)),
      (''grant_types'', slice_field (\<lambda>t a. a\<lparr>rq_GrantTypes := t\<rparr>)),
      (''is_first_party'', bool_field (\<lambda>t a. a\<lparr>rq_IsFirstParty := t\<rparr>)),
      (''is_public'', bool_field (\<lambda>t a. a\<lparr>rq_IsPublic := t\<rparr>))]"

definition decode_register_client :: "gostring \<Rightarrow> register_client_request option" where
  "decode_register_client body = decode_struct register_client_fields
     \<lparr>rq_Name = [], rq_RedirectURIs = None, rq_Scopes = None, rq_GrantTypes = None,
      rq_IsFirstParty = False, rq_IsPublic = False\<rparr> (json_decode_stream body)"

definition register_client_json :: "register_client_response \<Rightarrow> json" where
  "register_client_json v = JObj ([(''client_id'', JStr (rp_ClientID v))]
     @ (if rp_ClientSecret v = [] then [] else [(''client_secret'', JStr (rp_ClientSecret v))])
     @ [(''name'', JStr (rp_Name v))])"

definition RegisterClientHandler :: "('r, 'd) auth_handler \<Rightarrow> ('r, 'd) endpoint" where
  "RegisterClientHandler h r = (case decode_register_client (hr_Body r) of
     None \<Rightarrow> ret (Inr (WriteError 400 ''invalid request body'' new_response))
   | Some req \<Rightarrow>
       if rq_Name req = [] then ret (Inr (WriteError 400 ''name is required'' new_response))
       else if elems (rq_RedirectURIs req) = []
       then ret (Inr (WriteError 400 ''at least one redirect_uri is required'' new_response))
       else if elems (rq_GrantTypes req) = []
       then ret (Inr (WriteError 400 ''at least one grant_type is required'' new_response))
       else call (ah_RegisterClient h req) (\<lambda>res. case res of
         Inl err \<Rightarrow>
           if err_is err ErrUnsupportedGrantType \<or> err_is err ErrPublicClientCredentialsGrant
           then WriteError 400 (err_text err) new_response
           else internal_error
       | Inr v \<Rightarrow> WriteJSON 201 (Some (register_client_json v)) new_response))"

section \<open>The authorization endpoint\<close>

text \<open>\<open>encoding/json\<close> writes the members of a map sorted by key.\<close>

definition validation_error_json :: "(gostring \<times> gostring) list \<Rightarrow> json" where
  "validation_error_json errs = JObj
     [(''error'', JStr ''invalid_request''),
      (''error_description'', JStr ''one or more parameters failed validation''),
      (''fields'', JObj (map (\<lambda>(k, m). (k, JStr m)) (sort_key fst errs)))]"

definition writeValidationError :: "(gostring \<times> gostring) list \<Rightarrow> http_response \<Rightarrow> http_response" where
  "writeValidationError errs w = WriteJSON 400 (Some (validation_error_json errs)) w"

definition answer_authorize ::
  "web \<Rightarrow> gostring \<Rightarrow> http_request \<Rightarrow> authorize_result \<Rightarrow> http_response" where
  "answer_authorize H loginURL r res = (case az_Action res of
     ActionIssueCode \<Rightarrow> RedirectWith (ip_literal H) r (az_RedirectURI res)
       [''code'', az_Code res, ''state'', az_State res] new_response
   | ActionRequireLogin \<Rightarrow> RedirectWith (ip_literal H) r loginURL
       [''next'', RequestURI (hr_URL r)] new_response
   | ActionErrorToClient \<Rightarrow> RedirectWith (ip_literal H) r (az_RedirectURI res)
       [''error'', az_OAuthError res, ''state'', az_State res] new_response
   | ActionRejectDirect \<Rightarrow> WriteError 400 (az_Message res) new_response)"

definition AuthorizeHandler :: "web \<Rightarrow> ('r, 'd) auth_handler \<Rightarrow> ('r, 'd) endpoint" where
  "AuthorizeHandler H h r =
    (let req = ParseAuthorizeRequest (url_query r) in
     case Authorize_Validate H req of
       Some errs \<Rightarrow> ret (Inr (writeValidationError errs new_response))
     | None \<Rightarrow> call (ah_Authorize h req (CookieValue r SessionCookieName)) (\<lambda>res. case res of
         Inl err \<Rightarrow> internal_error
       | Inr res \<Rightarrow> answer_authorize H (ah_loginURL h) r res))"

section \<open>The token endpoint\<close>

definition noStore :: "http_response \<Rightarrow> http_response" where
  "noStore w = set_header ''Pragma'' ''no-cache'' (set_header ''Cache-Control'' ''no-store'' w)"

definition token_error_json :: "gostring \<Rightarrow> gostring \<Rightarrow> json" where
  "token_error_json code description = JObj ([(''error'', JStr code)]
     @ (if description = [] then [] else [(''error_description'', JStr description)]))"

definition writeTokenError :: "nat \<Rightarrow> gostring \<Rightarrow> gostring \<Rightarrow> http_response \<Rightarrow> http_response" where
  "writeTokenError status code description w =
     WriteJSON status (Some (token_error_json code description)) (noStore w)"

definition challenge :: "http_response \<Rightarrow> http_response" where
  "challenge w = set_header ''Www-Authenticate'' ''Basic realm=\"oauth2\"'' w"

definition writeTokenExchangeError :: "goerr \<Rightarrow> http_response \<Rightarrow> http_response" where
  "writeTokenExchangeError err w =
    (if err_is err ErrUnsupportedGrantType then writeTokenError 400 ''unsupported_grant_type'' [] w
     else if err_is err ErrInvalidClient then writeTokenError 401 ''invalid_client'' [] (challenge w)
     else if err_is err ErrUnauthorizedClient then writeTokenError 400 ''unauthorized_client'' [] w
     else if err_is err ErrInvalidScope then writeTokenError 400 ''invalid_scope'' [] w
     else if err_is err ErrInvalidGrant then writeTokenError 400 ''invalid_grant'' [] w
     else writeTokenError 400 ''invalid_grant'' ''the authorization grant is invalid'' w)"

text \<open>Credentials, or an OAuth error code.\<close>

definition resolveClient :: "http_request \<Rightarrow> token_request \<Rightarrow> gostring + gostring \<times> gostring" where
  "resolveClient r req =
    (let basic = BasicAuth r;
         hasAuthHeader = hr_Authorization r \<noteq> [];
         hasBody = tq_ClientID req \<noteq> [] \<or> tq_ClientSecret req \<noteq> []
     in if hasAuthHeader \<and> basic = None then Inl ''invalid_client''
        else case basic of
          Some cred \<Rightarrow> if hasBody then Inl ''invalid_request'' else Inr cred
        | None \<Rightarrow>
            if tq_ClientID req \<noteq> [] then Inr (tq_ClientID req, tq_ClientSecret req)
            else Inl ''invalid_client'')"

definition token_response_json :: "token_response \<Rightarrow> json" where
  "token_response_json v = JObj ([(''access_token'', JStr (tr_AccessToken v)),
      (''token_type'', JStr (tr_TokenType v)),
      (''expires_in'', JNum (itoa (tr_ExpiresIn v))),
      (''scope'', JStr (tr_Scope v))]
     @ (if tr_RefreshToken v = [] then [] else [(''refresh_token'', JStr (tr_RefreshToken v))]))"

definition TokenHandler :: "web \<Rightarrow> ('r, 'd) auth_handler \<Rightarrow> ('r, 'd) endpoint" where
  "TokenHandler H h r = (case hr_PostForm r of
     None \<Rightarrow> ret (Inr (writeTokenError 400 ''invalid_request'' ''malformed form body'' new_response))
   | Some form \<Rightarrow>
       (let dto = ParseTokenRequest form in
        case resolveClient r dto of
          Inl oauthErr \<Rightarrow>
            ret (Inr (if oauthErr = ''invalid_client''
              then writeTokenError 401 oauthErr [] (challenge new_response)
              else writeTokenError 400 oauthErr [] new_response))
        | Inr (i, secret) \<Rightarrow>
            (let req = dto\<lparr>tq_ClientID := i, tq_ClientSecret := secret\<rparr> in
             case Token_Validate H req of
               Some errs \<Rightarrow> ret (Inr (writeValidationError errs (noStore new_response)))
             | None \<Rightarrow> call (ah_Exchange h req) (\<lambda>res. case res of
                 Inl err \<Rightarrow> writeTokenExchangeError err new_response
               | Inr resp \<Rightarrow> WriteJSON 200 (Some (token_response_json resp)) (noStore new_response)))))"

section \<open>The key set\<close>

definition jwk_json :: "jwk \<Rightarrow> json" where
  "jwk_json k = JObj [(''kty'', JStr (jk_Kty k)), (''use'', JStr (jk_Use k)), (''alg'', JStr (jk_Alg k)),
     (''kid'', JStr (jk_Kid k)), (''n'', JStr (jk_N k)), (''e'', JStr (jk_E k))]"

definition jwks_json :: "jwk list \<Rightarrow> json" where
  "jwks_json ks = JObj [(''keys'', JArr (map jwk_json ks))]"

definition JWKSHandler :: "('r, 'd) auth_handler \<Rightarrow> ('r, 'd) endpoint" where
  "JWKSHandler h r = ret (Inr (WriteJSON 200 (Some (jwks_json (ah_JWKS h)))
     (set_header ''Cache-Control'' ''public, max-age=300'' new_response)))"

section \<open>Routes\<close>

text \<open>
  What \<open>main\<close> builds: the handler over the services, the table of routes, and \<open>Recoverer\<close>,
  the middleware of chi, of which its documentation is kept: it turns a panic into a 500.  What chi answers to a request that no route matches is its own.
\<close>

definition NewAuthHandler ::
  "('r, 'd) ext \<Rightarrow> int \<Rightarrow> int \<Rightarrow> bool \<Rightarrow> gostring \<Rightarrow> ('r, 'd) auth_handler" where
  "NewAuthHandler X key_N key_E secureCookies loginURL = \<lparr>
     ah_Login = Login X, ah_Logout = Logout X, ah_RefreshToken = RefreshToken X,
     ah_Authorize = Authorize X, ah_RegisterClient = RegisterClient X, ah_Exchange = Exchange X,
     ah_JWKS = JWKS key_N key_E,
     ah_secureCookies = secureCookies, ah_loginURL = loginURL\<rparr>"

definition routes ::
  "('r, 'd) ext \<Rightarrow> web \<Rightarrow> ('r, 'd) auth_handler
    \<Rightarrow> ((gostring \<times> gostring) \<times> ('r, 'd) endpoint) list" where
  "routes X H h =
    [((''GET'', ''/.well-known/jwks.json''), JWKSHandler h),
     ((''POST'', ''/login''), LoginHandler X H h),
     ((''POST'', ''/logout''), LogoutHandler h),
     ((''POST'', ''/refresh''), RefreshHandler h),
     ((''GET'', ''/oauth/authorize''), AuthorizeHandler H h),
     ((''POST'', ''/oauth/token''), TokenHandler H h),
     ((''POST'', ''/admin/clients''), RegisterClientHandler h)]"

definition Recoverer :: "('r, 'd, http_response) prog \<Rightarrow> (('r, 'd) world, http_response) state" where
  "Recoverer m = do {
     r \<leftarrow> m;
     ret (case r of Inl _ \<Rightarrow> WriteHeader 500 new_response | Inr w \<Rightarrow> w)
   }"

end
