(* ===== verification/Redirects.thy ===== *)
theory Redirects
  imports Http "HOL-Library.Multiset"
begin

text \<open>
  What \<open>url.Parse\<close>, \<open>URL.String\<close> and \<open>http.Redirect\<close> do to a redirect target: the lemmas
  behind the statements on the \<open>Location\<close> header and on \<open>safeNext\<close>.
\<close>

section \<open>Escaped texts are ASCII\<close>

lemma escape_non_ascii: "\<not> byte c < 128 \<Longrightarrow> should_escape c m"
proof -
  assume c: "\<not> byte c < 128"
  have no: "(c \<in> set S) = False" if "list_all (\<lambda>x. byte x < 128) S" for S
    using that c by (auto simp: list_all_iff)
  have sets: "(c \<in> set (CHR 0x27 # ''!$&()*+,;=:[]<>\"'')) = False" "(c \<in> set ''-_.~'') = False"
    "(c \<in> set ''$&+,/:;=?@'') = False" "(c \<in> set ''!()*'') = False"
    by (rule no, simp)+
  have "alnum c = False" using c by (auto simp: alnum_def cont_def)
  then show "should_escape c m"
    unfolding should_escape_def sets by simp
qed

lemma upper_hex_ascii: "n < 16 \<Longrightarrow> byte (upper_hex n) < 128"
proof -
  have "\<forall>n \<in> set [0..<16]. byte (upper_hex n) < 128" by code_simp
  then show "n < 16 \<Longrightarrow> byte (upper_hex n) < 128" by simp
qed

lemma ascii_escape [simp]: "ascii (url_escape m s)"
proof -
  have "byte d < 128" if "d \<in> set (escape_char m c)" for c d
    using that escape_non_ascii [of c m] byte_16(1,2) [of c]
    by (auto simp: escape_char_def upper_hex_ascii split: if_splits)
  then show ?thesis by (auto simp: url_escape_def ascii_def)
qed

lemma ascii_escaped [simp]: "ascii (escaped m raw plain)"
proof (cases "valid_encoded m raw")
  case True
  have "byte c < 128" if "c \<in> set raw" for c
  proof (rule ccontr)
    assume c: "\<not> byte c < 128"
    then have "c \<notin> set (CHR 0x27 # CHR 0x25 # ''!$&()*+,;=:@[]'')" by auto
    with True that escape_non_ascii [OF c] show False unfolding valid_encoded_def by blast
  qed
  then have "ascii raw" by (simp add: ascii_def)
  then show ?thesis by (simp add: escaped_def)
qed (simp add: escaped_def)

lemma hex_escape_ascii: "ascii s \<Longrightarrow> hex_escape_non_ascii s = s"
  by (induction s) (auto simp: hex_escape_non_ascii_def ascii_def)

lemma unescape_escaped [simp]: "url_unescape EncodePath (escaped EncodePath raw plain) = Some plain"
  by (simp add: escaped_def)

section \<open>Schemes\<close>

definition scheme :: "gostring \<Rightarrow> bool" where
  "scheme s \<longleftrightarrow> s \<noteq> [] \<and> (cont 65 90 (hd s) \<or> cont 97 122 (hd s)) \<and> (\<forall>c \<in> set s. scheme_char c)"

lemma lower_char:
  assumes "cont 65 90 c"
  shows "scheme_char (char_of (byte c + 32))" "cont 97 122 (char_of (byte c + 32) :: char)"
  using assms by (auto simp: scheme_char_def alnum_def cont_def of_char_of)

lemma scheme_lower: "scheme s \<Longrightarrow> scheme (lower s)"
  by (cases s) (auto simp: scheme_def lower_def lower_char)

lemma get_scheme_scheme: "get_scheme s = Some (p, r) \<Longrightarrow> p = [] \<or> scheme p \<and> s = p @ CHR '':'' # r"
proof -
  assume g: "get_scheme s = Some (p, r)"
  define q where "q = takeWhile scheme_char s"
  have s: "q @ drop (length q) s = s"
    unfolding q_def by (metis takeWhile_dropWhile_id takeWhile_eq_take append_eq_conv_conj)
  have q: "\<forall>c \<in> set q. scheme_char c"
    unfolding q_def using set_takeWhileD by fastforce
  show ?thesis
  proof (cases "drop (length q) s")
    case (Cons c rest)
    with g s q show ?thesis
      unfolding get_scheme_def q_def [symmetric] Let_def
      by (auto simp: scheme_def split: if_splits)
  qed (use g in \<open>auto simp: get_scheme_def q_def Let_def split: if_splits\<close>)
qed

lemma scheme_get: "scheme p \<Longrightarrow> get_scheme (p @ CHR '':'' # r) = Some (p, r)"
proof -
  assume p: "scheme p"
  have "\<not> scheme_char (CHR '':'')" by (simp add: scheme_char_def alnum_def cont_def)
  then have "takeWhile scheme_char (p @ CHR '':'' # r) = p"
    using p by (simp add: scheme_def)
  with p show ?thesis by (simp add: get_scheme_def scheme_def Let_def)
qed

lemma scheme_ascii: "scheme s \<Longrightarrow> ascii s"
  by (auto simp: scheme_def ascii_def scheme_char_def alnum_def cont_def)

section \<open>What Parse returns\<close>

lemma cut_query_keeps [simp]:
  "u_Scheme (snd (cut_query r u)) = u_Scheme u" "u_Host (snd (cut_query r u)) = u_Host u"
  "u_Opaque (snd (cut_query r u)) = u_Opaque u" "u_User (snd (cut_query r u)) = u_User u"
  by (simp_all add: cut_query_def case_prod_beta)

lemma set_path_keeps:
  assumes "set_path p u = Some v"
  shows "u_Scheme v = u_Scheme u" "u_Host v = u_Host u" "u_Opaque v = u_Opaque u"
    "u_User v = u_User u" "u_RawQuery v = u_RawQuery u" "u_ForceQuery v = u_ForceQuery u"
    "u_OmitHost v = u_OmitHost u" "u_Fragment v = u_Fragment u"
    "url_unescape EncodePath p = Some (u_Path v)"
    "u_RawPath v = (if p = url_escape EncodePath (u_Path v) then [] else p)"
  using assms by (auto simp: set_path_def split: option.splits)

lemma set_fragment_keeps:
  assumes "set_fragment f u = Some v"
  shows "u_Scheme v = u_Scheme u" "u_Host v = u_Host u" "u_Opaque v = u_Opaque u"
    "u_User v = u_User u" "u_RawQuery v = u_RawQuery u" "u_ForceQuery v = u_ForceQuery u"
    "u_OmitHost v = u_OmitHost u" "u_Path v = u_Path u" "u_RawPath v = u_RawPath u"
  using assms by (auto simp: set_fragment_def split: option.splits)

lemma parse_rest_keeps:
  assumes "parse_rest L r u = Some v"
  shows "u_Scheme v = u_Scheme u" "u_Host u = [] \<Longrightarrow> u_Opaque u = [] \<Longrightarrow> u_Host v = [] \<or> u_Opaque v = []"
  using assms
  by (auto simp: parse_rest_def set_path_keeps split: if_splits option.splits)

lemma parse_url_shape:
  assumes "parse_url L s = Some u"
  shows "u_Scheme u = [] \<or> scheme (u_Scheme u)" "u_Host u = [] \<or> u_Opaque u = []"
proof -
  obtain v where v: "parse_no_fragment L (fst (cut (CHR ''#'') s)) = Some v"
    and u: "u_Scheme u = u_Scheme v" "u_Host u = u_Host v" "u_Opaque u = u_Opaque v"
    using assms set_fragment_keeps
    by (auto simp: parse_url_def split: prod.splits option.splits if_splits)
  have "(u_Scheme v = [] \<or> scheme (u_Scheme v)) \<and> (u_Host v = [] \<or> u_Opaque v = [])"
  proof (cases "fst (cut (CHR ''#'') s) = ''*''")
    case True
    with v show ?thesis by (auto simp: parse_no_fragment_def zero_url_def split: if_splits)
  next
    case False
    with v obtain p rest where g: "get_scheme (fst (cut (CHR ''#'') s)) = Some (p, rest)"
      and r: "parse_rest L (fst (cut_query rest (zero_url\<lparr>u_Scheme := lower p\<rparr>)))
        (snd (cut_query rest (zero_url\<lparr>u_Scheme := lower p\<rparr>))) = Some v"
      by (auto simp: parse_no_fragment_def case_prod_beta split: if_splits option.splits)
    show ?thesis
      using parse_rest_keeps [OF r] get_scheme_scheme [OF g] scheme_lower
      by (auto simp: zero_url_def lower_def)
  qed
  with u show "u_Scheme u = [] \<or> scheme (u_Scheme u)" "u_Host u = [] \<or> u_Opaque u = []" by simp_all
qed

lemma parse_url_scheme:
  assumes "scheme p" "parse_url L (p @ CHR '':'' # r) = Some u"
  shows "u_Scheme u \<noteq> []"
proof -
  have p: "CHR ''#'' \<notin> set p" "p \<noteq> []"
    using assms(1) by (auto simp: scheme_def scheme_char_def alnum_def cont_def)
  define t where "t = fst (cut (CHR ''#'') (p @ CHR '':'' # r))"
  have t: "t = p @ CHR '':'' # fst (cut (CHR ''#'') r)"
    using p(1) by (simp add: t_def cut_def takeWhile_append)
  obtain v where v: "parse_no_fragment L t = Some v" and u: "u_Scheme u = u_Scheme v"
    using assms(2) set_fragment_keeps(1) unfolding t_def
    by (auto simp: parse_url_def split: prod.splits option.splits if_splits)
  have "t \<noteq> ''*''"
    using p(2) by (cases p) (auto simp: t)
  then have "u_Scheme v = lower p"
    using v parse_rest_keeps(1) scheme_get [OF assms(1)]
    by (auto simp: parse_no_fragment_def t case_prod_beta zero_url_def split: if_splits)
  with u p show ?thesis by (simp add: lower_def)
qed

section \<open>A root-relative reference\<close>

lemma has_prefix_append: "has_prefix a p \<Longrightarrow> has_prefix (a @ b) p"
  unfolding has_prefix_def by (metis append_take_drop_id append.assoc append_eq_conv_conj)

lemma has_prefix_char: "has_prefix s [c] \<longleftrightarrow> s \<noteq> [] \<and> hd s = c"
  by (cases s) (auto simp: has_prefix_def)

lemma get_scheme_rooted: "has_prefix s ''/'' \<Longrightarrow> get_scheme s = Some ([], s)"
proof -
  assume "has_prefix s ''/''"
  then obtain r where s: "s = CHR ''/'' # r" by (cases s) (auto simp: has_prefix_def)
  have "\<not> scheme_char (CHR ''/'')" by (simp add: scheme_char_def alnum_def cont_def)
  then show ?thesis by (simp add: get_scheme_def s)
qed

lemma cut_query_rest:
  "\<exists>q. r = fst (cut_query r u) @ q \<and> (q = [] \<or> hd q = CHR ''?'')"
proof (cases "r \<noteq> [] \<and> last r = CHR ''?'' \<and> CHR ''?'' \<notin> set (butlast r)")
  case True
  then have "r = fst (cut_query r u) @ ''?''"
    using append_butlast_last_id [of r] by (simp add: cut_query_def)
  then show ?thesis by force
next
  case False
  have "r = takeWhile (\<lambda>x. x \<noteq> CHR ''?'') r @ dropWhile (\<lambda>x. x \<noteq> CHR ''?'') r" by simp
  moreover have "dropWhile (\<lambda>x. x \<noteq> CHR ''?'') r = [] \<or> hd (dropWhile (\<lambda>x. x \<noteq> CHR ''?'') r) = CHR ''?''"
    using hd_dropWhile [of "\<lambda>x. x \<noteq> CHR ''?''" r] by blast
  moreover have "fst (cut_query r u) = takeWhile (\<lambda>x. x \<noteq> CHR ''?'') r"
    using False by (auto simp: cut_query_def cut_def)
  ultimately show ?thesis by metis
qed

lemma parse_rooted:
  assumes "has_prefix s ''/''" "\<not> has_prefix s ''//''" "parse_url L s = Some u"
  obtains p q where "s = p @ q" "has_prefix p ''/''"
    "u_Scheme u = []" "u_Host u = []" "u_User u = None" "u_Opaque u = []"
    "url_unescape EncodePath p = Some (u_Path u)"
    "u_RawPath u = (if p = url_escape EncodePath (u_Path u) then [] else p)"
proof -
  define t where "t = fst (cut (CHR ''#'') s)"
  have s: "s = t @ dropWhile (\<lambda>x. x \<noteq> CHR ''#'') s" by (simp add: t_def cut_def)
  have t: "has_prefix t ''/''" "\<not> has_prefix t ''//''"
  proof -
    show "has_prefix t ''/''"
      using assms(1) by (cases s) (auto simp: t_def cut_def has_prefix_char)
    show "\<not> has_prefix t ''//''"
      using assms(2) s has_prefix_append by metis
  qed
  obtain v where v: "parse_no_fragment L t = Some v"
    and u: "u = v \<or> (\<exists>f. set_fragment f v = Some u)"
    using assms(3) unfolding t_def
    by (auto simp: parse_url_def split: prod.splits option.splits if_splits)
  define c where "c = cut_query t (zero_url\<lparr>u_Scheme := lower []\<rparr>)"
  obtain q where q: "t = fst c @ q" "q = [] \<or> hd q = CHR ''?''"
    using cut_query_rest [of t "zero_url\<lparr>u_Scheme := lower []\<rparr>"] unfolding c_def by blast
  have c: "has_prefix (fst c) ''/''" "\<not> has_prefix (fst c) ''//''"
  proof -
    show "has_prefix (fst c) ''/''"
      using t(1) q by (cases "fst c") (auto simp: has_prefix_char)
    show "\<not> has_prefix (fst c) ''//''"
      using t(2) q(1) has_prefix_append by metis
  qed
  have c0: "u_Scheme (snd c) = []" "u_Host (snd c) = []" "u_Opaque (snd c) = []" "u_User (snd c) = None"
    unfolding c_def by (simp_all add: zero_url_def lower_def)
  have "t \<noteq> ''*''" using t(1) by (auto simp: has_prefix_def)
  then have "parse_no_fragment L t = (if has_ctl t then None else parse_rest L (fst c) (snd c))"
    unfolding parse_no_fragment_def get_scheme_rooted [OF t(1)] by (simp add: c_def case_prod_beta)
  then have "parse_rest L (fst c) (snd c) = Some v"
    using v by (simp split: if_splits)
  then have v: "set_path (fst c) (snd c\<lparr>u_OmitHost := False\<rparr>) = Some v"
    using c c0 by (simp add: parse_rest_def)
  note V = set_path_keeps [OF v]
  have U: "u_Scheme u = u_Scheme v" "u_Host u = u_Host v" "u_Opaque u = u_Opaque v" "u_User u = u_User v"
    "u_Path u = u_Path v" "u_RawPath u = u_RawPath v"
    using u set_fragment_keeps by auto
  show thesis
    by (rule that [of "fst c" "q @ dropWhile (\<lambda>x. x \<noteq> CHR ''#'') s"])
      (use s q(1) c(1) c0 V U in simp_all)
qed

section \<open>Where a redirect goes\<close>

text \<open>
  A base that is used as it is: absolute with a host, or a root-relative path that needs no
  cleaning.
\<close>

definition redirect_base :: "(gostring \<Rightarrow> gostring option) \<Rightarrow> gostring \<Rightarrow> url \<Rightarrow> bool" where
  "redirect_base L base u \<longleftrightarrow> parse_url L base = Some u
     \<and> (u_Scheme u \<noteq> [] \<and> u_Host u \<noteq> []
        \<or> has_prefix base ''/'' \<and> \<not> has_prefix base ''//''
          \<and> has_prefix (path_text u) ''/'' \<and> path_clean (path_text u) = path_text u)"

lemma redirect_target_scheme: "scheme p \<Longrightarrow> redirect_target L r (p @ CHR '':'' # t) = p @ CHR '':'' # t"
  using parse_url_scheme [of p L t] by (auto simp: redirect_target_def split: option.split)

lemma redirect_target_rooted:
  assumes "has_prefix p ''/''" "path_clean p = p" "CHR ''?'' \<notin> set p" "q = [] \<or> hd q = CHR ''?''"
  shows "redirect_target L r (p @ q) = p @ q"
proof -
  have pq: "has_prefix (p @ q) ''/''" "p \<noteq> []"
    using assms(1) by (cases p; simp add: has_prefix_def)+
  have "takeWhile (\<lambda>c. c \<noteq> CHR ''?'') (p @ q) = p" "dropWhile (\<lambda>c. c \<noteq> CHR ''?'') (p @ q) = q"
    using assms(3,4) by (cases q; force simp: takeWhile_append dropWhile_append)+
  then have "absolute_target path (p @ q) = p @ q" for path
    using pq assms(2) by (simp add: absolute_target_def Let_def)
  then show ?thesis by (simp add: redirect_target_def split: option.split)
qed

lemma should_escape_query: "should_escape (CHR ''?'') EncodePath"
  by (simp add: should_escape_def alnum_def cont_def)

lemma escape_avoids_query:
  assumes "should_escape (CHR ''?'') m"
  shows "CHR ''?'' \<notin> set (url_escape m s)"
proof -
  have "upper_hex n \<noteq> CHR ''?''" if "n < 16" for n
    using upper_hex_chars [OF that] by auto
  then have x: "CHR ''?'' \<noteq> upper_hex (byte c div 16)" "CHR ''?'' \<noteq> upper_hex (byte c mod 16)" for c
    using byte_16(1,2) by metis+
  then have "CHR ''?'' \<notin> set (escape_char m c)" for c
    using assms by (auto simp: escape_char_def)
  then show ?thesis by (simp add: url_escape_def)
qed

lemma path_no_query: "CHR ''?'' \<notin> set (escaped EncodePath raw plain)"
proof -
  have "CHR ''?'' \<notin> set (url_escape EncodePath s)" for s
    by (rule escape_avoids_query [OF should_escape_query])
  moreover have "CHR ''?'' \<notin> set raw" if "valid_encoded EncodePath raw"
  proof
    assume "CHR ''?'' \<in> set raw"
    with that have "CHR ''?'' \<in> set (CHR 0x27 # CHR 0x25 # ''!$&()*+,;=:@[]'')
        \<or> \<not> should_escape (CHR ''?'') EncodePath"
      unfolding valid_encoded_def by blast
    with should_escape_query show False by simp
  qed
  ultimately show ?thesis by (simp add: escaped_def)
qed

lemma path_text_no_query: "CHR ''?'' \<notin> set (path_text u)"
  using path_no_query [of "u_RawPath u" "u_Path u"] by (simp add: path_text_def Let_def)

lemma rooted_text:
  assumes "has_prefix base ''/''" "\<not> has_prefix base ''//''" "parse_url L base = Some u"
  shows "origin_text u = []" "path_text u = escaped EncodePath (u_RawPath u) (u_Path u)"
proof -
  obtain p q where p: "base = p @ q" "has_prefix p ''/''"
    and u: "u_Scheme u = []" "u_Host u = []" "u_User u = None" "u_Opaque u = []"
    and path: "url_unescape EncodePath p = Some (u_Path u)"
    and raw: "u_RawPath u = (if p = url_escape EncodePath (u_Path u) then [] else p)"
    by (rule parse_rooted [OF assms])
  show origin: "origin_text u = []" using u by (simp add: origin_text_def)
  obtain p' where p': "p = CHR ''/'' # p'" using p(2) by (cases p) (auto simp: has_prefix_char)
  have "url_unescape EncodePath p = map_option ((#) (CHR ''/'')) (url_unescape EncodePath p')"
    by (simp add: p')
  with path obtain path' where path': "u_Path u = CHR ''/'' # path'" by (metis map_option_eq_Some)
  have "hd (url_escape EncodePath (u_Path u)) = CHR ''/''" "url_escape EncodePath (u_Path u) \<noteq> []"
    by (simp_all add: path' url_escape_def escape_char_def should_escape_def alnum_def cont_def)
  moreover have "u_Path u \<noteq> ''*''" by (simp add: path')
  ultimately have "escaped EncodePath (u_RawPath u) (u_Path u) \<noteq> []
      \<and> hd (escaped EncodePath (u_RawPath u) (u_Path u)) = CHR ''/''"
    using raw p' by (auto simp: escaped_def)
  then show "path_text u = escaped EncodePath (u_RawPath u) (u_Path u)"
    using origin u by (cases "escaped EncodePath (u_RawPath u) (u_Path u)")
      (auto simp: path_text_def cut_def Let_def)
qed

definition location :: "url \<Rightarrow> gostring \<Rightarrow> gostring" where
  "location u q = origin_text u @ path_text u @ ''?'' @ q @ fragment_text u"

lemma Redirect_headers:
  "hp_Status (Redirect L r t new_response) = Some 302"
  "hp_Header (Redirect L r t new_response) ''Location'' = Some (hex_escape_non_ascii (redirect_target L r t))"
  "hp_Cookies (Redirect L r t new_response) = []"
  by (simp_all add: Redirect_def new_response_def set_header_def WriteHeader_def write_body_def Let_def)

lemma ascii_origin: "scheme (u_Scheme u) \<or> u_Scheme u = [] \<Longrightarrow> u_Opaque u = [] \<Longrightarrow> ascii (origin_text u)"
  using scheme_ascii by (auto simp: origin_text_def user_text_def split: option.splits)

lemma ascii_path: "ascii (path_text u)"
  by (simp add: path_text_def Let_def)

lemma ascii_query: "ascii (vals_encode q)"
proof -
  have p: "ascii (pair_text x)" for x by (simp add: pair_text_def)
  have "ascii (join (map pair_text xs) ''&'')" for xs
  proof (induction xs)
    case (Cons x xs)
    with p show ?case by (cases xs) auto
  qed simp
  then show ?thesis by (simp add: vals_encode_def)
qed

lemma RedirectWith_location:
  assumes "redirect_base L base u" and "vals_encode (set_pairs kv (parse_query (u_RawQuery u))) \<noteq> []"
  defines "q \<equiv> vals_encode (set_pairs kv (parse_query (u_RawQuery u)))"
  shows "hp_Header (RedirectWith L r base kv new_response) ''Location'' = Some (location u q)"
    "hp_Status (RedirectWith L r base kv new_response) = Some 302"
    "hp_Cookies (RedirectWith L r base kv new_response) = []"
proof -
  have parse: "parse_url L base = Some u" using assms(1) by (simp add: redirect_base_def)
  note shape = parse_url_shape [OF parse]
  let ?t = "url_text (u\<lparr>u_RawQuery := q\<rparr>)"
  have same: "origin_text (u\<lparr>u_RawQuery := q\<rparr>) = origin_text u"
    "fragment_text (u\<lparr>u_RawQuery := q\<rparr>) = fragment_text u"
    by (simp_all add: origin_text_def fragment_text_def)
  have "path_text (u\<lparr>u_RawQuery := q\<rparr>) = path_text u"
    by (simp add: path_text_def same Let_def)
  moreover have "query_text (u\<lparr>u_RawQuery := q\<rparr>) = ''?'' @ q"
    using assms(2) by (simp add: query_text_def q_def)
  ultimately have t: "?t = location u q"
    by (simp add: url_text_def location_def same)
  have fragment: "fragment_text u = [] \<or> hd (fragment_text u) = CHR ''#''"
    by (simp add: fragment_text_def)
  have "u_Opaque u = [] \<and> redirect_target L r (location u q) = location u q"
  proof (cases "u_Scheme u \<noteq> [] \<and> u_Host u \<noteq> []")
    case True
    then have "scheme (u_Scheme u)" "u_Opaque u = []" using shape by auto
    moreover from this obtain rest where "location u q = u_Scheme u @ CHR '':'' # rest"
      using True by (simp add: location_def origin_text_def)
    ultimately show ?thesis by (simp add: redirect_target_scheme)
  next
    case False
    then have rooted: "has_prefix base ''/''" "\<not> has_prefix base ''//''"
      and clean: "has_prefix (path_text u) ''/''" "path_clean (path_text u) = path_text u"
      using assms(1) by (auto simp: redirect_base_def)
    have "u_Opaque u = []" by (rule parse_rooted [OF rooted parse])
    moreover have "redirect_target L r (path_text u @ ''?'' @ q @ fragment_text u)
        = path_text u @ ''?'' @ q @ fragment_text u"
      by (rule redirect_target_rooted [OF clean path_text_no_query]) simp
    ultimately show ?thesis by (simp add: location_def rooted_text(1) [OF rooted parse])
  qed
  moreover from this have "ascii (location u q)"
    using ascii_origin [of u] ascii_path ascii_query shape(1)
    by (auto simp: location_def q_def fragment_text_def)
  ultimately show "hp_Header (RedirectWith L r base kv new_response) ''Location'' = Some (location u q)"
    "hp_Status (RedirectWith L r base kv new_response) = Some 302"
    "hp_Cookies (RedirectWith L r base kv new_response) = []"
    using parse t by (simp_all add: RedirectWith_def Redirect_headers hex_escape_ascii q_def [symmetric])
qed

section \<open>The parameters of a redirect arrive\<close>

text \<open>The query has room for two more parameters.\<close>

definition short_query :: "url \<Rightarrow> bool" where
  "short_query u \<longleftrightarrow> length (split_on (CHR ''&'') (u_RawQuery u)) + 2 \<le> max_params"

lemma length_pairs: "length (vals_pairs m) = (\<Sum>x \<leftarrow> m. length (snd x))"
proof -
  have "length (vals_pairs m) = (\<Sum>x \<leftarrow> sort_key fst m. length (snd x))"
    by (simp add: vals_pairs_def length_concat comp_def case_prod_beta)
  also have "\<dots> = (\<Sum>x \<leftarrow> m. length (snd x))"
    unfolding sum_mset_sum_list [symmetric] by simp
  finally show ?thesis .
qed

lemma pairs_count:
  "length (vals_pairs (vals_add k v m)) = Suc (length (vals_pairs m))"
  "length (vals_pairs (vals_set k v m)) \<le> Suc (length (vals_pairs m))"
  unfolding length_pairs by (induction k v m rule: vals_add.induct) auto

lemma parse_query_count: "length (vals_pairs (parse_query q)) \<le> length (split_on (CHR ''&'') q)"
proof -
  have "length (vals_pairs (add_pairs ps m)) \<le> length ps + length (vals_pairs m)" for ps m
  proof (induction ps m rule: add_pairs.induct)
    case (2 p ps m)
    then show ?case by (auto simp: pairs_count(1) split: option.split)
  qed simp
  from this [of "split_on (CHR ''&'') q" "[]"] show ?thesis
    by (auto simp: parse_query_def length_pairs Let_def)
qed

lemma set_pairs_count: "length (vals_pairs (set_pairs kv q)) \<le> length kv div 2 + length (vals_pairs q)"
proof (induction kv q rule: set_pairs.induct)
  case (1 k v kv q)
  then show ?case using pairs_count(2) [of k v q] by (auto split: if_splits)
qed simp_all

lemma set_pairs_distinct: "distinct (map fst q) \<Longrightarrow> distinct (map fst (set_pairs kv q))"
  by (induction kv q rule: set_pairs.induct) (auto simp: vals_distinct)

lemma set_pairs_sent:
  assumes "short_query u" "length kv \<le> 5"
  shows "vals_of (parse_query (vals_encode (set_pairs kv (parse_query (u_RawQuery u))))) k
    = vals_of (set_pairs kv (parse_query (u_RawQuery u))) k"
proof (rule parse_encode)
  show "distinct (map fst (set_pairs kv (parse_query (u_RawQuery u))))"
    by (simp add: set_pairs_distinct parse_query_distinct)
  show "length (vals_pairs (set_pairs kv (parse_query (u_RawQuery u)))) \<le> max_params"
    using set_pairs_count [of kv "parse_query (u_RawQuery u)"] parse_query_count [of "u_RawQuery u"] assms
    by (simp add: short_query_def)
qed

lemma encode_nonempty: "vals_of m k \<noteq> [] \<Longrightarrow> distinct (map fst m) \<Longrightarrow> vals_encode m \<noteq> []"
proof -
  assume m: "vals_of m k \<noteq> []" "distinct (map fst m)"
  then have "vals_pairs m \<noteq> []" using sorted_pairs [OF m(2), of k] by auto
  then show ?thesis by (cases "vals_pairs m"; cases "tl (vals_pairs m)")
    (auto simp: vals_encode_def pair_text_def)
qed

text \<open>
  \<open>loc\<close> is \<open>u\<close> with the parameters \<open>new\<close>: a reader of its query finds them, and every other
  parameter as it was.
\<close>

definition extends :: "url \<Rightarrow> (gostring \<times> gostring) list \<Rightarrow> gostring \<Rightarrow> bool" where
  "extends u new loc \<longleftrightarrow> (\<exists>q. loc = location u q \<and> (short_query u \<longrightarrow>
     (\<forall>k. vals_of (parse_query q) k = (case map_of new k of
        Some v \<Rightarrow> [v] | None \<Rightarrow> vals_of (parse_query (u_RawQuery u)) k))))"

definition flat :: "(gostring \<times> gostring) list \<Rightarrow> gostring list" where
  "flat ps = concat (map (\<lambda>(k, v). [k, v]) ps)"

lemma set_flat:
  assumes "\<forall>p \<in> set ps. snd p \<noteq> []" "distinct (map fst ps)"
  shows "vals_of (set_pairs (flat ps) q) k = (case map_of ps k of Some v \<Rightarrow> [v] | None \<Rightarrow> vals_of q k)"
  using assms
proof (induction ps arbitrary: q)
  case (Cons p ps)
  then show ?case
    by (cases p) (auto simp: flat_def map_of_eq_None_iff image_iff split: option.split dest: map_of_SomeD)
qed (simp add: flat_def)

lemma RedirectWith_extends:
  assumes "redirect_base L base u" and "ps \<noteq> []" "length ps \<le> 2"
    and "\<forall>p \<in> set ps. snd p \<noteq> []" "distinct (map fst ps)"
  shows "hp_Status (RedirectWith L r base (flat ps) new_response) = Some 302"
    "hp_Cookies (RedirectWith L r base (flat ps) new_response) = []"
    "\<exists>loc. hp_Header (RedirectWith L r base (flat ps) new_response) ''Location'' = Some loc
       \<and> extends u ps loc"
proof -
  let ?q = "set_pairs (flat ps) (parse_query (u_RawQuery u))"
  obtain k v where kv: "map_of ps k = Some v"
    using assms(2) by (cases ps) fastforce+
  then have "vals_of ?q k = [v]" using set_flat [OF assms(4,5)] by simp
  then have "vals_encode ?q \<noteq> []"
    by (intro encode_nonempty [of _ k]) (simp_all add: set_pairs_distinct parse_query_distinct)
  note R = RedirectWith_location [OF assms(1) this]
  show "hp_Status (RedirectWith L r base (flat ps) new_response) = Some 302"
    "hp_Cookies (RedirectWith L r base (flat ps) new_response) = []"
    by (rule R)+
  have "length (flat ps) \<le> 5"
    using assms(3) by (cases ps; cases "tl ps") (auto simp: flat_def)
  with R(1) set_flat [OF assms(4,5)] show
    "\<exists>loc. hp_Header (RedirectWith L r base (flat ps) new_response) ''Location'' = Some loc
       \<and> extends u ps loc"
    by (auto simp: extends_def set_pairs_sent)
qed

end
