(* ===== verification/Service.thy ===== *)
theory Service
  imports ClientService TokenGrant
begin

text \<open>
  The service as a whole: the requests it serves one after another, time passing, Redis
  dropping keys, and the maintenance operations of the repositories, as a step relation; what
  holds of every state it can reach.
\<close>

section \<open>Steps\<close>

inductive step :: "('r, 'd) ext \<Rightarrow> ('r, 'd) world \<Rightarrow> ('r, 'd) world \<Rightarrow> bool" for X where
  register: "run (Register X inp) w = (ru, w') \<Longrightarrow> step X w w'"
| login: "run (Login X lreq) w = (rl, w') \<Longrightarrow> step X w w'"
| logout: "run (Logout X i) w = (ro, w') \<Longrightarrow> step X w w'"
| refresh: "run (RefreshToken X raw) w = (rr, w') \<Longrightarrow> step X w w'"
| register_client: "run (RegisterClient X rreq) w = (rc, w') \<Longrightarrow> step X w w'"
| authorize: "run (Authorize X areq i) w = (ra, w') \<Longrightarrow> step X w w'"
| exchange: "run (Exchange X treq) w = (rt, w') \<Longrightarrow> step X w w'"
| tick: "0 \<le> d \<Longrightarrow> step X w (w\<lparr>now := now w + d\<rparr>)"
| evict: "r_view X r \<subseteq>\<^sub>m r_view X (rds w) \<Longrightarrow> step X w (w\<lparr>rds := r\<rparr>)"
| delete_user: "run (User_Delete X i) w = (rd, w') \<Longrightarrow> step X w w'"
| revoke: "run (Token_Revoke X i) w = (rv, w') \<Longrightarrow> step X w w'"
| revoke_all: "run (Token_RevokeAllForUser X i) w = (rv, w') \<Longrightarrow> step X w w'"
| delete_expired: "run (Token_DeleteExpired X) w = (rv, w') \<Longrightarrow> step X w w'"

definition initial :: "('r, 'd) ext \<Rightarrow> ('r, 'd) world \<Rightarrow> bool" where
  "initial X w \<longleftrightarrow> store X w = Map.empty
     \<and> tables_of X w = \<lparr>t_users = [], t_clients = [], t_tokens = []\<rparr>"

inductive reachable :: "('r, 'd) ext \<Rightarrow> ('r, 'd) world \<Rightarrow> bool" for X where
  start: "initial X w \<Longrightarrow> reachable X w"
| serve: "reachable X w \<Longrightarrow> step X w w' \<Longrightarrow> reachable X w'"

section \<open>The invariant\<close>

definition client_ok :: "client \<Rightarrow> bool" where
  "client_ok c \<longleftrightarrow> uuid_text (cl_ID c)
     \<and> (\<forall>s \<in> set (elems (cl_RedirectURIs c)) \<union> set (elems (cl_Scopes c))
           \<union> set (elems (cl_GrantTypes c)). utf8_valid s)
     \<and> (\<forall>gt \<in> set (elems (cl_GrantTypes c)). supported_grant gt)
     \<and> (cl_ClientSecretHash c = [] \<or> length (cl_ClientSecretHash c) = 60)"

definition client_row_ok :: "client_row \<Rightarrow> bool" where
  "client_row_ok row \<longleftrightarrow> (\<exists>c. scan_client row = Inr c \<and> client_ok c)"

definition clients_of :: "tables \<Rightarrow> client set" where
  "clients_of T = {c. \<exists>row \<in> set (t_clients T). scan_client row = Inr c}"

text \<open>What was granted stays within what the client registered.\<close>

definition code_ok :: "tables \<Rightarrow> auth_code \<Rightarrow> bool" where
  "code_ok T a \<longleftrightarrow> elems (ac_Scope a) \<noteq> [] \<and> (\<forall>t \<in> set (elems (ac_Scope a)). token t)
     \<and> (\<exists>c \<in> clients_of T. ac_ClientID a = cl_ID c
          \<and> ac_RedirectURI a \<in> set (elems (cl_RedirectURIs c))
          \<and> set (elems (ac_Scope a)) \<subseteq> set (elems (cl_Scopes c)))"

definition entry_ok :: "('r, 'd) ext \<Rightarrow> tables \<Rightarrow> gostring \<Rightarrow> gostring \<Rightarrow> bool" where
  "entry_ok X T k v \<longleftrightarrow>
     (\<exists>i s. k = sessionKeyPrefix @ i \<and> unmarshal_session (time_parse X) v = Some s)
   \<or> (\<exists>c a. k = authCodeKeyPrefix @ c \<and> unmarshal_auth_code (time_parse X) v = Some a \<and> code_ok T a)"

definition store_ok :: "('r, 'd) ext \<Rightarrow> tables \<Rightarrow> redis_store \<Rightarrow> bool" where
  "store_ok X T st \<longleftrightarrow> (\<forall>k v e. st k = Some (v, e) \<longrightarrow> e \<noteq> None \<and> entry_ok X T k v)"

definition token_row_ok :: "tables \<Rightarrow> token_row \<Rightarrow> bool" where
  "token_row_ok T row \<longleftrightarrow> lower_hex (tw_token_hash row) \<and> length (tw_token_hash row) = 64
     \<and> (\<exists>t. scan_token row = Inr t \<and> elems (rt_Scope t) \<noteq> []
          \<and> (\<exists>c \<in> clients_of T. rt_ClientID t = cl_ID c
               \<and> set (elems (rt_Scope t)) \<subseteq> set (elems (cl_Scopes c))))"

definition tables_wf :: "('r, 'd) ext \<Rightarrow> tables \<Rightarrow> bool" where
  "tables_wf X T \<longleftrightarrow>
     sorted_wrt (\<lambda>u v. \<not> sql_eq X (us_Email u) (us_Email v) \<and> \<not> sql_eq X (us_ID u) (us_ID v)) (t_users T)
   \<and> (\<forall>u \<in> set (t_users T). uuid_text (us_ID u))
   \<and> sorted_wrt (\<lambda>a b. \<not> sql_eq X (cr_id a) (cr_id b)) (t_clients T)
   \<and> (\<forall>row \<in> set (t_clients T). client_row_ok row)
   \<and> (\<forall>row \<in> set (t_tokens T). token_row_ok T row)"

definition inv :: "('r, 'd) ext \<Rightarrow> ('r, 'd) world \<Rightarrow> bool" where
  "inv X w \<longleftrightarrow> tables_wf X (tables_of X w) \<and> store_ok X (tables_of X w) (store X w)"

lemma clients_of_mono:
  "set (t_clients T) \<subseteq> set (t_clients T') \<Longrightarrow> clients_of T \<subseteq> clients_of T'"
  by (auto simp: clients_of_def)

lemma code_ok_mono: "code_ok T a \<Longrightarrow> clients_of T \<subseteq> clients_of T' \<Longrightarrow> code_ok T' a"
  unfolding code_ok_def by blast

lemma token_row_ok_mono: "token_row_ok T r \<Longrightarrow> clients_of T \<subseteq> clients_of T' \<Longrightarrow> token_row_ok T' r"
  unfolding token_row_ok_def by blast

lemma entry_ok_mono: "entry_ok X T k v \<Longrightarrow> clients_of T \<subseteq> clients_of T' \<Longrightarrow> entry_ok X T' k v"
  unfolding entry_ok_def using code_ok_mono by blast

lemma store_ok_mono: "store_ok X T st \<Longrightarrow> clients_of T \<subseteq> clients_of T' \<Longrightarrow> store_ok X T' st"
  unfolding store_ok_def using entry_ok_mono by blast

lemma store_ok_submap: "store_ok X T st \<Longrightarrow> st' \<subseteq>\<^sub>m st \<Longrightarrow> store_ok X T st'"
  unfolding store_ok_def map_le_def by (metis domI)

lemma store_ok_upd:
  "store_ok X T st \<Longrightarrow> entry_ok X T k v \<Longrightarrow> store_ok X T (st(k \<mapsto> (v, Some e)))"
  by (simp add: store_ok_def)

lemma store_ok_del: "store_ok X T st \<Longrightarrow> store_ok X T (st(k := None))"
  by (simp add: store_ok_def)

lemma inv_same: "inv X w \<Longrightarrow> store X w' = store X w \<Longrightarrow> tables_of X w' = tables_of X w \<Longrightarrow> inv X w'"
  by (simp add: inv_def)

lemma initial_inv: "initial X w \<Longrightarrow> inv X w"
  by (simp add: initial_def inv_def tables_wf_def store_ok_def)

section \<open>Every step keeps it\<close>

text \<open>The parameter the service is proved for.\<close>

definition env_ok :: "('r, 'd) ext \<Rightarrow> bool" where
  "env_ok X \<longleftrightarrow> redis_ok X \<and> mysql_ok X \<and> columns_ok X \<and> library_ok X"

lemma env_okD:
  assumes "env_ok X"
  shows "redis_ok X" "mysql_ok X" "columns_ok X" "library_ok X" "tables_ok X"
  using assms by (simp_all add: env_ok_def tables_ok_def)

lemma sql_eqD:
  assumes "columns_ok X"
  shows "sql_eq X a a" "sql_eq X a b \<Longrightarrow> sql_eq X b a"
    "sql_eq X a b \<Longrightarrow> sql_eq X b c \<Longrightarrow> sql_eq X a c"
    "sql_eq X a b \<Longrightarrow> lower_hex a \<Longrightarrow> lower_hex b \<Longrightarrow> a = b"
  using assms unfolding columns_ok_def by blast+

subsection \<open>Users and tokens\<close>

lemma inv_store: "inv X w \<Longrightarrow> tables_of X w' = tables_of X w
    \<Longrightarrow> store_ok X (tables_of X w) (store X w') \<Longrightarrow> inv X w'"
  by (simp add: inv_def)

lemma inv_tables: "inv X w \<Longrightarrow> store X w' = store X w \<Longrightarrow> tables_wf X (tables_of X w')
    \<Longrightarrow> clients_of (tables_of X w) \<subseteq> clients_of (tables_of X w') \<Longrightarrow> inv X w'"
  using store_ok_mono [of X "tables_of X w" "store X w" "tables_of X w'"] by (simp add: inv_def)

lemma clients_of_cong: "t_clients T' = t_clients T \<Longrightarrow> clients_of T' = clients_of T"
  by (simp add: clients_of_def)

lemma token_row_ok_cong: "t_clients T' = t_clients T \<Longrightarrow> token_row_ok T' = token_row_ok T"
  using clients_of_cong [of T' T] by (intro ext) (simp add: token_row_ok_def)

lemma Register_inv:
  assumes "env_ok X" "inv X w" "run (Register X inp) w = (r, w')"
  shows "inv X w'"
proof -
  note E = env_okD [OF assms(1)]
  have st: "store X w' = store X w"
    using keeps_field_runD [OF Auth_frame(2) assms(3)] by (simp add: store_def)
  obtain found w1 where f: "run (User_GetByEmail X (ri_Email inp)) w = (found, w1)" by fastforce
  note w1 = same_world_reads(7) [OF sql_reads(2) [OF E(2) f]]
  note R = assms(3) [unfolded Register_def run_bind_Pair [OF f]]
  show ?thesis
  proof (cases "\<exists>h. found = Inr None \<and> bcrypt_gen X (draws w1) (ri_Password inp) = Some h")
    case False
    then have "tables_of X w' = tables_of X w"
      using R w1 by (cases found) (auto simp: tables_of_def split: option.splits)
    with assms(2) st show ?thesis by (rule inv_same)
  next
    case True
    then obtain h where found: "found = Inr None"
      and h: "bcrypt_gen X (draws w1) (ri_Password inp) = Some h" by blast
    let ?w2 = "w1\<lparr>draws := Suc (Suc (draws w1))\<rparr>"
    let ?u = "\<lparr>us_ID = new_uuid X (Suc (draws w1)), us_Email = ri_Email inp, us_PasswordHash = h,
      us_CreatedAt = zero_time\<rparr>"
    obtain rc where c: "run (User_Create X ?u) ?w2 = (rc, w')"
      using R by (auto simp: found h Let_def split: prod.splits)
    have w2: "tables_of X ?w2 = tables_of X w" using w1 by (simp add: tables_of_def)
    have id: "uuid_text (us_ID ?u)" "char_value (us_ID ?u) = us_ID ?u"
      using E(4) by (simp_all add: library_ok_def uuid_plain)
    let ?T = "tables_of X w"
    consider "tables_of X w' = ?T"
      | "tables_of X w' = ?T\<lparr>t_users := t_users ?T @ [user_row X ?w2 ?u]\<rparr>"
        "\<not> (\<exists>v \<in> set (t_users ?T). sql_eq X (us_ID v) (us_ID ?u) \<or> sql_eq X (us_Email v) (us_Email ?u))"
      using User_Create_tables(2) [OF E(2) c, unfolded w2] by blast
    then show ?thesis
    proof cases
      case 1
      with assms(2) st show ?thesis by (rule inv_same)
    next
      case 2
      have "tables_wf X (tables_of X w')"
        using assms(2) 2(2) id token_row_ok_cong [of "tables_of X w'" ?T]
        unfolding inv_def tables_wf_def
        by (auto simp: 2(1) sorted_wrt_append user_row_def)
      then show ?thesis
        by (rule inv_tables [OF assms(2) st]) (simp add: 2(1) clients_of_def)
    qed
  qed
qed

lemma exec_inv:
  assumes "env_ok X" "inv X w"
    and "run (do { r \<leftarrow> sql_call (sql_exec X s);
                   ret (case r of Inl e \<Rightarrow> Inl (wrap m e) | Inr _ \<Rightarrow> Inr ()) }) w = (r, w')"
    and "\<And>T. tables_wf X T \<Longrightarrow> tables_wf X (snd (sem_exec X s (now w) T))
      \<and> t_clients (snd (sem_exec X s (now w) T)) = t_clients T"
  shows "inv X w'"
proof -
  have st: "store X w' = store X w"
    using assms(3) by (auto simp: store_def run_simps split: prod.splits)
  have "tables_of X w' = tables_of X w
      \<or> tables_of X w' = snd (sem_exec X s (now w) (tables_of X w))"
    by (rule exec_tables(2) [OF env_okD(2) [OF assms(1)] assms(3)])
  then show ?thesis
  proof
    assume "tables_of X w' = tables_of X w"
    with assms(2) st show ?thesis by (rule inv_same)
  next
    assume t: "tables_of X w' = snd (sem_exec X s (now w) (tables_of X w))"
    have "tables_wf X (tables_of X w)" using assms(2) by (simp add: inv_def)
    from assms(4) [OF this] show ?thesis
      by (intro inv_tables [OF assms(2) st]) (simp_all add: t clients_of_def)
  qed
qed

lemma tables_wf_users:
  "tables_wf X T \<Longrightarrow> set (t_tokens T') \<subseteq> set (t_tokens T) \<Longrightarrow> t_clients T' = t_clients T
    \<Longrightarrow> t_users T' = filter P (t_users T) \<Longrightarrow> tables_wf X T'"
  by (auto simp: tables_wf_def token_row_ok_cong [of T' T] intro: sorted_wrt_filter)

lemma revoked_row_ok:
  "token_row_ok T row \<Longrightarrow> token_row_ok T (row\<lparr>tw_revoked_at := x\<rparr>)"
  by (auto simp: token_row_ok_def scan_token_def split: sum.splits)

lemma tables_wf_revoke:
  assumes "tables_wf X T"
  shows "tables_wf X (T\<lparr>t_tokens := map (\<lambda>r. if P r then r\<lparr>tw_revoked_at := x\<rparr> else r) (t_tokens T)\<rparr>)"
  using assms revoked_row_ok [of T] token_row_ok_cong [of "T\<lparr>t_tokens := y\<rparr>" T for y]
  by (auto simp: tables_wf_def)

lemma maintenance_inv:
  assumes "env_ok X" "inv X w"
  shows "run (User_Delete X i) w = (r, w') \<Longrightarrow> inv X w'"
    and "run (Token_Revoke X i) w = (r, w') \<Longrightarrow> inv X w'"
    and "run (Token_RevokeAllForUser X i) w = (r, w') \<Longrightarrow> inv X w'"
    and "run (Token_DeleteExpired X) w = (r, w') \<Longrightarrow> inv X w'"
proof -
  note ex = exec_inv [OF assms]
  show "run (User_Delete X i) w = (r, w') \<Longrightarrow> inv X w'"
    unfolding User_Delete_def by (erule ex) (auto intro: tables_wf_users)
  show "run (Token_Revoke X i) w = (r, w') \<Longrightarrow> inv X w'"
    unfolding Token_Revoke_def by (erule ex) (simp add: tables_wf_revoke)
  show "run (Token_RevokeAllForUser X i) w = (r, w') \<Longrightarrow> inv X w'"
    unfolding Token_RevokeAllForUser_def by (erule ex) (simp add: tables_wf_revoke)
  show "run (Token_DeleteExpired X) w = (r, w') \<Longrightarrow> inv X w'"
    unfolding Token_DeleteExpired_def
    by (erule ex) (auto intro: tables_wf_users [where P = "\<lambda>_. True"])
qed

subsection \<open>Sessions\<close>

lemma entry_ok_session:
  assumes "library_ok X" "marshal_session (time_text X) s = Some p"
  shows "entry_ok X T (sessionKeyPrefix @ i) p"
  using session_roundtrip [OF _ assms(2)] assms(1) by (auto simp: entry_ok_def library_ok_def)

lemma Login_inv:
  assumes "env_ok X" "inv X w" "run (Login X req) w = (r, w')"
  shows "inv X w'"
proof -
  note E = env_okD [OF assms(1)]
  obtain found w1 where f: "run (User_GetByEmail X (lq_Email req)) w = (found, w1)" by fastforce
  note w1 = same_world_reads(6,7) [OF sql_reads(2) [OF E(2) f]]
  note R = assms(3) [unfolded Login_def run_bind_Pair [OF f]]
  have inv1: "inv X w1" by (rule inv_same [OF assms(2) w1])
  consider "w' = w1" | u :: user and sr where "run (Session_Create X (us_ID u) (us_Email u)) w1 = (sr, w')"
    using R by (auto split: sum.splits option.splits if_splits prod.splits)
  then show ?thesis
  proof cases
    case 2
    have t: "tables_of X w' = tables_of X w1"
      using keeps_field_runD [OF session_ops_frame(2) 2] by (simp add: tables_of_def)
    from inv1 have st: "store_ok X (tables_of X w1) (store X w1)" by (simp add: inv_def)
    have "store_ok X (tables_of X w1) (store X w')"
      using Session_Create_cases(2) [OF E(1) 2] st
      by (auto intro!: store_ok_upd entry_ok_session [OF E(4)])
    with inv1 t show ?thesis by (rule inv_store)
  qed (simp add: inv1)
qed

lemma Logout_inv:
  assumes "env_ok X" "inv X w" "run (Logout X i) w = (r, w')"
  shows "inv X w'"
proof (cases "i = []")
  case False
  then have d: "run (Session_Destroy X i) w = (r, w')" using assms(3) by (simp add: Logout_def)
  have t: "tables_of X w' = tables_of X w"
    using keeps_field_runD [OF session_ops_frame(7) d] by (simp add: tables_of_def)
  have st: "store_ok X (tables_of X w) (store X w)" using assms(2) by (simp add: inv_def)
  have "store_ok X (tables_of X w) (store X w')"
    using Session_Destroy_cases [OF env_okD(1) [OF assms(1)] d] st by (auto intro: store_ok_del)
  with assms(2) t show ?thesis by (rule inv_store)
qed (use assms in \<open>simp add: Logout_def\<close>)

lemma RefreshToken_inv:
  assumes "env_ok X" "inv X w" "run (RefreshToken X raw) w = (r, w')"
  shows "inv X w'"
proof -
  note E = env_okD [OF assms(1)]
  have st: "store X w' = store X w"
    using keeps_field_runD [OF Auth_frame(8) assms(3)] by (simp add: store_def)
  obtain found w1 where f: "run (Token_GetTokenByHash X (hashToken raw)) w = (found, w1)" by fastforce
  note w1 = same_world_reads(7) [OF sql_reads(4) [OF E(2) f]]
  note R = assms(3) [unfolded RefreshToken_def run_bind_Pair [OF f]]
  consider "w' = w1" | t where "found = Inr (Some t)" "\<not> rt_ExpiresAt t < now w1"
    using R by (auto split: sum.splits option.splits if_splits)
  then have "tables_of X w' = tables_of X w"
  proof cases
    case (2 t)
    obtain owner w2 where o: "run (User_GetByID X (rt_UserID t)) w1 = (owner, w2)" by fastforce
    note w2 = same_world_reads(7) [OF sql_reads(3) [OF E(2) o]]
    note R2 = R [unfolded 2(1) sum.case option.case, unfolded run_bind_Pair [OF run_time_Now],
        unfolded if_not_P [OF 2(2)], unfolded run_bind_Pair [OF o]]
    have "sdb w' = sdb w2"
      using R2 by (auto simp: run_IssueAccessToken split: sum.splits option.splits)
    with w1 w2 show ?thesis by (simp add: tables_of_def)
  qed (simp add: w1)
  with assms(2) st show ?thesis by (rule inv_same)
qed

subsection \<open>Clients\<close>

lemma supported_valid: "supported_grant gt \<Longrightarrow> utf8_valid gt"
  by (rule ascii_valid) (auto simp: supported_grant_iff)

lemma check_grants_valid:
  "\<forall>gt \<in> set gts. supported_grant gt \<Longrightarrow> map to_valid gts = gts"
  by (rule map_idI) (simp add: supported_valid to_valid_id)

lemma RegisterClient_inv:
  assumes "env_ok X" "inv X w" "run (RegisterClient X req) w = (r, w')"
  shows "inv X w'"
proof -
  note E = env_okD [OF assms(1)]
  have st: "store X w' = store X w"
    using keeps_field_runD [OF RegisterClient_frame(2) assms(3)] by (simp add: store_def)
  show ?thesis
  proof (cases "check_grant_types X (rq_IsPublic req) (elems (rq_GrantTypes req))")
    case (Some e)
    then show ?thesis using assms(2,3) by (simp add: RegisterClient_def)
  next
    case None
    obtain sec w1 where s: "run (make_secret X (rq_IsPublic req)) w = (sec, w1)" by fastforce
    have w1: "tables_of X w1 = tables_of X w"
      using keeps_field_runD [OF make_secret_frame(3) s] by (simp add: tables_of_def)
    note R = assms(3) [unfolded RegisterClient_def None option.case run_bind_Pair [OF s]]
    show ?thesis
    proof (cases sec)
      case (Inl e)
      with R w1 st assms(2) show ?thesis by (auto intro: inv_same)
    next
      case (Inr rh)
      obtain raw h where rh: "rh = (raw, h)" by fastforce
      let ?w2 = "w1\<lparr>draws := Suc (draws w1)\<rparr>"
      let ?c = "\<lparr>cl_ID = new_uuid X (draws w1), cl_Name = rq_Name req, cl_ClientSecretHash = h,
        cl_RedirectURIs = rq_RedirectURIs req, cl_Scopes = rq_Scopes req,
        cl_GrantTypes = rq_GrantTypes req, cl_IsFirstParty = rq_IsFirstParty req,
        cl_CreatedAt = zero_time\<rparr>"
      obtain rc where c: "run (Client_Create X ?c) ?w2 = (rc, w')"
        using R by (auto simp: Inr rh split: prod.splits)
      have w2: "tables_of X ?w2 = tables_of X w" using w1 by (simp add: tables_of_def)
      obtain row where row: "scan_client row = Inr (client_stored X ?w2 ?c)"
          "cr_id row = char_value (cl_ID ?c)"
        and t: "tables_of X w' = (tables_of X w)\<lparr>t_clients := t_clients (tables_of X w) @ [row]\<rparr>
          \<or> rc \<noteq> Inr () \<and> tables_of X w' = tables_of X w"
        and nd: "tables_of X w' = tables_of X w
          \<or> \<not> (\<exists>v \<in> set (t_clients (tables_of X w)). sql_eq X (cr_id v) (cl_ID ?c))"
        by (rule Client_Create_tables [OF E(2,3) c, unfolded w2]) auto
      have id: "char_value (new_uuid X n) = new_uuid X n" "uuid_text (new_uuid X n)" for n
        using E(4) uuid_plain by (simp_all add: library_ok_def)
      have h: "h = [] \<or> length h = 60"
        using s Inr rh E(4) by (auto simp: make_secret_def library_ok_def Let_def
            split: if_splits option.splits)
      have g: "\<forall>gt \<in> set (elems (rq_GrantTypes req)). supported_grant gt"
        using None by (simp add: check_grant_types_None)
      have "client_ok (client_stored X ?w2 ?c)"
        using h g check_grants_valid [OF g]
        by (auto simp: client_ok_def client_stored_def id intro: supported_valid)
      then have ok: "client_row_ok row" using row(1) by (simp add: client_row_ok_def)
      show ?thesis
      proof (cases "tables_of X w' = tables_of X w")
        case True
        with assms(2) st show ?thesis by (rule inv_same)
      next
        case False
        let ?T = "tables_of X w"
        from False t have T: "tables_of X w' = ?T\<lparr>t_clients := t_clients ?T @ [row]\<rparr>" by simp
        from False nd row(2) id
        have new: "\<forall>v \<in> set (t_clients ?T). \<not> sql_eq X (cr_id v) (cr_id row)" by auto
        have sub: "clients_of ?T \<subseteq> clients_of (tables_of X w')"
          by (rule clients_of_mono) (auto simp: T)
        have "tables_wf X (tables_of X w')"
          using assms(2) ok new token_row_ok_mono [OF _ sub]
          unfolding inv_def tables_wf_def by (auto simp: T sorted_wrt_append)
        with sub show ?thesis by (intro inv_tables [OF assms(2) st])
      qed
    qed
  qed
qed

subsection \<open>Codes and tokens\<close>

lemma client_at_in: "client_at X w i = Some c \<Longrightarrow> c \<in> clients_of (tables_of X w)"
  by (auto simp: client_at_def clients_of_def dest: find_SomeD split: option.splits sum.splits)

lemma client_at_ok: "inv X w \<Longrightarrow> client_at X w i = Some c \<Longrightarrow> client_ok c"
  by (fastforce simp: client_at_def inv_def tables_wf_def client_row_ok_def dest: find_SomeD
      split: option.splits sum.splits)

lemma valid_strings: "\<forall>s \<in> set xs. utf8_valid s \<Longrightarrow> set ys \<subseteq> set xs \<Longrightarrow> map to_valid ys = ys"
  by (rule map_idI) (auto intro: to_valid_id)

lemma issued_code_ok:
  assumes "inv X w" "decide (client_at X w i) so req = Issue c s"
  shows "code_ok (tables_of X w) (valid_code (code_for req c s\<lparr>ac_CreatedAt := t\<rparr>))"
proof -
  have c: "client_at X w i = Some c" "aq_RedirectURI req \<in> set (elems (cl_RedirectURIs c))"
    "scope_granted c (aq_Scope req)"
    using assms(2) by (auto simp: decide_def split: option.splits if_splits)
  have ok: "client_ok c" by (rule client_at_ok [OF assms(1) c(1)])
  have v: "to_valid (cl_ID c) = cl_ID c" "to_valid (aq_RedirectURI req) = aq_RedirectURI req"
    "map to_valid (Fields (aq_Scope req)) = Fields (aq_Scope req)"
    using ok c(2,3) valid_strings [of "elems (cl_Scopes c)" "Fields (aq_Scope req)"]
    by (auto simp: client_ok_def uuid_plain to_valid_ascii scope_granted_def intro: to_valid_id)
  show ?thesis
    using client_at_in [OF c(1)] c(2,3)
    by (auto simp: code_ok_def valid_code_def code_for_def v scope_granted_def dest: fields_tokens)
qed

lemma Authorize_inv:
  assumes "env_ok X" "inv X w" "run (Authorize X req i) w = (r, w')"
  shows "inv X w'"
proof -
  note E = env_okD [OF assms(1)]
  note B = Authorize_bounds [OF E(1,2) assms(3)]
  have st: "store_ok X (tables_of X w) (store X w)" using assms(2) by (simp add: inv_def)
  have "entry_ok X (tables_of X w) (authCodeKeyPrefix @ k) p"
    if "decide (client_at X w (aq_ClientID req)) (session_of X w i) req = Issue c s"
      "marshal_auth_code (time_text X) (code_for req c s\<lparr>ac_CreatedAt := now w\<rparr>) = Some p" for k p c s
    using issued_code_ok [OF assms(2) that(1), of "now w"] auth_code_roundtrip [OF _ that(2)] E(4)
    by (auto simp: entry_ok_def library_ok_def)
  then have "store_ok X (tables_of X w) (store X w')"
    using B(2) st by (auto intro!: store_ok_upd)
  with assms(2) B(1) show ?thesis by (rule inv_store)
qed

text \<open>The client of a code is the client that presents it.\<close>

lemma sorted_wrt_unique:
  "sorted_wrt (\<lambda>a b. \<not> R a b) xs \<Longrightarrow> a \<in> set xs \<Longrightarrow> b \<in> set xs \<Longrightarrow> R a b \<Longrightarrow> R b a \<Longrightarrow> a = b"
  by (induction xs) auto

lemma code_at_ok: "inv X w \<Longrightarrow> code_at X w k = Some a \<Longrightarrow> code_ok (tables_of X w) a"
  by (auto simp: code_at_def cached_def live_def inv_def store_ok_def entry_ok_def bind_eq_Some_conv
      split: option.splits if_splits) (fastforce simp: entry_ok_def)+

lemma presented_client:
  assumes "env_ok X" "inv X w" "client_authenticates X w req c"
    and "code_at X w k = Some a" "code_matches req a"
  shows "cl_ID c = tq_ClientID req" "cl_ID c = ac_ClientID a"
    "ac_RedirectURI a \<in> set (elems (cl_RedirectURIs c))"
    "set (elems (ac_Scope a)) \<subseteq> set (elems (cl_Scopes c))" "elems (ac_Scope a) \<noteq> []"
    "\<forall>t \<in> set (elems (ac_Scope a)). token t" "client_ok c"
proof -
  note Q = sql_eqD [OF env_okD(3) [OF assms(1)]]
  have wf: "sorted_wrt (\<lambda>a b. \<not> sql_eq X (cr_id a) (cr_id b)) (t_clients (tables_of X w))"
    using assms(2) by (simp add: inv_def tables_wf_def)
  have at: "client_at X w (tq_ClientID req) = Some c"
    using assms(3) by (simp add: client_authenticates_def)
  then obtain row where row: "row \<in> set (t_clients (tables_of X w))" "scan_client row = Inr c"
    "sql_eq X (cr_id row) (tq_ClientID req)"
    by (auto simp: client_at_def dest: find_SomeD split: option.splits sum.splits)
  obtain c0 row0 where c0: "row0 \<in> set (t_clients (tables_of X w))" "scan_client row0 = Inr c0"
      "ac_ClientID a = cl_ID c0" "ac_RedirectURI a \<in> set (elems (cl_RedirectURIs c0))"
      "set (elems (ac_Scope a)) \<subseteq> set (elems (cl_Scopes c0))"
    and a: "elems (ac_Scope a) \<noteq> []" "\<forall>t \<in> set (elems (ac_Scope a)). token t"
    using code_at_ok [OF assms(2,4)] by (auto simp: code_ok_def clients_of_def)
  have "cr_id row0 = tq_ClientID req"
    using c0(2,3) assms(5) by (simp add: scan_client_ID code_matches_def)
  with row(3) have "sql_eq X (cr_id row) (cr_id row0)" by simp
  then have "row = row0"
    using sorted_wrt_unique [of "\<lambda>a b. sql_eq X (cr_id a) (cr_id b)", OF wf row(1) c0(1)] Q(2) by blast
  then have "c = c0" using row(2) c0(2) by simp
  then show "cl_ID c = tq_ClientID req" "cl_ID c = ac_ClientID a"
    "ac_RedirectURI a \<in> set (elems (cl_RedirectURIs c))"
    "set (elems (ac_Scope a)) \<subseteq> set (elems (cl_Scopes c))" "elems (ac_Scope a) \<noteq> []"
    "\<forall>t \<in> set (elems (ac_Scope a)). token t" "client_ok c"
    using c0 a assms(5) client_at_ok [OF assms(2) at] by (auto simp: code_matches_def)
qed

lemma Exchange_inv:
  assumes "env_ok X" "inv X w" "run (Exchange X req) w = (r, w')"
  shows "inv X w'"
proof (cases "tq_GrantType req = GrantAuthorizationCode")
  case False
  then show ?thesis
    using assms(2,3) by (auto simp: Exchange_def refreshTokenGrant_def split: if_splits)
next
  case True
  then have g: "run (authorizationCodeGrant X req) w = (r, w')" using assms(3) by (simp add: Exchange_def)
  note E = env_okD [OF assms(1)]
  note B = code_grant_bounds [OF E(1-3) g]
  let ?T = "tables_of X w"
  have st: "store_ok X ?T (store X w')"
    using B(1) assms(2) store_ok_del by (auto simp: inv_def)
  show ?thesis
  proof (cases "tables_of X w' = ?T")
    case True
    from assms(2) this st show ?thesis by (rule inv_store)
  next
    case False
    with B(3) obtain c a u where c: "client_authenticates X w req c"
      "code_at X w (tq_Code req) = Some a" "code_matches req a"
      and ad: "token_added X w (grant_token X w u c a) (tables_of X w')" by blast
    note P = presented_client [OF assms(1,2) c]
    obtain row where row: "scan_token row = Inr (token_stored X w (grant_token X w u c a))"
      "tw_token_hash row = rt_TokenHash (grant_token X w u c a)"
      and T: "tables_of X w' = ?T\<lparr>t_tokens := t_tokens ?T @ [row]\<rparr>"
      using ad by (auto simp: token_added_def)
    have cin: "c \<in> clients_of ?T"
      using c(1) client_at_in by (auto simp: client_authenticates_def)
    have vs: "elems (valid_slice (ac_Scope a)) = elems (ac_Scope a)"
      using P(4,7) valid_strings [of "elems (cl_Scopes c)" "elems (ac_Scope a)"]
      by (simp add: client_ok_def)
    have cid: "char_value (cl_ID c) = cl_ID c" using P(7) by (simp add: client_ok_def uuid_plain)
    have "token_row_ok ?T row"
      unfolding token_row_ok_def
    proof (intro conjI exI bexI)
      show "lower_hex (tw_token_hash row)" "length (tw_token_hash row) = 64"
        by (simp_all add: row(2) grant_token_def hashToken_def)
      show "scan_token row = Inr (token_stored X w (grant_token X w u c a))" by (rule row(1))
      show "elems (rt_Scope (token_stored X w (grant_token X w u c a))) \<noteq> []"
        using vs P(5) by (simp only: token_stored_def grant_token_def refresh_token.select_convs) simp
      show "set (elems (rt_Scope (token_stored X w (grant_token X w u c a)))) \<subseteq> set (elems (cl_Scopes c))"
        using vs P(4) by (simp only: token_stored_def grant_token_def refresh_token.select_convs)
      show "rt_ClientID (token_stored X w (grant_token X w u c a)) = cl_ID c"
        by (simp add: token_stored_def grant_token_def cid)
    qed (rule cin)
    then have wf: "tables_wf X (tables_of X w')"
      using assms(2) token_row_ok_cong [of "tables_of X w'" ?T]
      by (auto simp: inv_def tables_wf_def T)
    have "store_ok X (tables_of X w') (store X w')"
      by (rule store_ok_mono [OF st]) (simp add: T clients_of_def)
    with wf show ?thesis by (simp add: inv_def)
  qed
qed

subsection \<open>Reachable states\<close>

lemma step_inv: "step X w w' \<Longrightarrow> env_ok X \<Longrightarrow> inv X w \<Longrightarrow> inv X w'"
proof (induction rule: step.induct)
  case (tick d w)
  then show ?case by (simp add: inv_def store_def tables_of_def)
next
  case (evict r w)
  then show ?case by (auto simp: inv_def store_def tables_of_def intro: store_ok_submap)
qed (blast intro: Register_inv Login_inv Logout_inv RefreshToken_inv RegisterClient_inv
    Authorize_inv Exchange_inv maintenance_inv)+

lemma reachable_inv: "reachable X w \<Longrightarrow> env_ok X \<Longrightarrow> inv X w"
  by (induction rule: reachable.induct) (auto intro: initial_inv step_inv)

end
