(* ===== verification/RepoProperties.thy ===== *)
theory RepoProperties
  imports RedisRepos SqlRepos Reference
begin

text \<open>
  What the cache, the repositories and the stored formats promise, one property at a time,
  each with a concrete run of the reference parameter.
\<close>

section \<open>Shared\<close>

lemma ref_ok: "redis_spec up ref_ext" "mysql_spec up ref_ext" "columns_ok ref_ext"
  "library_ok ref_ext" "tables_ok ref_ext" "jwt_ok ref_ext"
  by (simp_all add: ref_redis ref_mysql ref_columns ref_library tables_ok_def ref_jwt)

lemma ref_now [simp]: "now ref_world = 0" "draws ref_world = 0" "rds ref_world = Map.empty"
  "sdb ref_world = ref_tables"
  by (simp_all add: ref_world_def)

lemma ref_time_text_0: "ref_time_text 0 \<noteq> None"
  by (simp add: ref_time_text_def)

lemma cached_now: "cached X (w\<lparr>now := t\<rparr>) k = live (store X w) t k"
  by (simp add: cached_def store_def)

section \<open>Authorization codes\<close>

text \<open>The code a fresh \<open>Create\<close> hands out can be redeemed for sixty seconds.\<close>

lemma consume_at:
  assumes "redis_spec True X" and "library_ok X"
    and "run (AuthCode_Create X a) w = (Inr c, w1)" and "0 \<le> d"
  shows "result_of (AuthCode_Consume X c) (w1\<lparr>now := now w + d\<rparr>) =
    (if d < 60 * second then Inr (valid_code (a\<lparr>ac_CreatedAt := now w\<rparr>)) else Inl ErrAuthCodeNotFound)"
proof -
  let ?w = "w1\<lparr>now := now w + d\<rparr>"
  have ok: "redis_ok X" using assms(1) by (rule redis_spec_weaken)
  obtain r w2 where r: "run (AuthCode_Consume X c) ?w = (r, w2)" by fastforce
  have at: "code_at X ?w c
      = (if d < authCodeTTL then Some (valid_code (a\<lparr>ac_CreatedAt := now w\<rparr>)) else None)"
    using AuthCode_Create_code_at(2) [OF ok assms(2,3)] by simp
  obtain p where st: "store X w1 = (store X w)(authCodeKeyPrefix @ c \<mapsto> (p, Some (now w + authCodeTTL)))"
    using AuthCode_Create_cases(1) [OF ok assms(3)] by blast
  have "cached X ?w (authCodeKeyPrefix @ c) = None" if "\<not> d < authCodeTTL"
    using that by (simp add: cached_now st live_upd)
  with at AuthCode_Consume_cases(4,5) [OF assms(1) r] have
    "r = (if d < authCodeTTL then Inr (valid_code (a\<lparr>ac_CreatedAt := now w\<rparr>)) else Inl ErrAuthCodeNotFound)"
    by (auto split: if_splits)
  then show ?thesis by (simp add: r authCodeTTL_def)
qed

text \<open>An authorization code stored by \<open>Create\<close> stands for exactly the data it was created
  with (as JSON carries it) during the sixty seconds after its creation; from then on redeeming it
  reports \<open>ErrAuthCodeNotFound\<close>.\<close>

theorem code_lives_sixty_seconds:
  assumes "redis_spec True X" and "library_ok X"
    and "run (AuthCode_Create X a) w = (Inr c, w1)" and "0 \<le> d"
  shows "result_of (AuthCode_Consume X c) (w1\<lparr>now := now w + d\<rparr>) =
    (if d < 60 * second then Inr (valid_code (a\<lparr>ac_CreatedAt := now w\<rparr>)) else Inl ErrAuthCodeNotFound)"
  by (rule consume_at [OF assms])

lemma ref_create:
  "\<exists>c w1. run (AuthCode_Create ref_ext a) ref_world = (Inr c, w1)"
proof -
  obtain r w1 where r: "run (AuthCode_Create ref_ext a) ref_world = (r, w1)" by fastforce
  then have "r = Inr (base64_raw_url (replicate 32 (char_of (0::nat))))"
    using AuthCode_Create_cases(3) [OF ref_ok(1) r] by (simp add: ref_time_text_0)
  with r show ?thesis by blast
qed

theorem code_lives_sixty_seconds_witness:
  "\<exists>c w1. run (AuthCode_Create ref_ext zero_auth_code) ref_world = (Inr c, w1)
    \<and> result_of (AuthCode_Consume ref_ext c) (w1\<lparr>now := 59 * second\<rparr>)
        = Inr (valid_code (zero_auth_code\<lparr>ac_CreatedAt := 0\<rparr>))
    \<and> result_of (AuthCode_Consume ref_ext c) (w1\<lparr>now := 60 * second\<rparr>) = Inl ErrAuthCodeNotFound"
proof -
  obtain c w1 where c: "run (AuthCode_Create ref_ext zero_auth_code) ref_world = (Inr c, w1)"
    using ref_create by blast
  show ?thesis
    using c code_lives_sixty_seconds [OF ref_ok(1,4) c, of "59 * second"]
      code_lives_sixty_seconds [OF ref_ok(1,4) c, of "60 * second"]
    by (intro exI conjI) (simp_all add: second_def)
qed

text \<open>Redeeming codes one after another, and the results.\<close>

fun redeem_all :: "('r, 'd) ext \<Rightarrow> gostring list \<Rightarrow> ('r, 'd) world \<Rightarrow> (gostring \<times> (goerr + auth_code)) list"
where
  "redeem_all X [] w = []"
| "redeem_all X (c # cs) w =
     (case run (AuthCode_Consume X c) w of (r, w') \<Rightarrow> (c, r) # redeem_all X cs w')"

lemma redeem_all_port: "redeem_all X cs w = codes.consume_all X cs w"
  by (induction cs arbitrary: w) (auto split: prod.splits)

text \<open>In any sequence of redemptions, whichever codes they name and however Redis fails, each
  code is redeemed successfully at most once.\<close>

theorem code_redeemed_at_most_once:
  assumes "redis_ok X"
  shows "length (filter (\<lambda>(d, r). d = c \<and> (\<exists>a. r = Inr a)) (redeem_all X cs w)) \<le> 1"
  unfolding redeem_all_port by (rule codes.redeemed_once [OF assms])

theorem code_redeemed_at_most_once_witness:
  "length (filter (\<lambda>(d, r). d = ''x'' \<and> (\<exists>a. r = Inr a))
     (redeem_all ref_ext [''x'', ''y'', ''x''] ref_world)) \<le> 1"
  by (rule code_redeemed_at_most_once [OF ref_ok(1)])

section \<open>Sessions\<close>

lemma session_get_at:
  assumes "redis_spec True X" and "library_ok X"
    and "run (Session_Create X u e) w = (Inr (i, t), w1)" and "0 \<le> d"
  shows "result_of (Session_Get X i) (w1\<lparr>now := now w + d\<rparr>) =
    (if d < sessionTTL then Inr (valid_session \<lparr>se_UserID = u, se_Email = e, se_CreatedAt = now w\<rparr>)
     else Inl ErrSessionNotFound)"
    and "result_of (Session_Get X i) (state_after (Session_Destroy X i) (w1\<lparr>now := now w + d\<rparr>))
      = Inl ErrSessionNotFound"
proof -
  let ?w = "w1\<lparr>now := now w + d\<rparr>"
  have ok: "redis_ok X" using assms(1) by (rule redis_spec_weaken)
  obtain r w2 where r: "run (Session_Get X i) ?w = (r, w2)" by fastforce
  note C = Session_Create_session_at [OF ok assms(2,3)]
  have at: "session_at X ?w i = (if d < sessionTTL
      then Some (valid_session \<lparr>se_UserID = u, se_Email = e, se_CreatedAt = now w\<rparr>) else None)"
    using C(2) by (simp add: C(1))
  obtain p where st: "store X w1 = (store X w)(sessionKeyPrefix @ i \<mapsto> (p, Some (now w + sessionTTL)))"
    using Session_Create_cases(1) [OF ok assms(3)] by blast
  have "cached X ?w (sessionKeyPrefix @ i) = None" if "\<not> d < sessionTTL"
    using that by (simp add: cached_now st live_upd)
  with at Session_Get_cases(4,5) [OF assms(1) r] show "result_of (Session_Get X i) ?w =
    (if d < sessionTTL then Inr (valid_session \<lparr>se_UserID = u, se_Email = e, se_CreatedAt = now w\<rparr>)
     else Inl ErrSessionNotFound)"
    by (auto simp: r split: if_splits)
  obtain rd w3 where d: "run (Session_Destroy X i) ?w = (rd, w3)" by fastforce
  have rd: "store X w3 = (store X ?w)(sessionKeyPrefix @ i := None)"
    using Session_Destroy_cases [OF assms(1) d] by auto
  obtain rg w4 where g: "run (Session_Get X i) w3 = (rg, w4)" by fastforce
  have "cached X w3 (sessionKeyPrefix @ i) = None"
    by (simp add: cached_def rd live_del)
  with Session_Get_cases(5) [OF assms(1) g] show
    "result_of (Session_Get X i) (state_after (Session_Destroy X i) ?w) = Inl ErrSessionNotFound"
    by (simp add: d g)
qed

text \<open>A login session is found under the identifier \<open>Create\<close> returned, with its user and
  email, for thirty days after its creation; afterwards, or once it is destroyed, looking it up
  reports \<open>ErrSessionNotFound\<close>.\<close>

theorem session_lifecycle:
  assumes "redis_spec True X" and "library_ok X"
    and "run (Session_Create X u e) w = (Inr (i, t), w1)" and "0 \<le> d"
  shows "result_of (Session_Get X i) (w1\<lparr>now := now w + d\<rparr>) =
      (if d < 30 * 24 * 3600 * second
       then Inr \<lparr>se_UserID = to_valid u, se_Email = to_valid e, se_CreatedAt = now w\<rparr>
       else Inl ErrSessionNotFound)
    \<and> result_of (Session_Get X i) (state_after (Session_Destroy X i) (w1\<lparr>now := now w + d\<rparr>))
      = Inl ErrSessionNotFound
    \<and> t = now w + 30 * 24 * 3600 * second"
proof -
  have ok: "redis_ok X" using assms(1) by (rule redis_spec_weaken)
  show ?thesis
    using session_get_at [OF assms] Session_Create_session_at(1) [OF ok assms(2,3)]
    by (simp add: sessionTTL_def valid_session_def)
qed

lemma ref_session_create:
  "\<exists>i t w1. run (Session_Create ref_ext u e) ref_world = (Inr (i, t), w1)"
proof -
  obtain r w1 where r: "run (Session_Create ref_ext u e) ref_world = (r, w1)" by fastforce
  then have "r = Inr (ref_uuid 0, sessionTTL)"
    using Session_Create_cases(3) [OF ref_ok(1) r] by (simp add: ref_time_text_0)
  with r show ?thesis by blast
qed

theorem session_lifecycle_witness:
  "\<exists>i t w1. run (Session_Create ref_ext ''u1'' ''a@b.c'') ref_world = (Inr (i, t), w1)
    \<and> result_of (Session_Get ref_ext i) (w1\<lparr>now := 5\<rparr>)
        = Inr \<lparr>se_UserID = ''u1'', se_Email = ''a@b.c'', se_CreatedAt = 0\<rparr>"
proof -
  obtain i t w1 where c: "run (Session_Create ref_ext ''u1'' ''a@b.c'') ref_world = (Inr (i, t), w1)"
    using ref_session_create by blast
  have v: "to_valid ''u1'' = ''u1''" "to_valid ''a@b.c'' = ''a@b.c''"
    by (rule to_valid_ascii, simp)+
  have "result_of (Session_Get ref_ext i) (w1\<lparr>now := 5\<rparr>)
        = Inr \<lparr>se_UserID = ''u1'', se_Email = ''a@b.c'', se_CreatedAt = 0\<rparr>"
    using session_lifecycle [OF ref_ok(1,4) c, of 5] by (simp add: second_def v)
  with c show ?thesis by blast
qed

lemma session_keeps_codes:
  assumes "redis_ok X"
  shows "run (Session_Create X u e) w = (rc, w') \<Longrightarrow> code_at X w' = code_at X w"
    and "run (Session_Destroy X i) w = (rd, w') \<Longrightarrow> code_at X w' = code_at X w"
proof -
  show "code_at X w' = code_at X w" if c: "run (Session_Create X u e) w = (rc, w')"
    using Session_Create_cases(2) [OF assms c] keeps_field_runD [OF session_ops_frame(1) c]
    by (intro ext) (auto simp: code_at_def cached_def live_upd)
  show "code_at X w' = code_at X w" if d: "run (Session_Destroy X i) w = (rd, w')"
    using Session_Destroy_cases [OF assms d] keeps_field_runD [OF session_ops_frame(6) d]
    by (intro ext) (auto simp: code_at_def cached_def live_del)
qed

lemma codes_keep_sessions:
  assumes "redis_ok X"
  shows "run (AuthCode_Create X a) w = (rc, w') \<Longrightarrow> session_at X w' = session_at X w"
    and "run (AuthCode_Consume X c) w = (rd, w') \<Longrightarrow> session_at X w' = session_at X w"
proof -
  show "session_at X w' = session_at X w" if c: "run (AuthCode_Create X a) w = (rc, w')"
    using AuthCode_Create_cases(2) [OF assms c] keeps_field_runD [OF code_ops_frame(1) c]
    by (intro ext) (auto simp: session_at_def cached_def live_upd)
  show "session_at X w' = session_at X w" if d: "run (AuthCode_Consume X c) w = (rd, w')"
    using AuthCode_Consume_cases(2) [OF assms d] keeps_field_runD [OF code_ops_frame(3) d]
    by (intro ext) (auto simp: session_at_def cached_def live_del)
qed

text \<open>C32: Sessions and authorization codes share one Redis and never interfere, even when Redis
  fails half-way: creating or destroying a session changes no code that can be redeemed, creating
  or redeeming a code changes no session.\<close>

theorem sessions_and_codes_separate:
  assumes "redis_ok X"
  shows "code_at X (state_after (Session_Create X u e) w) = code_at X w
    \<and> code_at X (state_after (Session_Destroy X i) w) = code_at X w
    \<and> session_at X (state_after (AuthCode_Create X a) w) = session_at X w
    \<and> session_at X (state_after (AuthCode_Consume X c) w) = session_at X w"
  using session_keeps_codes [OF assms] codes_keep_sessions [OF assms] by (simp add: prod_eq_iff)

theorem sessions_and_codes_separate_witness:
  "code_at ref_ext (state_after (Session_Destroy ref_ext ''x'') ref_world) = code_at ref_ext ref_world"
  using sessions_and_codes_separate [OF ref_ok(1), where i = "''x''" and w = ref_world] by blast

section \<open>The cache\<close>

text \<open>C36: \<open>Client.TTL\<close> of a key that does not exist does not report \<open>ErrRedisKeyNotFound\<close>, and of
  a key without expiry not 0, as its comment says: go-redis hands the replies -2 and -1 through as
  bare durations of that many nanoseconds, the code compares them with seconds, and so they are
  returned to the caller as they are.  Only a key with an expiry gets a duration of whole seconds,
  within a second of the time it has left.\<close>

theorem ttl_of_missing_key:
  assumes "redis_spec True X"
  shows "if cached X w k = None then result_of (Cache_TTL X k) w = Inr (-2)
    else case store X w k of
      Some (v, Some e) \<Rightarrow> \<exists>d. result_of (Cache_TTL X k) w = Inr d
        \<and> 0 \<le> d \<and> second dvd d \<and> \<bar>d - (e - now w)\<bar> \<le> second
    | _ \<Rightarrow> result_of (Cache_TTL X k) w = Inr (-1)"
  by (rule Cache_TTL_up [OF assms, of k w _ "state_after (Cache_TTL X k) w"]) simp

theorem ttl_of_missing_key_witness: "result_of (Cache_TTL ref_ext ''x'') ref_world = Inr (-2)"
  using ttl_of_missing_key [OF ref_ok(1), where k = "''x''" and w = ref_world]
  by (simp add: cached_def store_def live_def)

section \<open>Stored formats\<close>

text \<open>A JSON column gives a string slice back: \<open>Scan\<close> of what \<open>Value\<close> wrote is the slice
  itself, nil included, when its strings are valid UTF-8; in general every ill-formed byte comes
  back as U+FFFD and nothing else changes.\<close>

theorem string_slice_roundtrip:
  "StringSlice_Scan (DbBytes (StringSlice_Value s)) = Inr (map_option (map to_valid) s)
   \<and> StringSlice_Scan (DbString (StringSlice_Value s)) = Inr (map_option (map to_valid) s)
   \<and> (list_all utf8_valid (elems s) \<longleftrightarrow> StringSlice_Scan (DbBytes (StringSlice_Value s)) = Inr s)"
proof (intro conjI)
  show b: "StringSlice_Scan (DbBytes (StringSlice_Value s)) = Inr (map_option (map to_valid) s)"
    by (simp add: StringSlice_roundtrip valid_slice_def)
  then show "StringSlice_Scan (DbString (StringSlice_Value s)) = Inr (map_option (map to_valid) s)"
    by (simp add: StringSlice_Scan_def)
  have "list_all utf8_valid (elems s)" if "map_option (map to_valid) s = s"
  proof -
    have v: "utf8_valid x" if "to_valid x = x" for x
      using to_valid_valid [of x] that by simp
    from that show ?thesis
      by (cases s) (auto simp: list_all_iff intro!: v
        dest!: map_eq_conv [THEN iffD1, of to_valid _ id, unfolded list.map_id])
  qed
  then show "list_all utf8_valid (elems s) \<longleftrightarrow> StringSlice_Scan (DbBytes (StringSlice_Value s)) = Inr s"
    using valid_slice_id [of s] by (auto simp: StringSlice_roundtrip valid_slice_def list_all_iff)
qed

text \<open>\<open>base64.RawURLEncoding\<close>, which writes codes, secrets, PKCE challenges and keys, loses
  nothing: a decoder gets the bytes back, the text has the length of RFC 4648 without padding and
  uses only the URL-safe alphabet.\<close>

lemma base64_lossless:
  "base64_raw_url_decode (base64_raw_url s) = Some s
   \<and> length (base64_raw_url s) = (4 * length s + 2) div 3
   \<and> set (base64_raw_url s) \<subseteq> set b64_alphabet"
  by (simp add: length_base64 base64_alphabet)

text \<open>The JSON reader always has enough fuel: on every input it gives the same answer for
  any larger amount of fuel, so running out never decides a result.\<close>

lemma json_fuel_enough:
  "pval (json_fuel s + n) json_max_depth s = pval (json_fuel s) json_max_depth s"
  by (rule pval_fuel) simp_all


section \<open>Clients\<close>

lemma client_found_after_create:
  assumes "mysql_spec True X" "columns_ok X" "char_value (cl_ID c) = cl_ID c"
    and "run (Client_Create X c) w = (Inr (), w1)"
  shows "result_of (Client_GetByID X (cl_ID c)) w1 = Inr (Some (client_stored X w c))"
proof -
  obtain row where row: "scan_client row = Inr (client_stored X w c)" "cr_id row = char_value (cl_ID c)"
    and t: "tables_of X w1 = (tables_of X w)\<lparr>t_clients := t_clients (tables_of X w) @ [row]\<rparr>"
    and nd: "\<not> (\<exists>v \<in> set (t_clients (tables_of X w)). sql_eq X (cr_id v) (cl_ID c))"
    by (rule Client_Create_tables [OF assms(1,2,4)]) simp
  have old: "client_rows X w (cl_ID c) = None"
    using nd by (simp add: find_None_conv)
  have "sql_eq X (cl_ID c) (cl_ID c)" using assms(2) unfolding columns_ok_def by blast
  then have "client_rows X w1 (cl_ID c) = Some row"
    using assms(3) by (simp add: t find_append old row(2))
  then show ?thesis
    using Client_GetByID_cases(6) [OF assms(1), of "cl_ID c" w1 _ "state_after (Client_GetByID X (cl_ID c)) w1"]
      row(1) by simp
qed

text \<open>A client that \<open>ClientRepository.Create\<close> stored is what \<open>GetByID\<close> of its identifier then
  returns: every field as given, the three JSON columns as JSON carries them, \<open>created_at\<close> set by
  the server.\<close>

theorem client_create_then_get:
  assumes "mysql_spec True X" "columns_ok X" "char_value (cl_ID c) = cl_ID c"
    and "run (Client_Create X c) w = (Inr (), w1)"
  shows "result_of (Client_GetByID X (cl_ID c)) w1 = Inr (Some
    (c\<lparr>cl_RedirectURIs := valid_slice (cl_RedirectURIs c), cl_Scopes := valid_slice (cl_Scopes c),
       cl_GrantTypes := valid_slice (cl_GrantTypes c),
       cl_CreatedAt := sql_datetime X (sql_now X (now w))\<rparr>))"
  using client_found_after_create [OF assms] assms(3) by (simp add: client_stored_def)

definition sample_client :: client where
  "sample_client = \<lparr>cl_ID = ''c1'', cl_Name = ''n'', cl_ClientSecretHash = [],
     cl_RedirectURIs = Some [''https://a/cb''], cl_Scopes = Some [''read'', ''write''],
     cl_GrantTypes = None, cl_IsFirstParty = True, cl_CreatedAt = zero_time\<rparr>"

lemma ref_client_create:
  "\<exists>w1. run (Client_Create ref_ext sample_client) ref_world = (Inr (), w1)"
proof -
  obtain r w1 where r: "run (Client_Create ref_ext sample_client) ref_world = (r, w1)" by fastforce
  have "t_clients (tables_of ref_ext ref_world) = []"
    by (simp add: tables_of_def ref_tables_def)
  then have "r = Inr ()"
    by (rule_tac Client_Create_tables [OF ref_ok(2,3) r, where up = True])
      (simp add: sample_client_def fits_ascii)
  with r show ?thesis by blast
qed

theorem client_create_then_get_witness:
  "\<exists>w1. run (Client_Create ref_ext sample_client) ref_world = (Inr (), w1)
    \<and> result_of (Client_GetByID ref_ext ''c1'') w1 = Inr (Some (sample_client\<lparr>cl_CreatedAt := 0\<rparr>))"
proof -
  obtain w1 where c: "run (Client_Create ref_ext sample_client) ref_world = (Inr (), w1)"
    using ref_client_create by blast
  have i: "char_value (cl_ID sample_client) = cl_ID sample_client"
    by (simp add: sample_client_def char_value_def)
  have v: "valid_slice (cl_RedirectURIs sample_client) = cl_RedirectURIs sample_client"
    "valid_slice (cl_Scopes sample_client) = cl_Scopes sample_client"
    "valid_slice (cl_GrantTypes sample_client) = cl_GrantTypes sample_client"
    by (rule valid_slice_id, simp add: sample_client_def ascii_valid)+
  have "sample_client\<lparr>cl_RedirectURIs := cl_RedirectURIs sample_client,
      cl_Scopes := cl_Scopes sample_client, cl_GrantTypes := cl_GrantTypes sample_client,
      cl_CreatedAt := 0\<rparr> = sample_client\<lparr>cl_CreatedAt := 0\<rparr>" "cl_ID sample_client = ''c1''"
    by (simp_all add: sample_client_def)
  with c client_create_then_get [OF ref_ok(2,3) i c, unfolded v] show ?thesis
    by (intro exI [of _ w1] conjI) (simp_all add: numeric_date_def second_def)
qed

section \<open>Users\<close>

text \<open>\<open>UserRepository.GetByID\<close> never answers \<open>(nil, nil)\<close>: an identifier nobody has is an
  error that wraps \<open>sql.ErrNoRows\<close>, unlike \<open>GetByEmail\<close> and the other lookups, which answer
  \<open>(nil, nil)\<close>.  The test \<open>user == nil\<close> of the code grant never succeeds.\<close>

theorem get_user_by_id_never_nil:
  assumes "mysql_spec True X"
  shows "result_of (User_GetByID X i) w =
      (case List.find (\<lambda>u. sql_eq X (us_ID u) i) (t_users (tables_of X w)) of
         None \<Rightarrow> Inl (wrap ''UserRepository.GetByID'' SqlNoRows) | Some u \<Rightarrow> Inr (Some u))
    \<and> result_of (User_GetByEmail X e) w
        = Inr (List.find (\<lambda>u. sql_eq X (us_Email u) e) (t_users (tables_of X w)))"
  using User_GetByID_cases(3) [OF assms, of i w _ "state_after (User_GetByID X i) w"]
    User_GetByEmail_cases(3) [OF assms, of e w _ "state_after (User_GetByEmail X e) w"]
  by simp

theorem get_user_by_id_never_nil_witness:
  "result_of (User_GetByID ref_ext ''x'') ref_world = Inl (wrap ''UserRepository.GetByID'' SqlNoRows)"
  using get_user_by_id_never_nil [OF ref_ok(2), of "''x''" ref_world]
  by (simp add: tables_of_def ref_tables_def)

section \<open>Refresh tokens\<close>

lemma scan_tokens_Inr:
  "scan_tokens rows = Inr ts \<Longrightarrow> set ts = {t. \<exists>row \<in> set rows. scan_token row = Inr t}"
  by (induction rows arbitrary: ts) (auto split: sum.splits)

lemma active_tokens:
  assumes "mysql_spec up X" and "run (Token_GetActiveByUserID X u) w = (Inr ts, w')"
  shows "scan_tokens (filter (\<lambda>r. sql_eq X (tw_user_id r) u \<and> tw_revoked_at r = None
     \<and> sql_now X (now w) < tw_expires_at r) (t_tokens (tables_of X w))) = Inr ts"
proof -
  obtain res where c: "run (sql_call (sql_active_tokens X u)) w = (res, w')"
    and r: "Inr ts = (case (case res of Inl e \<Rightarrow> Inl e | Inr rows \<Rightarrow> scan_tokens rows) of
       Inl e \<Rightarrow> Inl (wrap ''RefreshTokenRepository.GetActiveByUserID'' e)
     | Inr ts \<Rightarrow> Inr ts)"
    using assms(2) by (auto simp: Token_GetActiveByUserID_def split: prod.splits)
  from run_sql_tables [OF mysql_specD(5) [OF assms(1)] c] r show ?thesis
    by (auto simp: sem_active_tokens_def split: sum.splits elim!: infraE)
qed

text \<open>\<open>GetActiveByUserID\<close> returns exactly the stored refresh tokens of the user that are not
  revoked and whose expiry is after the server's \<open>NOW()\<close>, and after \<open>RevokeAllForUser\<close> of that
  user has succeeded it returns none, then and at any later time.\<close>

theorem active_tokens_of_user:
  assumes "mysql_ok X"
  shows "(\<forall>ts. result_of (Token_GetActiveByUserID X u) w = Inr ts \<longrightarrow>
      set ts = {t \<in> stored_tokens X w. sql_eq X (rt_UserID t) u \<and> rt_RevokedAt t = None
        \<and> sql_now X (now w) < rt_ExpiresAt t})
    \<and> (result_of (Token_RevokeAllForUser X u) w = Inr () \<longrightarrow>
        (\<forall>d ts. result_of (Token_GetActiveByUserID X u)
           ((state_after (Token_RevokeAllForUser X u) w)\<lparr>now := d\<rparr>) = Inr ts \<longrightarrow> ts = []))"
proof (intro conjI allI impI)
  fix ts
  assume "result_of (Token_GetActiveByUserID X u) w = Inr ts"
  then have "set ts = {t. \<exists>row \<in> set (filter (\<lambda>r. sql_eq X (tw_user_id r) u \<and> tw_revoked_at r = None
     \<and> sql_now X (now w) < tw_expires_at r) (t_tokens (tables_of X w))). scan_token row = Inr t}"
    by (intro scan_tokens_Inr active_tokens [OF assms]) (simp add: prod_eq_iff)
  then show "set ts = {t \<in> stored_tokens X w. sql_eq X (rt_UserID t) u \<and> rt_RevokedAt t = None
        \<and> sql_now X (now w) < rt_ExpiresAt t}"
    by (auto simp: stored_tokens_def scan_token_fields)
next
  fix d ts
  let ?w1 = "(state_after (Token_RevokeAllForUser X u) w)\<lparr>now := d\<rparr>"
  assume r: "result_of (Token_RevokeAllForUser X u) w = Inr ()"
    and a: "result_of (Token_GetActiveByUserID X u) ?w1 = Inr ts"
  have "sem_exec X (RevokeUserTokens u) (now w) (tables_of X w)
    = (Inr (), tables_of X (state_after (Token_RevokeAllForUser X u) w))"
    using exec_tables(1) [OF assms, of "RevokeUserTokens u" "''RefreshTokenRepository.RevokeAllForUser''"
      w _ "state_after (Token_RevokeAllForUser X u) w"] r
    unfolding Token_RevokeAllForUser_def by (simp add: prod_eq_iff)
  then have "tables_of X ?w1 = (tables_of X w)\<lparr>t_tokens := map (\<lambda>r. if sql_eq X (tw_user_id r) u
      \<and> tw_revoked_at r = None then r\<lparr>tw_revoked_at := Some (sql_datetime X (sql_now X (now w)))\<rparr>
      else r) (t_tokens (tables_of X w))\<rparr>"
    by (simp add: tables_of_def)
  then have "\<forall>t \<in> set (t_tokens (tables_of X ?w1)). \<not> (sql_eq X (tw_user_id t) u \<and> tw_revoked_at t = None)"
    by auto
  moreover have "scan_tokens (filter (\<lambda>r. sql_eq X (tw_user_id r) u \<and> tw_revoked_at r = None
     \<and> sql_now X (now ?w1) < tw_expires_at r) (t_tokens (tables_of X ?w1))) = Inr ts"
    by (rule active_tokens [OF assms]) (simp add: prod_eq_iff a)
  ultimately show "ts = []"
    by (simp add: filter_empty_conv [THEN iffD2])
qed

definition sample_token_row :: token_row where
  "sample_token_row = \<lparr>tw_id = ''t1'', tw_user_id = ''u1'', tw_client_id = ''c1'',
     tw_scope = StringSlice_Value (Some [''read'']), tw_token_hash = ''00'',
     tw_expires_at = 10 * second, tw_revoked_at = None, tw_created_at = 0\<rparr>"

definition token_world :: "(redis_store, tables) world" where
  "token_world = ref_world\<lparr>sdb := ref_tables\<lparr>t_tokens := [sample_token_row]\<rparr>\<rparr>"

theorem active_tokens_of_user_witness:
  "\<exists>t. result_of (Token_GetActiveByUserID ref_ext ''u1'') token_world = Inr [t]
    \<and> t \<in> stored_tokens ref_ext token_world \<and> rt_RevokedAt t = None"
proof -
  obtain t where t: "scan_token sample_token_row = Inr t"
    by (simp add: scan_token_def sample_token_row_def StringSlice_roundtrip)
  have "result_of (Token_GetActiveByUserID ref_ext ''u1'') token_world = Inr [t]"
    by (simp add: Token_GetActiveByUserID_def run_simps sem_active_tokens_def token_world_def t)
      (simp add: sample_token_row_def numeric_date_def second_def)
  with active_tokens_of_user [OF ref_ok(2), of "''u1''" token_world] show ?thesis by fastforce
qed

end
