(* ===== verification/ServiceProperties.thy ===== *)
theory ServiceProperties
  imports Service RepoProperties
begin

text \<open>
  What the services of \<open>internal/service\<close> promise, one property at a time, each with a
  concrete run of the reference parameter.
\<close>

section \<open>Shared\<close>

lemma spec_up_ok: "redis_spec True X \<Longrightarrow> redis_ok X" "mysql_spec True X \<Longrightarrow> mysql_ok X"
  by (auto simp: mysql_spec_def intro: complies_weaken redis_spec_weaken)

lemma run_pair: "run m w = (result_of m w, state_after m w)"
  by simp

lemma ref_env: "env_ok ref_ext"
  by (simp add: env_ok_def ref_ok)

definition sample_user :: user where
  "sample_user = \<lparr>us_ID = ref_uuid 0, us_Email = ''a@b.c'', us_PasswordHash = ref_hash ''secret'',
     us_CreatedAt = 0\<rparr>"

definition user_world :: "(redis_store, tables) world" where
  "user_world = ref_world\<lparr>sdb := ref_tables\<lparr>t_users := [sample_user]\<rparr>\<rparr>"

lemma user_world_simps [simp]: "now user_world = 0" "draws user_world = 0"
  "tables_of ref_ext user_world = ref_tables\<lparr>t_users := [sample_user]\<rparr>"
  "store ref_ext user_world = Map.empty"
  by (simp_all add: user_world_def tables_of_def store_def)

section \<open>Registration and login\<close>

text \<open>C24: \<open>Register\<close>, when it succeeds, has added exactly one user, with the given email, a fresh
  identifier and a hash that verifies the password and is not empty; nobody was registered with an
  equal email before, and nothing in Redis changed.  When somebody is registered with that email it
  answers \<open>ErrEmailTaken\<close> and stores nothing.\<close>

theorem register_adds_one_user:
  assumes "mysql_spec True X" "library_ok X"
  shows "(\<exists>v. user_by_email X w (ri_Email inp) = Some v)
      \<and> result_of (Register X inp) w = Inl ErrEmailTaken
      \<and> tables_of X (state_after (Register X inp) w) = tables_of X w
    \<or> (\<forall>v \<in> set (t_users (tables_of X w)). \<not> sql_eq X (us_Email v) (ri_Email inp))
      \<and> (case result_of (Register X inp) w of
          Inl e \<Rightarrow> e \<noteq> ErrEmailTaken
        | Inr u \<Rightarrow> us_Email u = ri_Email inp
          \<and> bcrypt_matches X (us_PasswordHash u) (ri_Password inp)
          \<and> (\<forall>v \<in> set (t_users (tables_of X w)). \<not> sql_eq X (us_ID v) (us_ID u))
          \<and> tables_of X (state_after (Register X inp) w)
              = (tables_of X w)\<lparr>t_users := t_users (tables_of X w) @ [user_row X w u]\<rparr>
          \<and> store X (state_after (Register X inp) w) = store X w)"
proof (cases "user_by_email X w (ri_Email inp)")
  case (Some v)
  obtain found w1 where f: "run (User_GetByEmail X (ri_Email inp)) w = (found, w1)" by fastforce
  have "found = Inr (Some v)"
    using User_GetByEmail_cases(3) [OF assms(1) f TrueI] Some by (simp add: user_by_email_def)
  with Some same_world_reads(7) [OF sql_reads(2) [OF assms(1) f]] show ?thesis
    by (simp add: Register_def f)
next
  case None
  obtain r w' where r: "run (Register X inp) w = (r, w')" by fastforce
  obtain found w1 where f: "run (User_GetByEmail X (ri_Email inp)) w = (found, w1)" by fastforce
  have "found = Inr None"
    using User_GetByEmail_cases(3) [OF assms(1) f TrueI] None by (simp add: user_by_email_def)
  then have "r \<noteq> Inl ErrEmailTaken"
    using r by (auto simp: Register_def f Let_def split: option.splits prod.splits sum.splits)
  moreover have "\<forall>v \<in> set (t_users (tables_of X w)). \<not> sql_eq X (us_Email v) (ri_Email inp)"
    using None by (simp add: user_by_email_def find_None_conv)
  ultimately show ?thesis
    using Register_Inr [OF assms] r by (cases r) auto
qed

theorem register_adds_one_user_witness:
  "result_of (Register ref_ext \<lparr>ri_Email = ''a@b.c'', ri_Password = ''x''\<rparr>) user_world
      = Inl ErrEmailTaken"
  using register_adds_one_user [OF ref_ok(2,4), of user_world "\<lparr>ri_Email = ''a@b.c'', ri_Password = ''x''\<rparr>"]
  by (auto simp: sample_user_def)

lemma login_stored:
  assumes "redis_ok X" "mysql_ok X" "library_ok X"
    and "run (Login X req) w = (Inr lr, w')"
  obtains u where "authenticates X w req u" "lr_ExpiresAt lr = now w + sessionTTL"
    "session_at X w' (lr_SessionID lr)
      = Some \<lparr>se_UserID = to_valid (us_ID u), se_Email = to_valid (us_Email u), se_CreatedAt = now w\<rparr>"
    "tables_of X w' = tables_of X w" "now w' = now w"
    "\<And>c. code_at X w' c = code_at X w c"
    "\<And>j. j \<noteq> lr_SessionID lr \<Longrightarrow> session_at X w' j = session_at X w j"
proof -
  obtain u w1 where u: "authenticates X w req u" and w1: "same_world X w w1"
    and c: "run (Session_Create X (us_ID u) (us_Email u)) w1 = (Inr (lr_SessionID lr, lr_ExpiresAt lr), w')"
    using Login_cases(1) [OF assms(1,2,4) refl] by blast
  note S = Session_Create_session_at [OF assms(1,3) c] and R = same_world_reads [OF w1]
  have n: "now w' = now w"
    using keeps_field_runD [OF session_ops_frame(1) c] R(8) by simp
  have t: "tables_of X w' = tables_of X w"
    using keeps_field_runD [OF session_ops_frame(2) c] R(7) by (simp add: tables_of_def)
  have "w'\<lparr>now := now w\<rparr> = w'" unfolding n [symmetric] by simp
  then have "session_at X w' (lr_SessionID lr) = Some (valid_session
      \<lparr>se_UserID = us_ID u, se_Email = us_Email u, se_CreatedAt = now w1\<rparr>)"
    using S(1) S(2) [of "now w"] R(8) by simp
  then show thesis
    using u n t S(1,3,4) R(3,4,8) by (intro that [of u]) (simp_all add: valid_session_def)
qed

text \<open>\<open>Login\<close> succeeds only for a registered user whose email equals the given one (under the
  collation of the column) and whose hash accepts the password.  It then leaves a session with that
  user's identifier and email, created now, that expires in thirty days; no other session, no code
  and no table changes.\<close>

theorem login_opens_session:
  assumes "redis_ok X" "mysql_ok X" "library_ok X"
    and "run (Login X req) w = (Inr lr, w')"
  shows "\<exists>u. u \<in> set (t_users (tables_of X w)) \<and> sql_eq X (us_Email u) (lq_Email req)
    \<and> bcrypt_matches X (us_PasswordHash u) (lq_Password req)
    \<and> session_at X w' (lr_SessionID lr)
      = Some \<lparr>se_UserID = to_valid (us_ID u), se_Email = to_valid (us_Email u), se_CreatedAt = now w\<rparr>
    \<and> lr_ExpiresAt lr = now w + 30 * 24 * 3600 * second
    \<and> tables_of X w' = tables_of X w \<and> code_at X w' = code_at X w
    \<and> (\<forall>j. j = lr_SessionID lr \<or> session_at X w' j = session_at X w j)"
proof -
  obtain u where u: "authenticates X w req u" "lr_ExpiresAt lr = now w + sessionTTL"
    "session_at X w' (lr_SessionID lr)
      = Some \<lparr>se_UserID = to_valid (us_ID u), se_Email = to_valid (us_Email u), se_CreatedAt = now w\<rparr>"
    "tables_of X w' = tables_of X w" "\<And>c. code_at X w' c = code_at X w c"
    "\<And>j. j \<noteq> lr_SessionID lr \<Longrightarrow> session_at X w' j = session_at X w j"
    by (rule login_stored [OF assms]) blast
  have "u \<in> set (t_users (tables_of X w)) \<and> sql_eq X (us_Email u) (lq_Email req)"
    using u(1) by (auto simp: authenticates_def user_by_email_def dest: find_SomeD)
  with u show ?thesis
    by (intro exI [of _ u]) (auto simp: authenticates_def sessionTTL_def fun_eq_iff)
qed

definition sample_login :: login_request where
  "sample_login = \<lparr>lq_Email = ''a@b.c'', lq_Password = ''secret''\<rparr>"

lemma sample_authenticates: "authenticates ref_ext user_world sample_login sample_user"
  by (simp add: authenticates_def user_by_email_def sample_login_def sample_user_def)

lemma ref_login: "\<exists>lr w'. run (Login ref_ext sample_login) user_world = (Inr lr, w')"
proof -
  obtain r w' where r: "run (Login ref_ext sample_login) user_world = (r, w')" by fastforce
  show ?thesis
    using Login_cases(4) [OF ref_ok(1,2) r TrueI sample_authenticates] r ref_time_text_0 by auto
qed

theorem login_opens_session_witness:
  "\<exists>lr w'. run (Login ref_ext sample_login) user_world = (Inr lr, w')
    \<and> lr_ExpiresAt lr = 2592000 * second
    \<and> (\<exists>s. session_at ref_ext w' (lr_SessionID lr) = Some s)"
proof -
  obtain lr w' where r: "run (Login ref_ext sample_login) user_world = (Inr lr, w')"
    using ref_login by blast
  with login_opens_session [OF ref_ok(1,2,4) r] show ?thesis by auto
qed

text \<open>C26: While the servers are up, \<open>Login\<close> answers \<open>ErrEmailOrPasswordWrong\<close> exactly when no
  registered user has that email and password: an unknown email and a wrong password give the same
  answer, and nothing is stored in either case.\<close>

theorem login_refusal_uniform:
  assumes "redis_spec True X" "mysql_spec True X" and "time_text X (now w) \<noteq> None"
  shows "case result_of (Login X req) w of
      Inl e \<Rightarrow> e = ErrEmailOrPasswordWrong
        \<and> (case user_by_email X w (lq_Email req) of
             None \<Rightarrow> True | Some u \<Rightarrow> \<not> bcrypt_matches X (us_PasswordHash u) (lq_Password req))
        \<and> same_world X w (state_after (Login X req) w)
    | Inr lr \<Rightarrow> (\<exists>u. user_by_email X w (lq_Email req) = Some u
        \<and> bcrypt_matches X (us_PasswordHash u) (lq_Password req))"
proof -
  obtain r w' where r: "run (Login X req) w = (r, w')" by fastforce
  note C = Login_cases [OF assms(1,2) r]
  show ?thesis
  proof (cases "\<exists>u. authenticates X w req u")
    case True
    then obtain lr where "r = Inr lr" using C(4) assms(3) by blast
    with True r show ?thesis by (auto simp: authenticates_def)
  next
    case False
    with C(3) have e: "r = Inl ErrEmailOrPasswordWrong" by blast
    with C(2) r False show ?thesis
      by (auto simp: authenticates_def split: option.split)
  qed
qed

theorem login_refusal_uniform_witness:
  "result_of (Login ref_ext (sample_login\<lparr>lq_Password := ''wrong''\<rparr>)) user_world
      = result_of (Login ref_ext (sample_login\<lparr>lq_Email := ''x@y.z''\<rparr>)) user_world"
proof -
  have t: "time_text ref_ext (now user_world) \<noteq> None" using ref_time_text_0 by simp
  have h: "ref_hash ''secret'' \<noteq> ref_hash ''wrong''" by code_simp
  have 1: "result_of (Login ref_ext (sample_login\<lparr>lq_Password := ''wrong''\<rparr>)) user_world
      = Inl ErrEmailOrPasswordWrong"
    using login_refusal_uniform [OF ref_ok(1,2) t, of "sample_login\<lparr>lq_Password := ''wrong''\<rparr>"] h
    by (auto simp: user_by_email_def sample_login_def sample_user_def split: sum.splits)
  have 2: "result_of (Login ref_ext (sample_login\<lparr>lq_Email := ''x@y.z''\<rparr>)) user_world
      = Inl ErrEmailOrPasswordWrong"
    using login_refusal_uniform [OF ref_ok(1,2) t, of "sample_login\<lparr>lq_Email := ''x@y.z''\<rparr>"]
    by (auto simp: user_by_email_def sample_login_def sample_user_def split: sum.splits)
  from 1 2 show ?thesis by simp
qed

section \<open>Sessions of the service\<close>

text \<open>C27: From login to logout: the identifier \<open>Login\<close> returned resolves to the user's session for
  thirty days; after \<open>Logout\<close> of it \<open>SessionByID\<close> answers that nobody is logged in, at any later
  time, and \<open>Logout\<close> of an empty identifier is a no-op that succeeds.\<close>

theorem login_until_logout:
  assumes "redis_spec True X" "mysql_ok X" "library_ok X"
    and "run (Login X req) w = (Inr lr, w1)" and "0 \<le> d"
  shows "(\<exists>u. authenticates X w req u \<and>
      result_of (SessionByID X (lr_SessionID lr)) (w1\<lparr>now := now w + d\<rparr>) =
        (if lr_SessionID lr \<noteq> [] \<and> d < 30 * 24 * 3600 * second
         then Inr (Some \<lparr>se_UserID = to_valid (us_ID u), se_Email = to_valid (us_Email u),
           se_CreatedAt = now w\<rparr>) else Inr None))
    \<and> result_of (SessionByID X (lr_SessionID lr))
        (state_after (Logout X (lr_SessionID lr)) (w1\<lparr>now := now w + d\<rparr>)) = Inr None
    \<and> run (Logout X []) w1 = (Inr (), w1)"
proof -
  note ok = spec_up_ok(1) [OF assms(1)]
  let ?i = "lr_SessionID lr" and ?w = "w1\<lparr>now := now w + d\<rparr>"
  obtain u w0 where u: "authenticates X w req u" and w0: "same_world X w w0"
    and c: "run (Session_Create X (us_ID u) (us_Email u)) w0 = (Inr (?i, lr_ExpiresAt lr), w1)"
    using Login_cases(1) [OF ok assms(2,4) refl] by blast
  have n: "now w0 = now w" using w0 by (simp add: same_world_def)
  note G = session_get_at [OF assms(1,3) c assms(5), unfolded n]
  have "result_of (SessionByID X ?i) ?w = (if ?i \<noteq> [] \<and> d < sessionTTL
      then Inr (Some (valid_session \<lparr>se_UserID = us_ID u, se_Email = us_Email u, se_CreatedAt = now w\<rparr>))
      else Inr None)"
    using G(1) by (auto simp: SessionByID_def split: prod.splits if_splits)
  moreover have "result_of (SessionByID X ?i) (state_after (Logout X ?i) ?w) = Inr None"
    using G(2) by (auto simp: SessionByID_def Logout_def split: prod.splits)
  ultimately show ?thesis
    using u by (auto simp: sessionTTL_def valid_session_def Logout_def)
qed

theorem login_until_logout_witness:
  "\<exists>lr w1. run (Login ref_ext sample_login) user_world = (Inr lr, w1)
    \<and> result_of (SessionByID ref_ext (lr_SessionID lr))
        (state_after (Logout ref_ext (lr_SessionID lr)) (w1\<lparr>now := 7\<rparr>)) = Inr None"
proof -
  obtain lr w1 where r: "run (Login ref_ext sample_login) user_world = (Inr lr, w1)"
    using ref_login by blast
  with login_until_logout [OF ref_ok(1,2,4) r, of 7] show ?thesis by auto
qed

section \<open>The legacy refresh\<close>

text \<open>\<open>RefreshToken\<close> issues an access token only against a stored row whose hash equals the
  SHA-256 of the presented token, which has not expired, for a user that still exists; the claims
  are that user's, with the client and scope of the row and a lifetime of fifteen minutes.  It
  changes neither Redis nor a table, and never dereferences a nil user.\<close>

theorem refresh_needs_stored_token:
  assumes "mysql_ok X"
  shows "case result_of (RefreshToken X raw) w of
      Inl e \<Rightarrow> \<forall>m. e \<noteq> Panic m
    | Inr resp \<Rightarrow> \<exists>t u. t \<in> stored_tokens X w \<and> sql_eq X (rt_TokenHash t) (hex (sha256 raw))
        \<and> now w \<le> rt_ExpiresAt t
        \<and> u \<in> stored_users X w \<and> sql_eq X (us_ID u) (rt_UserID t)
        \<and> jwt_sign X \<lparr>ic_UserID = us_ID u, ic_Email = us_Email u, ic_ClientID = rt_ClientID t,
            ic_Scope = join (elems (rt_Scope t)) '' '', ic_ID = new_uuid X (draws w),
            ic_IssuedAt = now w, ic_ExpiresAt = now w + 15 * 60 * second\<rparr> = Some (rr_AccessToken resp)
        \<and> rr_AccessTokenExpiryIn resp = 900
        \<and> tables_of X (state_after (RefreshToken X raw) w) = tables_of X w
        \<and> store X (state_after (RefreshToken X raw) w) = store X w"
proof (cases "result_of (RefreshToken X raw) w")
  case (Inl e)
  then show ?thesis using RefreshToken_no_panic [OF assms run_pair, of raw w] by simp
next
  case (Inr resp)
  then have r: "run (RefreshToken X raw) w = (Inr resp, state_after (RefreshToken X raw) w)"
    by (simp add: prod_eq_iff)
  obtain t u where t: "token_by_hash X w (hashToken raw) = Some t" and e: "now w \<le> rt_ExpiresAt t"
    and u: "user_by_id X w (rt_UserID t) = Some u"
    and j: "jwt_sign X (refreshed_claims X w t u) = Some (rr_AccessToken resp)"
    and rest: "rr_AccessTokenExpiryIn resp = 900"
      "tables_of X (state_after (RefreshToken X raw) w) = tables_of X w"
      "store X (state_after (RefreshToken X raw) w) = store X w"
    by (rule RefreshToken_Inr [OF assms r])
  have "t \<in> stored_tokens X w \<and> sql_eq X (rt_TokenHash t) (hex (sha256 raw))"
    using t by (auto simp: token_by_hash_def stored_tokens_def scan_token_fields hashToken_def
        split: option.splits sum.splits dest!: find_SomeD)
  moreover have "u \<in> stored_users X w \<and> sql_eq X (us_ID u) (rt_UserID t)"
    using u by (auto simp: user_by_id_def stored_users_def dest: find_SomeD)
  ultimately show ?thesis
    using e j rest by (auto simp: Inr refreshed_claims_def intro!: exI [of _ t] exI [of _ u])
qed

theorem refresh_needs_stored_token_witness:
  "\<not> (\<exists>resp. result_of (RefreshToken ref_ext ''x'') ref_world = Inr resp)"
  using refresh_needs_stored_token [OF ref_ok(2), where raw = "''x''" and w = ref_world]
  by (auto simp: stored_tokens_def tables_of_def ref_tables_def)

text \<open>C29: \<open>RefreshToken\<close> never looks at the revocation mark: as long as the row has not expired, it
  issues an access token for a revoked refresh token exactly as for a valid one.\<close>

theorem refresh_ignores_revocation:
  assumes "mysql_spec True X"
    and "token_by_hash X w (hashToken raw) = Some t" and "rt_RevokedAt t = Some r"
    and "now w \<le> rt_ExpiresAt t" and "user_by_id X w (rt_UserID t) = Some u"
    and "jwt_sign X (refreshed_claims X w t u) = Some tok"
  shows "result_of (RefreshToken X raw) w
    = Inr \<lparr>rr_AccessToken = tok, rr_AccessTokenExpiryIn = 900\<rparr>"
  by (rule RefreshToken_up(1) [OF assms(1,2,4,5,6)])

definition revoked_world :: "(redis_store, tables) world" where
  "revoked_world = ref_world\<lparr>sdb := ref_tables\<lparr>t_users := [sample_user], t_tokens :=
     [sample_token_row\<lparr>tw_user_id := ref_uuid 0, tw_token_hash := hashToken ''raw'',
        tw_revoked_at := Some 0\<rparr>]\<rparr>\<rparr>"

lemma revoked_world_row:
  obtains t tok where "token_by_hash ref_ext revoked_world (hashToken ''raw'') = Some t"
    "rt_RevokedAt t = Some 0" "now revoked_world \<le> rt_ExpiresAt t"
    "user_by_id ref_ext revoked_world (rt_UserID t) = Some sample_user"
    "jwt_sign ref_ext (refreshed_claims ref_ext revoked_world t sample_user) = Some tok"
proof -
  obtain t where s: "scan_token (sample_token_row\<lparr>tw_user_id := ref_uuid 0,
      tw_token_hash := hashToken ''raw'', tw_revoked_at := Some 0\<rparr>) = Inr t"
    by (simp add: scan_token_def sample_token_row_def StringSlice_roundtrip)
  then have t: "token_by_hash ref_ext revoked_world (hashToken ''raw'') = Some t"
    by (simp add: token_by_hash_def revoked_world_def tables_of_def)
  have f: "rt_RevokedAt t = Some 0" "rt_UserID t = ref_uuid 0" "rt_ExpiresAt t = 10 * second"
    using scan_token_fields [OF s] by (simp_all add: sample_token_row_def)
  have u: "user_by_id ref_ext revoked_world (rt_UserID t) = Some sample_user"
    by (simp add: user_by_id_def revoked_world_def tables_of_def f sample_user_def)
  obtain tok where j: "jwt_sign ref_ext (refreshed_claims ref_ext revoked_world t sample_user) = Some tok"
    by (simp add: ref_jwt_sign_def refreshed_claims_def revoked_world_def ref_time_text_def
        numeric_date_def second_def)
  have e: "now revoked_world \<le> rt_ExpiresAt t"
    by (simp add: revoked_world_def f second_def)
  show thesis by (rule that [OF t f(1) e u j])
qed

theorem refresh_ignores_revocation_witness:
  "\<exists>t resp. token_by_hash ref_ext revoked_world (hashToken ''raw'') = Some t
     \<and> rt_RevokedAt t = Some 0 \<and> result_of (RefreshToken ref_ext ''raw'') revoked_world = Inr resp"
proof -
  obtain t tok where t: "token_by_hash ref_ext revoked_world (hashToken ''raw'') = Some t"
    "rt_RevokedAt t = Some 0" "now revoked_world \<le> rt_ExpiresAt t"
    "user_by_id ref_ext revoked_world (rt_UserID t) = Some sample_user"
    "jwt_sign ref_ext (refreshed_claims ref_ext revoked_world t sample_user) = Some tok"
    by (rule revoked_world_row)
  from refresh_ignores_revocation [OF ref_ok(2) t] t(1,2) show ?thesis by blast
qed

section \<open>The authorization endpoint\<close>

text \<open>C14: \<open>Authorize\<close> refines the decision rules of the endpoint: whenever it answers, the answer
  is the one the rules give for the registered client, the live session and the request (unknown
  client and unregistered redirect URI are shown directly, a bad scope or prompt goes back to the
  client, no session means login, otherwise a code is issued), and whatever happens the tables and
  every other key of Redis are untouched; Redis gains one code exactly when one is issued.\<close>

theorem authorize_refines_rules:
  assumes "redis_ok X" "mysql_ok X" and "run (Authorize X req sid) w = (Inr res, w')"
  shows "tables_of X w' = tables_of X w
    \<and> (case decide (client_at X w (aq_ClientID req)) (session_of X w sid) req of
        Reject m \<Rightarrow> res = (plain_result ActionRejectDirect)\<lparr>az_Message := m\<rparr> \<and> store X w' = store X w
      | ToClient e \<Rightarrow> res = errorToClient req e \<and> store X w' = store X w
      | NeedLogin \<Rightarrow> res = plain_result ActionRequireLogin \<and> store X w' = store X w
      | Issue c s \<Rightarrow> res = (plain_result ActionIssueCode)\<lparr>az_RedirectURI := aq_RedirectURI req,
            az_State := aq_State req, az_Code := az_Code res\<rparr>
          \<and> (\<exists>payload. store X w' = (store X w)(authCodeKeyPrefix @ az_Code res
                \<mapsto> (payload, Some (now w + 60 * second)))))"
  using assms
proof (cases rule: Authorize_Inr [where code = "[]"])
  case quiet
  then show ?thesis
    using same_world_reads(6,7) [OF quiet(3)]
    by (auto simp: outcome_of_def errorToClient_def split: decision.splits)
next
  case (issued c s w1 code)
  note w1 = same_world_reads(6-8) [OF issued(3)]
  have "\<exists>payload. store X w' = (store X w)(authCodeKeyPrefix @ code \<mapsto> (payload, Some (now w + authCodeTTL)))"
    using AuthCode_Create_cases(1) [OF assms(1) issued(4) refl] w1 by auto
  moreover have "az_Code res = code"
    by (simp add: issued(2) outcome_of_def issued(1) plain_result_def)
  moreover have "res = (plain_result ActionIssueCode)\<lparr>az_RedirectURI := aq_RedirectURI req,
      az_State := aq_State req, az_Code := code\<rparr>"
    by (simp add: issued(2) outcome_of_def issued(1))
  ultimately show ?thesis
    using Authorize_bounds(1) [OF assms] by (simp add: issued(1) authCodeTTL_def)
qed

definition sample_client_row :: client_row where
  "sample_client_row = \<lparr>cr_id = ''c1'', cr_name = ''n'', cr_secret_hash = [],
     cr_redirect_uris = StringSlice_Value (Some [''https://a/cb'']),
     cr_scopes = StringSlice_Value (Some [''read'', ''write'']),
     cr_grant_types = StringSlice_Value None, cr_is_first_party = True, cr_created_at = 0\<rparr>"

definition service_world :: "(redis_store, tables) world" where
  "service_world = ref_world\<lparr>sdb := ref_tables\<lparr>t_users := [sample_user],
     t_clients := [sample_client_row]\<rparr>\<rparr>"

definition sample_request :: authorize_request where
  "sample_request = \<lparr>aq_ResponseType = ''code'', aq_ClientID = ''c1'',
     aq_RedirectURI = ''https://a/cb'', aq_Scope = ''read'', aq_State = ''st'',
     aq_CodeChallenge = base64_raw_url (sha256 ''verifier''), aq_CodeChallengeMethod = ''S256'',
     aq_Nonce = [], aq_Prompt = [], aq_AccessType = []\<rparr>"

lemma ascii_ids: "to_valid ''https://a/cb'' = ''https://a/cb''" "to_valid ''read'' = ''read''"
  "to_valid ''write'' = ''write''" "to_valid ''c1'' = ''c1''" "to_valid ''S256'' = ''S256''"
  "to_valid ''a@b.c'' = ''a@b.c''"
  by (rule to_valid_ascii, simp)+

lemma scan_sample: "scan_client sample_client_row = Inr (sample_client\<lparr>cl_CreatedAt := 0\<rparr>)"
  by (simp add: scan_client_def sample_client_row_def sample_client_def StringSlice_roundtrip ascii_ids)

lemma service_world_simps [simp]: "now service_world = 0" "draws service_world = 0"
  "tables_of ref_ext service_world = ref_tables\<lparr>t_users := [sample_user], t_clients := [sample_client_row]\<rparr>"
  "store ref_ext service_world = Map.empty"
  by (simp_all add: service_world_def tables_of_def store_def)

lemma service_client: "client_at ref_ext service_world ''c1'' = Some (sample_client\<lparr>cl_CreatedAt := 0\<rparr>)"
  using scan_sample by (simp add: client_at_def) (simp add: sample_client_row_def)

lemma fields_read: "Fields ''read'' = [''read'']" "Fields [] = []"
  by (simp_all add: Fields_def fields_from.simps is_space_def)

lemma decide_sample:
  "decide (Some (sample_client\<lparr>cl_CreatedAt := 0\<rparr>)) so sample_request = (case so of
     Some s \<Rightarrow> Issue (sample_client\<lparr>cl_CreatedAt := 0\<rparr>) s | None \<Rightarrow> NeedLogin)"
  by (auto simp: decide_def sample_client_def sample_request_def scope_granted_def prompt_none_def
      fields_read split: option.split)

theorem authorize_refines_rules_witness:
  "\<exists>w'. run (Authorize ref_ext sample_request []) service_world
      = (Inr (plain_result ActionRequireLogin), w')"
proof -
  obtain r w' where r: "run (Authorize ref_ext sample_request []) service_world = (r, w')" by fastforce
  obtain found w1 where f: "run (Client_GetByID ref_ext ''c1'') service_world = (found, w1)" by fastforce
  have "found = Inr (Some (sample_client\<lparr>cl_CreatedAt := 0\<rparr>))"
    using Client_GetByID_cases(6) [OF ref_ok(2) f TrueI _ scan_sample]
    by (simp add: sample_client_row_def)
  then have "\<exists>res. r = Inr res"
    using r f by (auto simp: Authorize_def sample_request_def SessionByID_def Let_def fields_read
        sample_client_def)
  then obtain res where res: "r = Inr res" ..
  have "res = plain_result ActionRequireLogin"
    using authorize_refines_rules [OF ref_ok(1,2) r [unfolded res]]
    by (simp add: service_client sample_request_def [THEN arg_cong, of aq_ClientID] session_of_def
        decide_sample)
  with r res show ?thesis by simp
qed

text \<open>C21: \<open>Authorize\<close> tells the handler to redirect only to a URI that is registered for the client
  named in the request, byte for byte; the two answers that are shown to the user directly carry
  neither a redirect target nor a code, and a code is handed out only together with a live session
  and a scope inside the registered scopes.\<close>

theorem authorize_redirects_to_registered:
  assumes "redis_ok X" "mysql_ok X" and "run (Authorize X req sid) w = (Inr res, w')"
  shows "(az_Action res \<in> {ActionIssueCode, ActionErrorToClient}
      \<and> az_RedirectURI res = aq_RedirectURI req \<and> az_State res = aq_State req
      \<and> (\<exists>c. client_at X w (aq_ClientID req) = Some c
          \<and> aq_RedirectURI req \<in> set (elems (cl_RedirectURIs c))
          \<and> (az_Action res = ActionErrorToClient \<and> az_Code res = []
             \<or> az_Action res = ActionIssueCode \<and> session_of X w sid \<noteq> None
               \<and> Fields (aq_Scope req) \<noteq> []
               \<and> set (Fields (aq_Scope req)) \<subseteq> set (elems (cl_Scopes c)))))
    \<or> (az_Action res \<in> {ActionRejectDirect, ActionRequireLogin}
      \<and> az_RedirectURI res = [] \<and> az_Code res = [])"
  using assms
proof (cases rule: Authorize_Inr [where code = "[]"])
  case quiet
  then show ?thesis
    by (auto simp: outcome_of_def decide_def plain_result_def split: option.splits if_splits)
next
  case (issued c s w1 code)
  then show ?thesis
    by (auto simp: outcome_of_def decide_def plain_result_def scope_granted_def
        split: option.splits if_splits)
qed

theorem authorize_redirects_to_registered_witness:
  "\<exists>res w'. run (Authorize ref_ext (sample_request\<lparr>aq_RedirectURI := ''https://evil''\<rparr>) []) service_world
      = (Inr res, w') \<and> az_RedirectURI res = []"
proof -
  let ?req = "sample_request\<lparr>aq_RedirectURI := ''https://evil''\<rparr>"
  obtain r w' where r: "run (Authorize ref_ext ?req []) service_world = (r, w')" by fastforce
  obtain found w1 where f: "run (Client_GetByID ref_ext ''c1'') service_world = (found, w1)" by fastforce
  have "found = Inr (Some (sample_client\<lparr>cl_CreatedAt := 0\<rparr>))"
    using Client_GetByID_cases(6) [OF ref_ok(2) f TrueI _ scan_sample]
    by (simp add: sample_client_row_def)
  then have "\<exists>res. r = Inr res"
    using r f by (auto simp: Authorize_def sample_request_def sample_client_def)
  then obtain res where res: "r = Inr res" ..
  have "az_RedirectURI res = []"
    using authorize_redirects_to_registered [OF ref_ok(1,2) r [unfolded res]]
    by (auto simp: service_client sample_request_def sample_client_def)
  with r res show ?thesis by blast
qed

lemma authorized_code:
  assumes "redis_ok X" "mysql_ok X" "library_ok X"
    and "run (Authorize X req sid) w = (Inr res, w')" and "az_Action res = ActionIssueCode"
  obtains c s where "client_at X w (aq_ClientID req) = Some c" "session_of X w sid = Some s"
    "aq_RedirectURI req \<in> set (elems (cl_RedirectURIs c))" "scope_granted c (aq_Scope req)"
    "code_at X w' (az_Code res) = Some (valid_code (code_for req c s\<lparr>ac_CreatedAt := now w\<rparr>))"
    "\<And>t. code_at X (w'\<lparr>now := t\<rparr>) (az_Code res) = (if t < now w + authCodeTTL
        then Some (valid_code (code_for req c s\<lparr>ac_CreatedAt := now w\<rparr>)) else None)"
    "\<And>k. k \<noteq> az_Code res \<Longrightarrow> code_at X w' k = code_at X w k"
    "session_at X w' = session_at X w" "tables_of X w' = tables_of X w" "now w' = now w"
  using assms(1,2,4)
proof (cases rule: Authorize_Inr [where code = "[]"])
  case quiet
  then show thesis
    using assms(5) by (auto simp: outcome_of_def plain_result_def split: decision.splits)
next
  case (issued c s w1 code)
  have d: "client_at X w (aq_ClientID req) = Some c" "session_of X w sid = Some s"
    "aq_RedirectURI req \<in> set (elems (cl_RedirectURIs c))" "scope_granted c (aq_Scope req)"
    using issued(1) by (auto simp: decide_def split: option.splits if_splits)
  have code: "az_Code res = code"
    by (simp add: issued(2) outcome_of_def issued(1) plain_result_def)
  note w1 = same_world_reads [OF issued(3)]
  note A = AuthCode_Create_code_at [OF assms(1,3) issued(4)]
  have n: "now w' = now w" using keeps_field_runD [OF Auth_frame(12) assms(4)] .
  show thesis
    by (rule that [OF d]) (use A w1 n Authorize_bounds(1) [OF assms(1,2,4)] in \<open>simp_all add: code\<close>)
qed

text \<open>C22: The code \<open>Authorize\<close> issues stands, for sixty seconds, for what was approved: the
  client, the user of the live session, the redirect URI, the requested scope elements and the
  PKCE challenge of the request (as JSON carries them); every other code and every session is
  untouched.\<close>

theorem authorize_binds_code:
  assumes "redis_ok X" "mysql_ok X" "library_ok X"
    and "run (Authorize X req sid) w = (Inr res, w')" and "az_Action res = ActionIssueCode"
  shows "\<exists>c s. client_at X w (aq_ClientID req) = Some c \<and> session_of X w sid = Some s
    \<and> (\<forall>t. code_at X (w'\<lparr>now := t\<rparr>) (az_Code res) = (if t < now w + 60 * second then Some
        \<lparr>ac_ClientID = to_valid (cl_ID c), ac_UserID = to_valid (se_UserID s),
         ac_RedirectURI = to_valid (aq_RedirectURI req),
         ac_Scope = Some (map to_valid (Fields (aq_Scope req))),
         ac_CodeChallenge = to_valid (aq_CodeChallenge req),
         ac_CodeChallengeMethod = to_valid (aq_CodeChallengeMethod req),
         ac_Nonce = to_valid (aq_Nonce req), ac_CreatedAt = now w\<rparr> else None))
    \<and> (\<forall>k. k = az_Code res \<or> code_at X w' k = code_at X w k)
    \<and> session_at X w' = session_at X w"
proof -
  obtain c s where "client_at X w (aq_ClientID req) = Some c" "session_of X w sid = Some s"
    "\<And>t. code_at X (w'\<lparr>now := t\<rparr>) (az_Code res) = (if t < now w + authCodeTTL
        then Some (valid_code (code_for req c s\<lparr>ac_CreatedAt := now w\<rparr>)) else None)"
    "\<And>k. k \<noteq> az_Code res \<Longrightarrow> code_at X w' k = code_at X w k" "session_at X w' = session_at X w"
    by (rule authorized_code [OF assms]) blast
  then show ?thesis
    by (intro exI [of _ c] exI [of _ s]) (auto simp: authCodeTTL_def valid_code_def code_for_def)
qed

text \<open>The sample user logs in at the sample service.\<close>

lemma logged_in:
  obtains lr w1 where "run (Login ref_ext sample_login) service_world = (Inr lr, w1)"
    and "now w1 = 0" "tables_of ref_ext w1 = tables_of ref_ext service_world"
    and "session_of ref_ext w1 (lr_SessionID lr)
      = Some \<lparr>se_UserID = ref_uuid 0, se_Email = ''a@b.c'', se_CreatedAt = 0\<rparr>"
proof -
  have a: "authenticates ref_ext service_world sample_login sample_user"
    by (simp add: authenticates_def user_by_email_def sample_login_def sample_user_def)
  obtain r w1 where r: "run (Login ref_ext sample_login) service_world = (r, w1)" by fastforce
  then obtain lr where lr: "r = Inr lr"
    using Login_cases(4) [OF ref_ok(1,2) r TrueI a] ref_time_text_0 by auto
  note r = r [unfolded lr]
  obtain u where u: "authenticates ref_ext service_world sample_login u"
    and s: "session_at ref_ext w1 (lr_SessionID lr) = Some \<lparr>se_UserID = to_valid (us_ID u),
      se_Email = to_valid (us_Email u), se_CreatedAt = now service_world\<rparr>"
    and t: "tables_of ref_ext w1 = tables_of ref_ext service_world" "now w1 = now service_world"
    by (rule login_stored [OF ref_ok(1,2,4) r]) blast
  have "u = sample_user" using a u by (simp add: authenticates_def)
  moreover have "lr_SessionID lr \<noteq> []"
  proof -
    obtain u' :: user and w0 where "run (Session_Create ref_ext (us_ID u') (us_Email u')) w0
        = (Inr (lr_SessionID lr, lr_ExpiresAt lr), w1)"
      using Login_cases(1) [OF ref_ok(1,2) r refl] by blast
    then show ?thesis
      using Session_Create_cases(1) [OF ref_ok(1)] by (fastforce simp: ref_uuid_def)
  qed
  moreover have "to_valid (ref_uuid 0) = ref_uuid 0"
    by (rule to_valid_ascii) (simp add: ref_uuid_def hex_char_def ascii_def)
  ultimately have "session_of ref_ext w1 (lr_SessionID lr)
      = Some \<lparr>se_UserID = ref_uuid 0, se_Email = ''a@b.c'', se_CreatedAt = 0\<rparr>"
    using s by (simp add: session_of_def sample_user_def ascii_ids)
  with r t that show thesis by simp
qed

lemma client_at_cong: "tables_of X w = tables_of X w' \<Longrightarrow> client_at X w = client_at X w'"
  by (rule ext) (simp add: client_at_def)

lemma code_issued:
  obtains sid res w1 w2 where "run (Authorize ref_ext sample_request sid) w1 = (Inr res, w2)"
    and "az_Action res = ActionIssueCode" "now w1 = 0"
    and "tables_of ref_ext w1 = tables_of ref_ext service_world"
    and "session_of ref_ext w1 sid
      = Some \<lparr>se_UserID = ref_uuid 0, se_Email = ''a@b.c'', se_CreatedAt = 0\<rparr>"
proof -
  obtain lr w1 where r: "run (Login ref_ext sample_login) service_world = (Inr lr, w1)"
    and w1: "now w1 = 0" "tables_of ref_ext w1 = tables_of ref_ext service_world"
    and s: "session_of ref_ext w1 (lr_SessionID lr)
      = Some \<lparr>se_UserID = ref_uuid 0, se_Email = ''a@b.c'', se_CreatedAt = 0\<rparr>"
    by (rule logged_in)
  obtain ra w2 where a: "run (Authorize ref_ext sample_request (lr_SessionID lr)) w1 = (ra, w2)"
    by fastforce
  have "client_at ref_ext w1 (aq_ClientID sample_request) = Some (sample_client\<lparr>cl_CreatedAt := 0\<rparr>)"
    using service_client client_at_cong [OF w1(2)] by (simp add: sample_request_def)
  then have "decide (client_at ref_ext w1 (aq_ClientID sample_request))
      (session_of ref_ext w1 (lr_SessionID lr)) sample_request
    = Issue (sample_client\<lparr>cl_CreatedAt := 0\<rparr>)
        \<lparr>se_UserID = ref_uuid 0, se_Email = ''a@b.c'', se_CreatedAt = 0\<rparr>"
    by (simp add: s decide_sample)
  from Authorize_issues [OF ref_ok(1,2) a this] obtain res where "ra = Inr res"
    "az_Action res = ActionIssueCode"
    using ref_time_text_0 by (auto simp: w1)
  with a w1 s that show thesis by blast
qed

theorem authorize_binds_code_witness:
  "\<exists>sid w1 res w2. run (Authorize ref_ext sample_request sid) w1 = (Inr res, w2)
    \<and> (\<exists>a. code_at ref_ext (w2\<lparr>now := 59 * second\<rparr>) (az_Code res) = Some a
        \<and> ac_ClientID a = ''c1'' \<and> ac_RedirectURI a = ''https://a/cb'' \<and> ac_Scope a = Some [''read''])"
proof -
  obtain sid res w1 w2 where a: "run (Authorize ref_ext sample_request sid) w1 = (Inr res, w2)"
    and i: "az_Action res = ActionIssueCode" and w1: "now w1 = 0"
    "tables_of ref_ext w1 = tables_of ref_ext service_world"
    by (rule code_issued)
  have c: "client_at ref_ext w1 (aq_ClientID sample_request) = Some (sample_client\<lparr>cl_CreatedAt := 0\<rparr>)"
    using service_client client_at_cong [OF w1(2)] by (simp add: sample_request_def)
  obtain c and s :: session where cs: "client_at ref_ext w1 (aq_ClientID sample_request) = Some c"
    "\<forall>t. code_at ref_ext (w2\<lparr>now := t\<rparr>) (az_Code res) = (if t < now w1 + 60 * second then Some
        \<lparr>ac_ClientID = to_valid (cl_ID c), ac_UserID = to_valid (se_UserID s),
         ac_RedirectURI = to_valid (aq_RedirectURI sample_request),
         ac_Scope = Some (map to_valid (Fields (aq_Scope sample_request))),
         ac_CodeChallenge = to_valid (aq_CodeChallenge sample_request),
         ac_CodeChallengeMethod = to_valid (aq_CodeChallengeMethod sample_request),
         ac_Nonce = to_valid (aq_Nonce sample_request), ac_CreatedAt = now w1\<rparr> else None)"
    using authorize_binds_code [OF ref_ok(1,2,4) a i] by blast
  have "cl_ID c = ''c1''" using cs(1) c by (auto simp: sample_client_def)
  with a cs(2) [THEN spec, of "59 * second"] show ?thesis
    by (intro exI [of _ sid] exI [of _ w1] exI [of _ res] exI [of _ w2] conjI)
      (simp_all add: sample_request_def ascii_ids fields_read w1 second_def)
qed

section \<open>Client registration\<close>

text \<open>\<open>RegisterClient\<close>, when it succeeds, has added one client under a fresh identifier that
  carries the request's name, redirect URIs, scopes and grant types, all of them supported.  A
  public client has neither secret nor hash; a confidential one gets 32 random bytes in base64,
  returned once, of which only a hash that verifies it is stored.\<close>

theorem register_client_stores:
  assumes "tables_ok X" "library_ok X" and "run (RegisterClient X req) w = (Inr resp, w')"
  shows "(\<forall>gt \<in> set (elems (rq_GrantTypes req)). gt = ''authorization_code'' \<or> gt = ''refresh_token'')
    \<and> rp_Name resp = rq_Name req
    \<and> (\<exists>c. stored_clients X w' = insert c (stored_clients X w)
        \<and> (\<forall>d \<in> stored_clients X w. \<not> sql_eq X (cl_ID d) (rp_ClientID resp))
        \<and> cl_ID c = char_value (rp_ClientID resp) \<and> cl_Name c = rq_Name req
        \<and> cl_RedirectURIs c = valid_slice (rq_RedirectURIs req)
        \<and> cl_Scopes c = valid_slice (rq_Scopes req)
        \<and> cl_GrantTypes c = valid_slice (rq_GrantTypes req)
        \<and> (if rq_IsPublic req then rp_ClientSecret resp = [] \<and> cl_ClientSecretHash c = []
           else cl_ClientSecretHash c \<noteq> [] \<and> length (rp_ClientSecret resp) = 43
             \<and> bcrypt_matches X (cl_ClientSecretHash c) (rp_ClientSecret resp)))
    \<and> store X w' = store X w"
proof -
  obtain h row c where t: "tables_of X w' = (tables_of X w)\<lparr>t_clients := t_clients (tables_of X w) @ [row]\<rparr>"
    and row: "scan_client row = Inr c" "cr_id row = cl_ID c"
    and c: "c = \<lparr>cl_ID = char_value (rp_ClientID resp), cl_Name = rq_Name req, cl_ClientSecretHash = h,
          cl_RedirectURIs = valid_slice (rq_RedirectURIs req), cl_Scopes = valid_slice (rq_Scopes req),
          cl_GrantTypes = valid_slice (rq_GrantTypes req), cl_IsFirstParty = rq_IsFirstParty req,
          cl_CreatedAt = sql_datetime X (sql_now X (now w))\<rparr>"
    and g: "\<forall>gt \<in> set (elems (rq_GrantTypes req)). supported_grant gt"
    and s: "if rq_IsPublic req then rp_ClientSecret resp = [] \<and> h = []
         else h \<noteq> [] \<and> bcrypt_matches X h (rp_ClientSecret resp)
           \<and> (\<exists>b. length b = 32 \<and> rp_ClientSecret resp = base64_raw_url b)"
    and n: "rp_Name resp = rq_Name req"
    and d: "\<not> (\<exists>v \<in> set (t_clients (tables_of X w)). sql_eq X (cr_id v) (rp_ClientID resp))"
    by (rule RegisterClient_Inr [OF assms])
  have st: "store X w' = store X w"
    using keeps_field_runD [OF RegisterClient_frame(2) assms(3)] by (simp add: store_def)
  have "stored_clients X w' = insert c (stored_clients X w)"
    by (auto simp: stored_clients_def t row)
  moreover have "\<forall>d \<in> stored_clients X w. \<not> sql_eq X (cl_ID d) (rp_ClientID resp)"
    using d by (auto simp: stored_clients_def scan_client_ID)
  moreover have "if rq_IsPublic req then rp_ClientSecret resp = [] \<and> cl_ClientSecretHash c = []
           else cl_ClientSecretHash c \<noteq> [] \<and> length (rp_ClientSecret resp) = 43
             \<and> bcrypt_matches X (cl_ClientSecretHash c) (rp_ClientSecret resp)"
    using s by (auto simp: c length_base64 split: if_splits)
  ultimately show ?thesis
    using g n st by (auto simp: supported_grant_iff c intro!: exI [of _ c])
qed

definition public_request :: register_client_request where
  "public_request = \<lparr>rq_Name = ''app'', rq_RedirectURIs = Some [''https://a/cb''],
     rq_Scopes = Some [''read''], rq_GrantTypes = Some [''authorization_code''],
     rq_IsFirstParty = False, rq_IsPublic = True\<rparr>"

lemma ref_register_client: "\<exists>resp w'. run (RegisterClient ref_ext public_request) ref_world = (Inr resp, w')"
proof -
  let ?w1 = "ref_world\<lparr>draws := Suc 0\<rparr>"
  let ?c = "\<lparr>cl_ID = ref_uuid 0, cl_Name = ''app'', cl_ClientSecretHash = [],
    cl_RedirectURIs = Some [''https://a/cb''], cl_Scopes = Some [''read''],
    cl_GrantTypes = Some [''authorization_code''], cl_IsFirstParty = False, cl_CreatedAt = zero_time\<rparr>"
  obtain r w' where c: "run (Client_Create ref_ext ?c) ?w1 = (r, w')" by fastforce
  have t: "tables_of ref_ext ?w1 = ref_tables" by (simp add: tables_of_def)
  have "uuid_text (ref_uuid 0)" using ref_library by (simp add: library_ok_def)
  then have "fits 36 (ref_uuid 0)"
    using uuid_plain by (intro fits_ascii) (auto simp: uuid_text_def)
  then have "r = Inr ()"
    by (rule_tac Client_Create_tables [OF ref_ok(2,3) c, where up = True])
      (simp add: t ref_tables_def fits_ascii)
  with c show ?thesis
    by (simp add: RegisterClient_def public_request_def supported_grant_iff make_secret_def
        GrantClientCredentials_def)
qed

theorem register_client_stores_witness:
  "\<exists>resp w'. run (RegisterClient ref_ext public_request) ref_world = (Inr resp, w')
    \<and> rp_ClientSecret resp = [] \<and> stored_clients ref_ext w' \<noteq> {}"
proof -
  obtain resp w' where r: "run (RegisterClient ref_ext public_request) ref_world = (Inr resp, w')"
    using ref_register_client by blast
  have p: "rq_IsPublic public_request" by (simp add: public_request_def)
  show ?thesis using r register_client_stores [OF ref_ok(5,4) r] p by auto
qed

text \<open>A registration that asks for a grant type the server does not implement, or for
  client credentials as a public client, is refused before anything is generated or stored, with
  the error of the first such grant type; any other registration is not refused for that reason.\<close>

theorem register_client_refuses:
  "case List.find (\<lambda>gt. rq_IsPublic req \<and> gt = ''client_credentials'' \<or> \<not> supported_grant gt)
      (elems (rq_GrantTypes req)) of
     Some gt \<Rightarrow> run (RegisterClient X req) w = (Inl
       (if rq_IsPublic req \<and> gt = ''client_credentials'' then ErrPublicClientCredentialsGrant
        else Errorf [] ErrUnsupportedGrantType ('': '' @ go_quote X gt)), w)
   | None \<Rightarrow> check_grant_types X (rq_IsPublic req) (elems (rq_GrantTypes req)) = None"
proof -
  have "check_grant_types X p gts =
    (case List.find (\<lambda>gt. p \<and> gt = ''client_credentials'' \<or> \<not> supported_grant gt) gts of
       None \<Rightarrow> None
     | Some gt \<Rightarrow> Some (if p \<and> gt = ''client_credentials'' then ErrPublicClientCredentialsGrant
         else Errorf [] ErrUnsupportedGrantType ('': '' @ go_quote X gt)))" for p gts
    by (induction gts) (auto simp: GrantClientCredentials_def split: option.splits)
  then show ?thesis
    by (simp add: RegisterClient_def split: option.split)
qed

theorem register_client_refuses_witness:
  "run (RegisterClient ref_ext (public_request\<lparr>rq_GrantTypes :=
      Some [''authorization_code'', ''client_credentials'']\<rparr>)) ref_world
    = (Inl ErrPublicClientCredentialsGrant, ref_world)"
  using register_client_refuses [where req = "public_request\<lparr>rq_GrantTypes :=
      Some [''authorization_code'', ''client_credentials'']\<rparr>" and X = ref_ext and w = ref_world]
  by (simp add: public_request_def supported_grant_iff)

section \<open>The token endpoint\<close>

text \<open>C1: \<open>Exchange\<close> hands out tokens only for the code grant, to a registered client that
  authenticated (with its secret, unless it is public), against a live code that was issued to that
  client for that redirect URI, with the verifier whose SHA-256 is the code's S256 challenge, for a
  user that exists.  The access token's claims are that user's, that client's and the code's scope;
  one refresh token is stored, only by its hash, for seven days; and the code is gone.\<close>

theorem exchange_only_when_entitled:
  assumes "redis_ok X" "mysql_ok X" "columns_ok X"
    and "run (Exchange X req) w = (Inr resp, w')"
  shows "tq_GrantType req = ''authorization_code'' \<and> (\<exists>c a u tok.
      client_at X w (tq_ClientID req) = Some c
    \<and> (cl_ClientSecretHash c = [] \<or> bcrypt_matches X (cl_ClientSecretHash c) (tq_ClientSecret req))
    \<and> code_at X w (tq_Code req) = Some a
    \<and> ac_ClientID a = tq_ClientID req \<and> ac_RedirectURI a = tq_RedirectURI req
    \<and> ac_CodeChallengeMethod a = ''S256''
    \<and> ac_CodeChallenge a = base64_raw_url (sha256 (tq_CodeVerifier req))
    \<and> user_by_id X w (ac_UserID a) = Some u
    \<and> jwt_sign X (grant_claims X w u c a) = Some tok \<and> resp = grant_answer X w a tok
    \<and> token_added X w (grant_token X w u c a) (tables_of X w')
    \<and> store X w' = (store X w)(authCodeKeyPrefix @ tq_Code req := None))"
proof -
  have g: "tq_GrantType req = GrantAuthorizationCode"
    using assms(4) by (auto simp: Exchange_def refreshTokenGrant_def split: if_splits)
  then have "run (authorizationCodeGrant X req) w = (Inr resp, w')"
    using assms(4) by (simp add: Exchange_def)
  then obtain c a u where "exchanged X w req c a u resp w'"
    using code_grant_Inr [OF assms(1-3)] by blast
  then show ?thesis
    unfolding exchanged_def client_authenticates_def code_matches_def code_key_def
    using g by (auto simp: GrantAuthorizationCode_def)
qed

text \<open>The request that redeems the sample code.\<close>

definition sample_exchange :: "gostring \<Rightarrow> token_request" where
  "sample_exchange code = \<lparr>tq_GrantType = ''authorization_code'', tq_Code = code,
     tq_RedirectURI = ''https://a/cb'', tq_CodeVerifier = ''verifier'', tq_RefreshToken = [],
     tq_Scope = [], tq_ClientID = ''c1'', tq_ClientSecret = []\<rparr>"

lemma sample_exchange_simps [simp]:
  "tq_GrantType (sample_exchange k) = GrantAuthorizationCode" "tq_Code (sample_exchange k) = k"
  "tq_RedirectURI (sample_exchange k) = ''https://a/cb''"
  "tq_CodeVerifier (sample_exchange k) = ''verifier''" "tq_ClientID (sample_exchange k) = ''c1''"
  "tq_ClientSecret (sample_exchange k) = []"
  by (simp_all add: sample_exchange_def GrantAuthorizationCode_def)

lemma sample_jwt: "0 \<le> now w \<Longrightarrow> jwt_sign ref_ext (grant_claims ref_ext w u c a) \<noteq> None"
proof -
  assume n: "0 \<le> now w"
  have "0 \<le> numeric_date t" if "0 \<le> t" for t
  proof -
    have "t mod second \<le> t" using that by (intro zmod_le_nonneg_dividend)
    then show ?thesis by (simp add: numeric_date_def)
  qed
  then show ?thesis
    using n by (simp add: ref_jwt_sign_def grant_claims_def ref_time_text_def second_def)
qed

lemma ref_uuid_fits: "fits 36 (ref_uuid n)"
  using ref_library by (intro uuid_fits) (simp add: library_ok_def)

text \<open>The code that the sample request is given.\<close>

definition sample_code :: auth_code where
  "sample_code = \<lparr>ac_ClientID = ''c1'', ac_UserID = ref_uuid 0, ac_RedirectURI = ''https://a/cb'',
     ac_Scope = Some [''read''], ac_CodeChallenge = base64_raw_url (sha256 ''verifier''),
     ac_CodeChallengeMethod = ''S256'', ac_Nonce = [], ac_CreatedAt = 0\<rparr>"

lemma code_ready:
  obtains w k where "now w = 0" "tables_of ref_ext w = tables_of ref_ext service_world"
    and "client_authenticates ref_ext w (sample_exchange k) (sample_client\<lparr>cl_CreatedAt := 0\<rparr>)"
    and "\<And>t. code_at ref_ext (w\<lparr>now := t\<rparr>) k = (if t < 60 * second then Some
      sample_code else None)"
proof -
  obtain sid res w1 w2 where a: "run (Authorize ref_ext sample_request sid) w1 = (Inr res, w2)"
    and i: "az_Action res = ActionIssueCode" and n: "now w1 = 0"
    and t: "tables_of ref_ext w1 = tables_of ref_ext service_world"
    and s: "session_of ref_ext w1 sid
      = Some \<lparr>se_UserID = ref_uuid 0, se_Email = ''a@b.c'', se_CreatedAt = 0\<rparr>"
    by (rule code_issued)
  have cl: "client_at ref_ext w1 ''c1'' = Some (sample_client\<lparr>cl_CreatedAt := 0\<rparr>)"
    using service_client client_at_cong [OF t] by simp
  obtain c s' where c: "client_at ref_ext w1 (aq_ClientID sample_request) = Some c"
    "session_of ref_ext w1 sid = Some s'"
    and code: "\<And>t. code_at ref_ext (w2\<lparr>now := t\<rparr>) (az_Code res) = (if t < now w1 + authCodeTTL
        then Some (valid_code (code_for sample_request c s'\<lparr>ac_CreatedAt := now w1\<rparr>)) else None)"
    and w2: "tables_of ref_ext w2 = tables_of ref_ext w1" "now w2 = now w1"
    by (rule authorized_code [OF ref_ok(1,2,4) a i]) blast
  have c': "c = sample_client\<lparr>cl_CreatedAt := 0\<rparr>"
    "s' = \<lparr>se_UserID = ref_uuid 0, se_Email = ''a@b.c'', se_CreatedAt = 0\<rparr>"
    using c cl s by (simp_all add: sample_request_def)
  have v: "to_valid (ref_uuid 0) = ref_uuid 0"
    "to_valid (base64_raw_url b) = base64_raw_url b" for b
    using ref_uuid_fits [of 0] by (auto simp: fits_def to_valid_id to_valid_ascii)
  have "valid_code (code_for sample_request c s'\<lparr>ac_CreatedAt := 0\<rparr>) =
      sample_code"
    by (simp add: c' sample_code_def valid_code_def code_for_def sample_request_def sample_client_def v ascii_ids
        fields_read)
  moreover have "client_authenticates ref_ext w2 (sample_exchange (az_Code res)) (sample_client\<lparr>cl_CreatedAt := 0\<rparr>)"
    using cl client_at_cong [OF w2(1)] by (simp add: client_authenticates_def) (simp add: sample_client_def)
  ultimately show thesis
    using code w2 n t by (intro that [of w2 "az_Code res"]) (simp_all add: authCodeTTL_def)
qed

lemma sample_exchanged:
  obtains k w resp w' where "run (Exchange ref_ext (sample_exchange k)) w = (Inr resp, w')"
proof -
  obtain w k where n: "now w = 0" and t: "tables_of ref_ext w = tables_of ref_ext service_world"
    and c: "client_authenticates ref_ext w (sample_exchange k) (sample_client\<lparr>cl_CreatedAt := 0\<rparr>)"
    and code: "\<And>t. code_at ref_ext (w\<lparr>now := t\<rparr>) k = (if t < 60 * second then Some
      sample_code else None)"
    by (rule code_ready) blast
  obtain r w' where r: "run (authorizationCodeGrant ref_ext (sample_exchange k)) w = (r, w')" by fastforce
  have w0: "w\<lparr>now := 0\<rparr> = w" unfolding n [symmetric] by simp
  have at: "code_at ref_ext w (tq_Code (sample_exchange k)) = Some sample_code"
    using code [of 0] by (simp add: w0 second_def)
  have u: "user_by_id ref_ext w (ac_UserID sample_code) = Some sample_user"
    by (simp add: user_by_id_def t sample_user_def sample_code_def)
  have "\<exists>resp. r = Inr resp"
    by (rule code_grant_up(6) [OF ref_ok(1-3) r c at _ u sample_jwt])
      (simp_all add: code_matches_def sample_code_def n ref_uuid_fits t ref_tables_def sample_user_def sample_client_def
        fits_ascii)
  with r that show thesis by (auto simp: Exchange_def)
qed

theorem exchange_only_when_entitled_witness:
  "\<exists>k w resp w'. run (Exchange ref_ext (sample_exchange k)) w = (Inr resp, w')
    \<and> store ref_ext w' = (store ref_ext w)(authCodeKeyPrefix @ k := None)"
proof -
  obtain k w resp w' where r: "run (Exchange ref_ext (sample_exchange k)) w = (Inr resp, w')"
    by (rule sample_exchanged)
  with exchange_only_when_entitled [OF ref_ok(1-3) r] show ?thesis by auto
qed

end
