(* ===== verification/TokenProperties.thy ===== *)
theory TokenProperties
  imports ServiceProperties
begin

text \<open>
  What the token endpoint's services promise beyond a single success: the answer as a function
  of the state, what a refusal costs, sequences of exchanges, and the tokens themselves.
\<close>

section \<open>The answer, decided by the state\<close>

text \<open>
  The rules of the endpoint, read off the client, the code and the user that the state holds.
\<close>

definition exchange_rule ::
  "('r, 'd) ext \<Rightarrow> ('r, 'd) world \<Rightarrow> token_request \<Rightarrow> goerr + token_response" where
  "exchange_rule X w req =
    (if tq_GrantType req = ''refresh_token''
     then Inl (ErrNew ''refreshTokenGrant: not implemented'')
     else if tq_GrantType req \<noteq> ''authorization_code'' then Inl ErrUnsupportedGrantType
     else case client_at X w (tq_ClientID req) of
       None \<Rightarrow> Inl ErrInvalidClient
     | Some c \<Rightarrow>
        if \<not> client_authenticates X w req c then Inl ErrInvalidClient
        else (case code_at X w (tq_Code req) of
          None \<Rightarrow> Inl ErrInvalidGrant
        | Some a \<Rightarrow>
           if \<not> code_matches req a then Inl ErrInvalidGrant
           else (case user_by_id X w (ac_UserID a) of
             None \<Rightarrow> Inl (wrap ''TokenGrantService.authorizationCodeGrant''
               (wrap ''UserRepository.GetByID'' SqlNoRows))
           | Some u \<Rightarrow> (case jwt_sign X (grant_claims X w u c a) of
               None \<Rightarrow> Inl (wrap ''TokenGrantService.authorizationCodeGrant'' (ErrNew ''signing''))
             | Some tok \<Rightarrow> Inr (grant_answer X w a tok)))))"

lemma client_row_known:
  assumes "inv X w" "client_at X w i = None"
  shows "client_rows X w i = None"
proof (rule ccontr)
  assume "client_rows X w i \<noteq> None"
  then obtain row where row: "client_rows X w i = Some row" by blast
  then have "client_row_ok row"
    using assms(1) find_SomeD [OF row] by (auto simp: inv_def tables_wf_def)
  with row assms(2) show False by (auto simp: client_at_def client_row_ok_def)
qed

lemma cached_code_known:
  assumes "inv X w" "code_at X w k = None"
  shows "cached X w (authCodeKeyPrefix @ k) = None"
proof (rule ccontr)
  assume "cached X w (authCodeKeyPrefix @ k) \<noteq> None"
  then obtain v e where v: "cached X w (authCodeKeyPrefix @ k) = Some v"
      "store X w (authCodeKeyPrefix @ k) = Some (v, e)"
    by (auto simp: cached_def live_def split: option.splits if_splits)
  then have "entry_ok X (tables_of X w) (authCodeKeyPrefix @ k) v"
    using assms(1) unfolding inv_def store_ok_def by blast
  then have "unmarshal_auth_code (time_parse X) v \<noteq> None"
    by (auto simp: entry_ok_def)
  with v(1) assms(2) show False by (simp add: code_at_def)
qed

lemma exchange_Inr_answer:
  assumes "mysql_ok X" "redis_ok X" "columns_ok X"
    and "run (Exchange X req) w = (Inr resp, w')"
  shows "exchange_rule X w req = Inr resp"
proof -
  have g: "tq_GrantType req = GrantAuthorizationCode"
    using assms(4) by (auto simp: Exchange_def refreshTokenGrant_def split: if_splits)
  then have "run (authorizationCodeGrant X req) w = (Inr resp, w')"
    using assms(4) by (simp add: Exchange_def)
  then obtain c a u where "exchanged X w req c a u resp w'"
    using code_grant_Inr [OF assms(2,1,3)] by blast
  then show ?thesis
    using g by (auto simp: exchanged_def exchange_rule_def GrantAuthorizationCode_def
        client_authenticates_def)
qed

lemma exchange_rule_Inr:
  assumes "exchange_rule X w req = Inr resp"
  obtains c a u where "client_authenticates X w req c" "code_at X w (tq_Code req) = Some a"
    "code_matches req a" "user_by_id X w (ac_UserID a) = Some u"
    "jwt_sign X (grant_claims X w u c a) \<noteq> None"
  using assms by (auto simp: exchange_rule_def split: if_splits option.splits)

lemma exchange_rule_Inl:
  assumes "exchange_rule X w req = Inl e" "tq_GrantType req = GrantAuthorizationCode"
  obtains "client_at X w (tq_ClientID req) = None"
  | c where "client_at X w (tq_ClientID req) = Some c" "\<not> client_authenticates X w req c"
  | c where "client_authenticates X w req c" "code_at X w (tq_Code req) = None"
  | c a where "client_authenticates X w req c" "code_at X w (tq_Code req) = Some a"
      "\<not> code_matches req a"
  | c a where "client_authenticates X w req c" "code_at X w (tq_Code req) = Some a"
      "code_matches req a" "user_by_id X w (ac_UserID a) = None"
  | c a u where "client_authenticates X w req c" "code_at X w (tq_Code req) = Some a"
      "code_matches req a" "user_by_id X w (ac_UserID a) = Some u"
      "jwt_sign X (grant_claims X w u c a) = None"
  using assms by (auto simp: exchange_rule_def GrantAuthorizationCode_def
      split: option.splits if_splits)

lemma inv_ids:
  assumes "inv X w" "library_ok X"
  shows "client_at X w i = Some c \<Longrightarrow> uuid_text (cl_ID c)"
    and "u \<in> set (t_users (tables_of X w)) \<Longrightarrow> uuid_text (us_ID u)"
    and "uuid_text (new_uuid X n)"
  using assms client_at_ok [OF assms(1)]
  by (auto simp: inv_def tables_wf_def client_ok_def library_ok_def)

text \<open>The identifier drawn for the row of the refresh token is not in use.\<close>

definition token_id_unused :: "('r, 'd) ext \<Rightarrow> ('r, 'd) world \<Rightarrow> bool" where
  "token_id_unused X w \<longleftrightarrow>
     \<not> (\<exists>v \<in> set (t_tokens (tables_of X w)). sql_eq X (tw_id v) (new_uuid X (draws w + 2)))"

lemma exchange_answer:
  assumes "redis_spec True X" "mysql_spec True X" "columns_ok X" "library_ok X"
    and "inv X w" "token_id_unused X w"
  shows "result_of (Exchange X req) w = exchange_rule X w req"
proof (cases "tq_GrantType req = GrantAuthorizationCode")
  case False
  then show ?thesis
    by (simp add: Exchange_def refreshTokenGrant_def exchange_rule_def GrantAuthorizationCode_def
        GrantRefreshToken_def)
next
  case True
  note ok = spec_up_ok(1) [OF assms(1)] spec_up_ok(2) [OF assms(2)]
  obtain r w' where r: "run (Exchange X req) w = (r, w')" by fastforce
  then have g: "run (authorizationCodeGrant X req) w = (r, w')" using True by (simp add: Exchange_def)
  note U = code_grant_up [OF assms(1-3) g]
  note rule = exchange_rule_def GrantAuthorizationCode_def client_authenticates_def
  have "r = exchange_rule X w req"
  proof (cases "exchange_rule X w req")
    case (Inr resp)
    then obtain c a u where c: "client_authenticates X w req c" "code_at X w (tq_Code req) = Some a"
        "code_matches req a" and u: "user_by_id X w (ac_UserID a) = Some u"
      and j: "jwt_sign X (grant_claims X w u c a) \<noteq> None"
      by (rule exchange_rule_Inr)
    have uin: "u \<in> set (t_users (tables_of X w))"
      using u by (auto simp: user_by_id_def dest: find_SomeD)
    then have ids: "fits 36 (us_ID u)" "fits 36 (cl_ID c)" "fits 36 (new_uuid X n)" for n
      using inv_ids [OF assms(5,4)] c(1) by (auto simp: client_authenticates_def intro: uuid_fits)
    have "\<exists>resp. r = Inr resp"
      using uin sql_eqD(1) [OF assms(3)]
      by (intro U(6) [OF c u j ids(3,1,2) assms(6) [unfolded token_id_unused_def]]) blast
    then show ?thesis using r exchange_Inr_answer [OF ok(2,1) assms(3)] by auto
  next
    case (Inl e)
    from Inl True show ?thesis
    proof (cases rule: exchange_rule_Inl)
      case 1 with U(1) client_row_known [OF assms(5)] True show ?thesis by (simp add: rule)
    next
      case 2 with U(2) True show ?thesis by (simp add: rule)
    next
      case 3 with U(3) cached_code_known [OF assms(5)] True show ?thesis
        by (simp add: rule code_key_def)
    next
      case 4 with U(4) True show ?thesis by (simp add: rule)
    next
      case 5 with U(5) True show ?thesis by (simp add: rule)
    next
      case 6 with U(7) True show ?thesis by (simp add: rule)
    qed
  qed
  then show ?thesis using r by simp
qed

text \<open>C2: With both servers up, the answer of \<open>Exchange\<close> in any state the service can reach is the
  one its rules give for that state: the first condition that fails decides the error, and when
  none fails both tokens are issued.  The only thing assumed of the state is that the identifier
  drawn for the refresh token row is not in use.\<close>

theorem exchange_refines_rules:
  assumes "redis_spec True X" "mysql_spec True X" "columns_ok X" "library_ok X"
    and "reachable X w" "token_id_unused X w"
  shows "result_of (Exchange X req) w = exchange_rule X w req"
proof -
  have "inv X w"
    using reachable_inv [OF assms(5)] assms(3,4) spec_up_ok(1) [OF assms(1)]
      spec_up_ok(2) [OF assms(2)] by (simp add: env_ok_def)
  with assms show ?thesis by (intro exchange_answer)
qed

section \<open>A registered service, from registration to the code\<close>

text \<open>Logging in, asking for a code and redeeming it, each some time after the one before.\<close>

lemma reach:
  "reachable X w \<Longrightarrow> run (Login X lreq) w = (r, w') \<Longrightarrow> reachable X w'"
  "reachable X w \<Longrightarrow> run (Authorize X areq i) w = (ra, w') \<Longrightarrow> reachable X w'"
  "reachable X w \<Longrightarrow> run (Register X inp) w = (ru, w') \<Longrightarrow> reachable X w'"
  "reachable X w \<Longrightarrow> run (RegisterClient X rreq) w = (rc, w') \<Longrightarrow> reachable X w'"
  "reachable X w \<Longrightarrow> now w \<le> t \<Longrightarrow> reachable X (w\<lparr>now := t\<rparr>)"
proof -
  show "reachable X w \<Longrightarrow> now w \<le> t \<Longrightarrow> reachable X (w\<lparr>now := t\<rparr>)"
    using serve [OF _ step.tick [of "t - now w" X w]] by simp
qed (blast intro: serve step.intros)+

lemma found_unique:
  assumes "sorted_wrt (\<lambda>a b. \<not> sql_eq X (f a) (f b)) xs" "columns_ok X" "a \<in> set xs"
  shows "List.find (\<lambda>b. sql_eq X (f b) (f a)) xs = Some a"
proof -
  note Q = sql_eqD [OF assms(2)]
  obtain b where b: "List.find (\<lambda>b. sql_eq X (f b) (f a)) xs = Some b"
    using Q(1) assms(3) by (cases "List.find (\<lambda>b. sql_eq X (f b) (f a)) xs") (auto simp: find_None_conv)
  then have "b \<in> set xs" "sql_eq X (f b) (f a)" by (auto dest: find_SomeD)
  then have "b = a"
    using sorted_wrt_unique [of "\<lambda>a b. sql_eq X (f a) (f b)", OF assms(1)] assms(3) Q(2) by blast
  with b show ?thesis by simp
qed

lemma found_by_own_id:
  assumes "inv X w" "columns_ok X"
  shows "u \<in> set (t_users (tables_of X w)) \<Longrightarrow> user_by_id X w (us_ID u) = Some u"
    and "client_at X w i = Some c \<Longrightarrow> client_at X w (cl_ID c) = Some c"
proof -
  have wf: "sorted_wrt (\<lambda>u v. \<not> sql_eq X (us_ID u) (us_ID v)) (t_users (tables_of X w))"
    "sorted_wrt (\<lambda>a b. \<not> sql_eq X (cr_id a) (cr_id b)) (t_clients (tables_of X w))"
    using assms(1) by (auto simp: inv_def tables_wf_def intro: sorted_wrt_mono_rel [rotated])
  show "u \<in> set (t_users (tables_of X w)) \<Longrightarrow> user_by_id X w (us_ID u) = Some u"
    using found_unique [OF wf(1) assms(2)] by (simp add: user_by_id_def)
  assume "client_at X w i = Some c"
  then obtain row where row: "row \<in> set (t_clients (tables_of X w))" "scan_client row = Inr c"
    by (auto simp: client_at_def dest: find_SomeD split: option.splits sum.splits)
  from found_unique [OF wf(2) assms(2) row(1)] row(2) show "client_at X w (cl_ID c) = Some c"
    by (simp add: client_at_def scan_client_ID)
qed

lemma issued_by_login:
  assumes "redis_ok X" "mysql_ok X" "library_ok X" "columns_ok X" "inv X w0"
    and "run (Login X lreq) w0 = (Inr lr, w1)" "inv X w1"
    and "run (Authorize X areq (lr_SessionID lr)) (w1\<lparr>now := t1\<rparr>) = (Inr res, w2)"
    and "az_Action res = ActionIssueCode" and "client_at X w2 (aq_ClientID areq) = Some c"
    and "t2 < t1 + 60 * second"
  obtains u where "authenticates X w0 lreq u" "user_by_id X w2 (us_ID u) = Some u"
    "code_at X (w2\<lparr>now := t2\<rparr>) (az_Code res) = Some
      \<lparr>ac_ClientID = cl_ID c, ac_UserID = us_ID u, ac_RedirectURI = aq_RedirectURI areq,
       ac_Scope = Some (Fields (aq_Scope areq)), ac_CodeChallenge = to_valid (aq_CodeChallenge areq),
       ac_CodeChallengeMethod = to_valid (aq_CodeChallengeMethod areq),
       ac_Nonce = to_valid (aq_Nonce areq), ac_CreatedAt = t1\<rparr>"
    "tables_of X w2 = tables_of X w0"
proof -
  obtain u where u: "authenticates X w0 lreq u"
    and s0: "session_at X w1 (lr_SessionID lr)
      = Some \<lparr>se_UserID = to_valid (us_ID u), se_Email = to_valid (us_Email u), se_CreatedAt = now w0\<rparr>"
    and t01: "tables_of X w1 = tables_of X w0" "now w1 = now w0"
    by (rule login_stored [OF assms(1-3,6)]) blast
  obtain c' s where c: "client_at X (w1\<lparr>now := t1\<rparr>) (aq_ClientID areq) = Some c'"
    and s: "session_of X (w1\<lparr>now := t1\<rparr>) (lr_SessionID lr) = Some s"
    and reg: "aq_RedirectURI areq \<in> set (elems (cl_RedirectURIs c'))" "scope_granted c' (aq_Scope areq)"
    and code: "\<And>t. code_at X (w2\<lparr>now := t\<rparr>) (az_Code res)
        = (if t < now (w1\<lparr>now := t1\<rparr>) + authCodeTTL
           then Some (valid_code (code_for areq c' s\<lparr>ac_CreatedAt := now (w1\<lparr>now := t1\<rparr>)\<rparr>)) else None)"
    and t12: "tables_of X w2 = tables_of X (w1\<lparr>now := t1\<rparr>)"
    by (rule authorized_code [OF assms(1-3,8,9)]) blast
  have t2: "tables_of X w2 = tables_of X w1" using t12 by (simp add: tables_of_def)
  have t02: "tables_of X w2 = tables_of X w0" using t2 t01 by simp
  have c1: "client_at X w1 (aq_ClientID areq) = Some c" "c' = c"
    using c assms(10) client_at_cong [of X "w1\<lparr>now := t1\<rparr>" w1] client_at_cong [OF t2]
    by (auto simp: tables_of_def)
  have uin: "u \<in> set (t_users (tables_of X w0))"
    using u by (auto simp: authenticates_def user_by_email_def dest: find_SomeD)
  have ids: "to_valid (us_ID u) = us_ID u" "to_valid (cl_ID c) = cl_ID c"
    using inv_ids(2) [OF assms(5,3) uin] inv_ids(1) [OF assms(7,3) c1(1)]
    by (simp_all add: uuid_plain to_valid_ascii)
  have ok: "client_ok c" by (rule client_at_ok [OF assms(7) c1(1)])
  have v: "to_valid (aq_RedirectURI areq) = aq_RedirectURI areq"
    "map to_valid (Fields (aq_Scope areq)) = Fields (aq_Scope areq)"
    using ok reg [unfolded c1(2)] valid_strings [of "elems (cl_Scopes c)" "Fields (aq_Scope areq)"]
    by (auto simp: client_ok_def scope_granted_def intro: to_valid_id)
  have "se_UserID s = us_ID u"
  proof -
    have "cached X (w1\<lparr>now := t1\<rparr>) k = None \<or> cached X (w1\<lparr>now := t1\<rparr>) k = cached X w1 k
        \<or> cached X w1 k = None" for k
      by (auto simp: cached_def store_def live_def split: option.splits)
    from this [of "sessionKeyPrefix @ lr_SessionID lr"] s s0 show ?thesis
      by (auto simp: session_of_def session_at_def ids split: if_splits)
  qed
  moreover have "user_by_id X w2 (us_ID u) = Some u"
    using found_by_own_id(1) [OF assms(5,4) uin] t02 by (simp add: user_by_id_def)
  ultimately show thesis
    using code [of t2] assms(11) u t02
    by (intro that [of u])
      (simp_all add: c1(2) valid_code_def code_for_def ids v authCodeTTL_def)
qed

text \<open>The flow as a whole, in any state the service can reach and with both servers up: a user
  who logs in and whom \<open>Authorize\<close> then gives a code, at any time while the session lives, gets
  tokens when the client redeems that code within sixty seconds with the verifier of the
  challenge, its secret if it has one, and the redirect URI it asked for; the tokens name the user
  that logged in, that client and the scope that was asked for.  Only signing can still fail.\<close>

theorem login_authorize_exchange:
  assumes "redis_spec True X" "mysql_spec True X" "columns_ok X" "library_ok X"
    and "reachable X w0" and "run (Login X lreq) w0 = (Inr lr, w1)" and "now w0 \<le> t1"
    and "run (Authorize X areq (lr_SessionID lr)) (w1\<lparr>now := t1\<rparr>) = (Inr res, w2)"
    and "az_Action res = ActionIssueCode" and "t1 \<le> t2" "t2 < t1 + 60 * second"
    and "client_at X w2 (aq_ClientID areq) = Some c"
    and "cl_ClientSecretHash c = [] \<or> bcrypt_matches X (cl_ClientSecretHash c) secret"
    and "aq_CodeChallengeMethod areq = ''S256''"
    and "aq_CodeChallenge areq = base64_raw_url (sha256 verifier)"
    and "token_id_unused X w2"
  shows "\<exists>u. authenticates X w0 lreq u \<and>
    result_of (Exchange X \<lparr>tq_GrantType = ''authorization_code'', tq_Code = az_Code res,
        tq_RedirectURI = aq_RedirectURI areq, tq_CodeVerifier = verifier, tq_RefreshToken = [],
        tq_Scope = [], tq_ClientID = cl_ID c, tq_ClientSecret = secret\<rparr>) (w2\<lparr>now := t2\<rparr>) =
    (case jwt_sign X \<lparr>ic_UserID = us_ID u, ic_Email = us_Email u, ic_ClientID = cl_ID c,
        ic_Scope = join (Fields (aq_Scope areq)) '' '', ic_ID = new_uuid X (draws w2),
        ic_IssuedAt = t2, ic_ExpiresAt = t2 + 15 * 60 * second\<rparr> of
       None \<Rightarrow> Inl (wrap ''TokenGrantService.authorizationCodeGrant'' (ErrNew ''signing''))
     | Some tok \<Rightarrow> Inr \<lparr>tr_AccessToken = tok, tr_TokenType = ''Bearer'', tr_ExpiresIn = 900,
         tr_Scope = join (Fields (aq_Scope areq)) '' '',
         tr_RefreshToken = new_uuid X (draws w2 + 1)\<rparr>)"
proof -
  note ok = spec_up_ok(1) [OF assms(1)] spec_up_ok(2) [OF assms(2)]
  have env: "env_ok X" using ok assms(3,4) by (simp add: env_ok_def)
  have now1: "now w1 = now w0" using keeps_field_runD [OF Auth_frame(3) assms(6)] .
  have r1: "reachable X w1" by (rule reach(1) [OF assms(5,6)])
  have r2: "reachable X w2"
    by (rule reach(2) [OF reach(5) [OF r1] assms(8)]) (use assms(7) now1 in simp)
  have now2: "now w2 = t1" using keeps_field_runD [OF Auth_frame(12) assms(8)] by simp
  let ?w3 = "w2\<lparr>now := t2\<rparr>"
  have r3: "reachable X ?w3" by (rule reach(5) [OF r2]) (simp add: now2 assms(10))
  note inv = reachable_inv [OF assms(5) env] reachable_inv [OF r1 env] reachable_inv [OF r2 env]
    reachable_inv [OF r3 env]
  obtain u where u: "authenticates X w0 lreq u" "user_by_id X w2 (us_ID u) = Some u"
    and code: "code_at X ?w3 (az_Code res) = Some
      \<lparr>ac_ClientID = cl_ID c, ac_UserID = us_ID u, ac_RedirectURI = aq_RedirectURI areq,
       ac_Scope = Some (Fields (aq_Scope areq)), ac_CodeChallenge = to_valid (aq_CodeChallenge areq),
       ac_CodeChallengeMethod = to_valid (aq_CodeChallengeMethod areq),
       ac_Nonce = to_valid (aq_Nonce areq), ac_CreatedAt = t1\<rparr>"
    by (rule issued_by_login [OF ok assms(4,3) inv(1) assms(6) inv(2) assms(8,9,12,11)])
  have w3: "tables_of X ?w3 = tables_of X w2" "draws ?w3 = draws w2" "now ?w3 = t2"
    by (simp_all add: tables_of_def)
  have c: "client_at X ?w3 (cl_ID c) = Some c"
    using found_by_own_id(2) [OF inv(3) assms(3,12)] client_at_cong [OF w3(1)] by simp
  have u3: "user_by_id X ?w3 (us_ID u) = Some u" using u(2) w3(1) by (simp add: user_by_id_def)
  have v: "to_valid (base64_raw_url b) = base64_raw_url b" "to_valid ''S256'' = ''S256''" for b
    by (simp_all add: to_valid_ascii)
  have "token_id_unused X ?w3" using assms(16) w3 by (simp add: token_id_unused_def)
  from exchange_answer [OF assms(1-4) inv(4) this] show ?thesis
    using u(1) c code u3 assms(13-15)
    by (intro exI [of _ u]) (simp add: exchange_rule_def client_authenticates_def code_matches_def v
        grant_claims_def grant_answer_def split: option.split)
qed

lemma User_Create_up:
  assumes "mysql_spec True X" and "run (User_Create X u) w = (r, w')"
    and "fits 36 (us_ID u)" "fits 255 (us_Email u)" "fits 255 (us_PasswordHash u)"
    and "\<forall>v \<in> set (t_users (tables_of X w)). \<not> sql_eq X (us_ID v) (us_ID u)
      \<and> \<not> sql_eq X (us_Email v) (us_Email u)"
  shows "r = Inr ()"
  using exec_tables(3) [OF assms(1) assms(2) [unfolded User_Create_def] TrueI] assms(3-6) by auto

text \<open>The sample service, built by its own requests.\<close>

lemma ref_registered:
  obtains c w where "reachable ref_ext w" "now w = 0" "client_at ref_ext w (cl_ID c) = Some c"
    "cl_ClientSecretHash c = []" "cl_RedirectURIs c = Some [''https://a/cb'']"
    "cl_Scopes c = Some [''read'']" "t_tokens (tables_of ref_ext w) = []"
    "\<exists>u. authenticates ref_ext w sample_login u"
proof -
  have r0: "reachable ref_ext ref_world"
    by (rule start) (simp add: initial_def store_def tables_of_def ref_tables_def)
  obtain resp w1 where rc: "run (RegisterClient ref_ext public_request) ref_world = (Inr resp, w1)"
    using ref_register_client by blast
  obtain h row c where t: "tables_of ref_ext w1
        = (tables_of ref_ext ref_world)\<lparr>t_clients := t_clients (tables_of ref_ext ref_world) @ [row]\<rparr>"
    and row: "scan_client row = Inr c" "cr_id row = cl_ID c"
    and c: "c = \<lparr>cl_ID = char_value (rp_ClientID resp), cl_Name = rq_Name public_request,
          cl_ClientSecretHash = h, cl_RedirectURIs = valid_slice (rq_RedirectURIs public_request),
          cl_Scopes = valid_slice (rq_Scopes public_request),
          cl_GrantTypes = valid_slice (rq_GrantTypes public_request),
          cl_IsFirstParty = rq_IsFirstParty public_request,
          cl_CreatedAt = sql_datetime ref_ext (sql_now ref_ext (now ref_world))\<rparr>"
    and sec: "if rq_IsPublic public_request then rp_ClientSecret resp = [] \<and> h = []
         else h \<noteq> [] \<and> bcrypt_matches ref_ext h (rp_ClientSecret resp)
           \<and> (\<exists>b. length b = 32 \<and> rp_ClientSecret resp = base64_raw_url b)"
    by (rule RegisterClient_Inr [OF ref_ok(5,4) rc])
  have r1: "reachable ref_ext w1" by (rule reach(4) [OF r0 rc])
  have now1: "now w1 = 0" using keeps_field_runD [OF RegisterClient_frame(1) rc] by simp
  have t1: "tables_of ref_ext w1 = \<lparr>t_users = [], t_clients = [row], t_tokens = []\<rparr>"
    using t by (simp add: tables_of_def ref_tables_def)
  let ?in = "\<lparr>ri_Email = ''a@b.c'', ri_Password = ''secret''\<rparr>"
  obtain ru w2 where ru: "run (Register ref_ext ?in) w1 = (ru, w2)" by fastforce
  obtain f w1' where f: "run (User_GetByEmail ref_ext ''a@b.c'') w1 = (f, w1')" by fastforce
  have "f = Inr None" using User_GetByEmail_cases(3) [OF ref_ok(2) f TrueI] t1 by simp
  moreover note w1' = same_world_reads(7) [OF sql_reads(2) [OF ref_ok(2) f]]
  let ?u = "\<lparr>us_ID = ref_uuid (Suc (draws w1')), us_Email = ''a@b.c'',
    us_PasswordHash = ref_hash ''secret'', us_CreatedAt = zero_time\<rparr>"
  obtain rs w3 where c3: "run (User_Create ref_ext ?u) (w1'\<lparr>draws := Suc (Suc (draws w1'))\<rparr>) = (rs, w3)"
    by fastforce
  have "ascii (ref_hash p) \<and> length (ref_hash p) = 60" for p
    using ref_library by (simp add: library_ok_def)
  then have "rs = Inr ()"
    using User_Create_up [OF ref_ok(2) c3] w1' t1 ref_uuid_fits
    by (simp add: tables_of_def fits_ascii)
  ultimately have "\<exists>u. ru = Inr u"
    using ru f c3 by (auto simp: Register_def Let_def)
  then obtain u where u: "run (Register ref_ext ?in) w1 = (Inr u, w2)" using ru by blast
  note R = Register_Inr [OF ref_ok(2,4) u]
  have r2: "reachable ref_ext w2" by (rule reach(3) [OF r1 u])
  have now2: "now w2 = 0" using keeps_field_runD [OF Auth_frame(1) u] now1 by simp
  have cl: "client_at ref_ext w2 (cl_ID c) = Some c"
    using row by (simp add: client_at_def R(4) t1)
  have au: "authenticates ref_ext w2 sample_login (user_row ref_ext w1 u)"
    using R(1,2) by (simp add: authenticates_def user_by_email_def R(4) t1 sample_login_def user_row_def)
  show thesis
    by (rule that [OF r2 now2 cl])
      (use sec au in \<open>simp_all add: c public_request_def R(4) t1 ascii_ids, blast\<close>)
qed

lemma ref_session:
  assumes "now w = 0" and "authenticates ref_ext w sample_login u"
  obtains lr w1 s where "run (Login ref_ext sample_login) w = (Inr lr, w1)" "now w1 = 0"
    "tables_of ref_ext w1 = tables_of ref_ext w" "session_of ref_ext w1 (lr_SessionID lr) = Some s"
proof -
  obtain r w1 where r: "run (Login ref_ext sample_login) w = (r, w1)" by fastforce
  have "time_text ref_ext (now w) \<noteq> None" using ref_time_text_0 assms(1) by simp
  then obtain lr where lr: "r = Inr lr"
    using Login_cases(4) [OF ref_ok(1,2) r TrueI assms(2)] by blast
  note r = r [unfolded lr]
  obtain v :: user where s: "session_at ref_ext w1 (lr_SessionID lr) = Some \<lparr>se_UserID = to_valid (us_ID v),
      se_Email = to_valid (us_Email v), se_CreatedAt = now w\<rparr>"
    and t: "tables_of ref_ext w1 = tables_of ref_ext w" "now w1 = now w"
    by (rule login_stored [OF ref_ok(1,2,4) r]) blast
  obtain u' :: user and w0 where "run (Session_Create ref_ext (us_ID u') (us_Email u')) w0
      = (Inr (lr_SessionID lr, lr_ExpiresAt lr), w1)"
    using Login_cases(1) [OF ref_ok(1,2) r refl] by blast
  from Session_Create_cases(1) [OF ref_ok(1) this refl] have "lr_SessionID lr \<noteq> []"
    by (auto simp: ref_uuid_def)
  with s have "session_of ref_ext w1 (lr_SessionID lr) = Some \<lparr>se_UserID = to_valid (us_ID v),
      se_Email = to_valid (us_Email v), se_CreatedAt = now w\<rparr>" by (simp add: session_of_def)
  with r t assms(1) show thesis by (intro that) simp_all
qed

lemma ref_flow:
  obtains lr w0 w1 res w2 c areq where "reachable ref_ext w0" "now w0 = 0"
    "run (Login ref_ext sample_login) w0 = (Inr lr, w1)"
    "run (Authorize ref_ext areq (lr_SessionID lr)) (w1\<lparr>now := 0\<rparr>) = (Inr res, w2)"
    "az_Action res = ActionIssueCode" "client_at ref_ext w2 (aq_ClientID areq) = Some c"
    "cl_ClientSecretHash c = []" "token_id_unused ref_ext w2"
    "areq = sample_request\<lparr>aq_ClientID := cl_ID c\<rparr>"
proof -
  obtain c w0 where w0: "reachable ref_ext w0" "now w0 = 0" "client_at ref_ext w0 (cl_ID c) = Some c"
    "cl_ClientSecretHash c = []" "cl_RedirectURIs c = Some [''https://a/cb'']"
    "cl_Scopes c = Some [''read'']" "t_tokens (tables_of ref_ext w0) = []"
    "\<exists>u. authenticates ref_ext w0 sample_login u"
    by (rule ref_registered)
  then obtain u where u: "authenticates ref_ext w0 sample_login u" by blast
  obtain lr w1 s where lr: "run (Login ref_ext sample_login) w0 = (Inr lr, w1)" "now w1 = 0"
    "tables_of ref_ext w1 = tables_of ref_ext w0" "session_of ref_ext w1 (lr_SessionID lr) = Some s"
    by (rule ref_session [OF w0(2) u])
  let ?req = "sample_request\<lparr>aq_ClientID := cl_ID c\<rparr>"
  have w1: "w1\<lparr>now := 0\<rparr> = w1" unfolding lr(2) [symmetric] by simp
  have c1: "client_at ref_ext w1 (cl_ID c) = Some c" using w0(3) client_at_cong [OF lr(3)] by simp
  obtain ra w2 where a: "run (Authorize ref_ext ?req (lr_SessionID lr)) w1 = (ra, w2)" by fastforce
  have "decide (client_at ref_ext w1 (aq_ClientID ?req)) (session_of ref_ext w1 (lr_SessionID lr)) ?req
      = Issue c s"
    using lr(4) w0(5,6) by (simp add: decide_def c1 sample_request_def scope_granted_def
        prompt_none_def fields_read)
  from Authorize_issues [OF ref_ok(1,2) a this] obtain res where "ra = Inr res"
    "az_Action res = ActionIssueCode"
    using ref_time_text_0 lr(2) by auto
  note a = a [unfolded this(1)] and act = this(2)
  have t2: "tables_of ref_ext w2 = tables_of ref_ext w1"
    by (rule Authorize_bounds(1) [OF ref_ok(1,2) a])
  have c2: "client_at ref_ext w2 (aq_ClientID ?req) = Some c"
    using c1 client_at_cong [OF t2] by simp
  have "token_id_unused ref_ext w2" by (simp add: token_id_unused_def t2 lr(3) w0(7))
  with w0 lr(1) a act c2 w1 that show thesis by simp
qed

theorem exchange_refines_rules_witness:
  "\<exists>w. reachable ref_ext w \<and> client_at ref_ext w ''c1'' = None
    \<and> result_of (Exchange ref_ext (sample_exchange [])) w = Inl ErrInvalidClient"
proof -
  have r: "reachable ref_ext ref_world"
    by (rule start) (simp add: initial_def store_def tables_of_def ref_tables_def)
  have t: "token_id_unused ref_ext ref_world" "client_at ref_ext ref_world ''c1'' = None"
    by (simp_all add: token_id_unused_def client_at_def tables_of_def ref_tables_def)
  have "result_of (Exchange ref_ext (sample_exchange [])) ref_world = Inl ErrInvalidClient"
    using exchange_refines_rules [OF ref_ok(1-4) r t(1), of "sample_exchange []"] t(2)
    by (simp add: exchange_rule_def GrantAuthorizationCode_def)
  with r t show ?thesis by blast
qed

theorem login_authorize_exchange_witness:
  "\<exists>req w resp. result_of (Exchange ref_ext req) w = Inr resp \<and> tr_Scope resp = ''read''"
proof -
  obtain lr w0 w1 res w2 c areq where f: "reachable ref_ext w0" "now w0 = 0"
    "run (Login ref_ext sample_login) w0 = (Inr lr, w1)"
    "run (Authorize ref_ext areq (lr_SessionID lr)) (w1\<lparr>now := 0\<rparr>) = (Inr res, w2)"
    "az_Action res = ActionIssueCode" "client_at ref_ext w2 (aq_ClientID areq) = Some c"
    "cl_ClientSecretHash c = []" "token_id_unused ref_ext w2"
    and areq: "areq = sample_request\<lparr>aq_ClientID := cl_ID c\<rparr>"
    by (rule ref_flow)
  have t: "now w0 \<le> 0" "(0::int) \<le> 0" "(0::int) < 0 + 60 * second" by (simp_all add: f(2) second_def)
  have s: "cl_ClientSecretHash c = [] \<or> bcrypt_matches ref_ext (cl_ClientSecretHash c) []"
    using f(7) by simp
  have p: "aq_CodeChallengeMethod areq = ''S256''"
    "aq_CodeChallenge areq = base64_raw_url (sha256 ''verifier'')"
    by (simp_all add: areq sample_request_def)
  have j: "jwt_sign ref_ext \<lparr>ic_UserID = u, ic_Email = m, ic_ClientID = i, ic_Scope = sc, ic_ID = d,
      ic_IssuedAt = 0, ic_ExpiresAt = 0 + 15 * 60 * second\<rparr> \<noteq> None" for u m i sc d
    by (simp add: ref_jwt_sign_def ref_time_text_def numeric_date_def second_def)
  have sc: "join (Fields (aq_Scope areq)) '' '' = ''read''"
    by (simp add: areq sample_request_def fields_read)
  from login_authorize_exchange [OF ref_ok(1-4) f(1,3) t(1) f(4,5) t(2,3) f(6) s p f(8),
      unfolded sc]
  obtain u :: user where u: "result_of (Exchange ref_ext
        \<lparr>tq_GrantType = ''authorization_code'', tq_Code = az_Code res,
         tq_RedirectURI = aq_RedirectURI areq, tq_CodeVerifier = ''verifier'', tq_RefreshToken = [],
         tq_Scope = [], tq_ClientID = cl_ID c, tq_ClientSecret = []\<rparr>) (w2\<lparr>now := 0\<rparr>)
    = (case jwt_sign ref_ext \<lparr>ic_UserID = us_ID u, ic_Email = us_Email u, ic_ClientID = cl_ID c,
        ic_Scope = ''read'', ic_ID = new_uuid ref_ext (draws w2), ic_IssuedAt = 0,
        ic_ExpiresAt = 0 + 15 * 60 * second\<rparr> of
       None \<Rightarrow> Inl (wrap ''TokenGrantService.authorizationCodeGrant'' (ErrNew ''signing''))
     | Some tok \<Rightarrow> Inr \<lparr>tr_AccessToken = tok, tr_TokenType = ''Bearer'', tr_ExpiresIn = 900,
         tr_Scope = ''read'', tr_RefreshToken = new_uuid ref_ext (draws w2 + 1)\<rparr>)" by blast
  obtain tok where "jwt_sign ref_ext \<lparr>ic_UserID = us_ID u, ic_Email = us_Email u, ic_ClientID = cl_ID c,
        ic_Scope = ''read'', ic_ID = new_uuid ref_ext (draws w2), ic_IssuedAt = 0,
        ic_ExpiresAt = 0 + 15 * 60 * second\<rparr> = Some tok" using j by blast
  note u [unfolded this option.case]
  then show ?thesis by (intro exI conjI) (assumption, simp)
qed

section \<open>What an exchange costs\<close>

lemma mint_frame: "keeps_field rds (mint_pair X u c a)"
  unfolding mint_pair_def Let_def by (intro keeps_field_intros keeps_field_case_prod frame)+

lemma code_grant_burns:
  assumes "redis_spec True X" "mysql_spec True X"
    and "run (authorizationCodeGrant X req) w = (r, w')"
  shows "client_authenticates X w req c \<Longrightarrow> store X w' = (store X w)(code_key req := None)"
    and "\<nexists>c. client_authenticates X w req c \<Longrightarrow> same_world X w w'"
proof -
  have del: "store X w2 = (store X w)(code_key req := None)"
    if "same_world X w w1" "run (AuthCode_Consume X (tq_Code req)) w1 = (con, w2)" for w1 con w2
    using AuthCode_Consume_cases(3) [OF assms(1) that(2)] same_world_reads(6) [OF that(1)]
    by (simp add: code_key_def)
  show "store X w' = (store X w)(code_key req := None)" if c: "client_authenticates X w req c"
    using assms
  proof (cases rule: code_grant_stages)
    case s: (owner c a e w1 w2)
    with del [OF s(2,3)] same_world_reads(6) [OF sql_reads(3) [OF assms(2) s(5)]] show ?thesis by simp
  next
    case s: (mint c a u w1 w2 w3)
    have "store X w' = store X w3"
      using keeps_field_runD [OF mint_frame s(6)] by (simp add: store_def)
    with del [OF s(2,3)] same_world_reads(6) [OF sql_reads(3) [OF assms(2) s(5)]] show ?thesis by simp
  qed (use c del in \<open>auto simp: client_authenticates_def\<close>)
  show "same_world X w w'" if "\<nexists>c. client_authenticates X w req c"
    using assms by (cases rule: code_grant_stages) (use that in auto)
qed

text \<open>C15: While the servers are up, a request of the code grant from a client that authenticates
  uses the code up, whatever the outcome, and touches no other code and no session; a request from
  one that does not authenticate, or for another grant, changes nothing, so it cannot use up
  somebody else's code.\<close>

theorem exchange_burns_code:
  assumes "redis_spec True X" "mysql_spec True X"
  shows "store X (state_after (Exchange X req) w) =
      (if tq_GrantType req = ''authorization_code'' \<and> (\<exists>c. client_authenticates X w req c)
       then (store X w)(authCodeKeyPrefix @ tq_Code req := None) else store X w)
    \<and> ((tq_GrantType req = ''authorization_code'' \<and> (\<exists>c. client_authenticates X w req c))
       \<or> tables_of X (state_after (Exchange X req) w) = tables_of X w)"
proof (cases "tq_GrantType req = ''authorization_code''")
  case False
  then show ?thesis
    by (simp add: Exchange_def refreshTokenGrant_def GrantAuthorizationCode_def)
next
  case True
  obtain r w' where r: "run (authorizationCodeGrant X req) w = (r, w')" by fastforce
  then show ?thesis
    using code_grant_burns [OF assms r] same_world_reads(6,7) [of X w w'] True
    by (auto simp: Exchange_def GrantAuthorizationCode_def code_key_def)
qed

theorem exchange_burns_code_witness:
  "store ref_ext (state_after (Exchange ref_ext (sample_exchange ''k'')) ref_world) = Map.empty"
proof -
  have "\<nexists>c. client_authenticates ref_ext ref_world (sample_exchange ''k'') c"
    by (simp add: client_authenticates_def client_at_def tables_of_def ref_tables_def)
  with exchange_burns_code [OF ref_ok(1,2), of "sample_exchange ''k''" ref_world] show ?thesis
    by (simp add: store_def)
qed

text \<open>Requests served one after another, each some time after the one before, with the code each
  presented and its outcome.\<close>

fun exchange_all :: "('r, 'd) ext \<Rightarrow> (gotime \<times> token_request) list \<Rightarrow> ('r, 'd) world
    \<Rightarrow> (gostring \<times> (goerr + token_response)) list" where
  "exchange_all X [] w = []"
| "exchange_all X ((d, req) # es) w = (case run (Exchange X req) (w\<lparr>now := now w + d\<rparr>) of
     (r, w') \<Rightarrow> (tq_Code req, r) # exchange_all X es w')"

lemma exchange_gone:
  assumes "redis_ok X" "mysql_ok X" "columns_ok X"
    and "store X w (authCodeKeyPrefix @ k) = None" and "run (Exchange X req) w = (r, w')"
  shows "store X w' (authCodeKeyPrefix @ k) = None" and "tq_Code req = k \<Longrightarrow> r \<noteq> Inr resp"
proof -
  show "store X w' (authCodeKeyPrefix @ k) = None"
    using code_grant_bounds(1) [OF assms(1-3), of req w r w'] assms(4,5)
    by (auto simp: Exchange_def refreshTokenGrant_def split: if_splits)
  assume k: "tq_Code req = k"
  have "code_at X w k = None"
    using assms(4) by (simp add: code_at_def cached_def live_def)
  then show "r \<noteq> Inr resp"
    using exchange_Inr_answer [OF assms(2,1,3), of req w resp w'] assms(5) k
    by (auto simp: exchange_rule_def split: if_splits option.splits)
qed

lemma exchange_all_gone:
  assumes "redis_ok X" "mysql_ok X" "columns_ok X"
  shows "store X w (authCodeKeyPrefix @ k) = None
    \<Longrightarrow> filter (\<lambda>(c, r). c = k \<and> (\<exists>resp. r = Inr resp)) (exchange_all X es w) = []"
proof (induction es arbitrary: w)
  case (Cons e es)
  obtain d req where e: "e = (d, req)" by fastforce
  obtain r w' where r: "run (Exchange X req) (w\<lparr>now := now w + d\<rparr>) = (r, w')" by fastforce
  have "store X (w\<lparr>now := now w + d\<rparr>) (authCodeKeyPrefix @ k) = None"
    using Cons.prems by (simp add: store_def)
  note gone = exchange_gone [OF assms this r]
  show ?case using Cons.IH [OF gone(1)] gone(2) by (auto simp: e r)
qed simp

text \<open>In any sequence of requests to the token endpoint, at any times, from any clients and
  however Redis and MySQL fail, each authorization code gives tokens at most once.\<close>

theorem code_gives_tokens_once:
  assumes "redis_ok X" "mysql_ok X" "columns_ok X"
  shows "length (filter (\<lambda>(c, r). c = k \<and> (\<exists>resp. r = Inr resp)) (exchange_all X es w)) \<le> 1"
proof (induction es arbitrary: w)
  case (Cons e es)
  obtain d req where e: "e = (d, req)" by fastforce
  let ?w = "w\<lparr>now := now w + d\<rparr>"
  obtain r w' where r: "run (Exchange X req) ?w = (r, w')" by fastforce
  show ?case
  proof (cases "tq_Code req = k \<and> (\<exists>resp. r = Inr resp)")
    case True
    then obtain resp where k: "tq_Code req = k" and i: "r = Inr resp" by blast
    have g: "tq_GrantType req = GrantAuthorizationCode"
      using r i by (auto simp: Exchange_def refreshTokenGrant_def split: if_splits)
    then have "run (authorizationCodeGrant X req) ?w = (Inr resp, w')"
      using r i by (simp add: Exchange_def)
    from code_grant_Inr [OF assms this] k
    have "store X w' (authCodeKeyPrefix @ k) = None" by (auto simp: exchanged_def code_key_def)
    from exchange_all_gone [OF assms this, of es] k i show ?thesis by (simp add: e r)
  next
    case False
    then show ?thesis using Cons.IH [of w'] by (auto simp: e r)
  qed
qed simp

theorem code_gives_tokens_once_witness:
  "length (filter (\<lambda>(c, r). c = ''k'' \<and> (\<exists>resp. r = Inr resp))
     (exchange_all ref_ext [(0, sample_exchange ''k''), (5, sample_exchange ''k'')] service_world)) \<le> 1"
  by (rule code_gives_tokens_once [OF ref_ok(1-3)])

end
