(* ===== verification/SystemProperties.thy ===== *)
theory SystemProperties
  imports TokenProperties
begin

text \<open>
  What holds of every state the service reaches, and of the tokens and keys it gives out.
\<close>

section \<open>Reachable states\<close>

lemma sorted_wrt_both:
  "sorted_wrt R xs \<Longrightarrow> a \<in> set xs \<Longrightarrow> b \<in> set xs \<Longrightarrow> a = b \<or> R a b \<or> R b a"
  by (induction xs) auto

lemma inv_unique:
  assumes "env_ok X" "inv X w"
  shows "(\<forall>u \<in> set (t_users (tables_of X w)). \<forall>v \<in> set (t_users (tables_of X w)).
      sql_eq X (us_Email u) (us_Email v) \<or> sql_eq X (us_ID u) (us_ID v) \<longrightarrow> u = v)
    \<and> (\<forall>c \<in> stored_clients X w. \<forall>d \<in> stored_clients X w. sql_eq X (cl_ID c) (cl_ID d) \<longrightarrow> c = d)"
proof (intro conjI ballI impI)
  have wf: "tables_wf X (tables_of X w)"
    using assms(2) by (simp add: inv_def)
  note Q = sql_eqD [OF env_okD(3) [OF assms(1)]]
  fix u v
  assume "u \<in> set (t_users (tables_of X w))" "v \<in> set (t_users (tables_of X w))"
    and "sql_eq X (us_Email u) (us_Email v) \<or> sql_eq X (us_ID u) (us_ID v)"
  then show "u = v"
    using sorted_wrt_both [of "\<lambda>u v. \<not> sql_eq X (us_Email u) (us_Email v) \<and> \<not> sql_eq X (us_ID u) (us_ID v)"]
      wf Q(2) unfolding tables_wf_def by blast
next
  have wf: "tables_wf X (tables_of X w)"
    using assms(2) by (simp add: inv_def)
  note Q = sql_eqD [OF env_okD(3) [OF assms(1)]]
  fix c d :: client
  assume c: "c \<in> stored_clients X w" and d: "d \<in> stored_clients X w" and e: "sql_eq X (cl_ID c) (cl_ID d)"
  obtain r s where r: "r \<in> set (t_clients (tables_of X w))" "scan_client r = Inr c"
    and s: "s \<in> set (t_clients (tables_of X w))" "scan_client s = Inr d"
    using c d by (auto simp: stored_clients_def)
  have "sql_eq X (cr_id r) (cr_id s)" using e r(2) s(2) by (simp add: scan_client_ID)
  then have "r = s"
    using sorted_wrt_both [of "\<lambda>a b. \<not> sql_eq X (cr_id a) (cr_id b)" _ r s] wf r(1) s(1) Q(2)
    unfolding tables_wf_def by blast
  with r(2) s(2) show "c = d" by simp
qed

text \<open>In every state that requests served one after another reach, whatever they are, however Redis
  and MySQL failed and whatever Redis evicted, no two users have equal emails or equal identifiers
  under the collation, and no two clients have equal identifiers.\<close>

theorem reachable_unique:
  assumes "env_ok X" "reachable X w"
  shows "(\<forall>u \<in> set (t_users (tables_of X w)). \<forall>v \<in> set (t_users (tables_of X w)).
      sql_eq X (us_Email u) (us_Email v) \<or> sql_eq X (us_ID u) (us_ID v) \<longrightarrow> u = v)
    \<and> (\<forall>c \<in> stored_clients X w. \<forall>d \<in> stored_clients X w. sql_eq X (cl_ID c) (cl_ID d) \<longrightarrow> c = d)"
  by (rule inv_unique [OF assms(1) reachable_inv [OF assms(2,1)]])

lemma ref_reachable: "reachable ref_ext ref_world"
  by (rule start) (simp add: initial_def store_def tables_of_def ref_tables_def)

theorem reachable_unique_witness:
  "\<exists>w u. reachable ref_ext w \<and> authenticates ref_ext w sample_login u
    \<and> (\<exists>!v. v \<in> set (t_users (tables_of ref_ext w)) \<and> us_Email v = us_Email u)"
proof -
  obtain c :: client and w where w: "reachable ref_ext w" "\<exists>u. authenticates ref_ext w sample_login u"
    by (rule ref_registered) blast
  then obtain u where u: "authenticates ref_ext w sample_login u" by blast
  then have "u \<in> set (t_users (tables_of ref_ext w))"
    by (auto simp: authenticates_def user_by_email_def dest: find_SomeD)
  with reachable_unique [OF ref_env w(1)] w(1) u show ?thesis
    by (intro exI [of _ w] exI [of _ u]) auto
qed

lemma inv_grants:
  assumes "inv X w"
  shows "(\<forall>c \<in> stored_clients X w. set (elems (cl_GrantTypes c)) \<subseteq> {''authorization_code'', ''refresh_token''}
      \<and> length (cl_ClientSecretHash c) \<in> {0, 60})
    \<and> (\<forall>t \<in> stored_tokens X w. lower_hex (rt_TokenHash t) \<and> length (rt_TokenHash t) = 64
        \<and> elems (rt_Scope t) \<noteq> []
        \<and> (\<exists>c \<in> stored_clients X w. cl_ID c = rt_ClientID t
            \<and> set (elems (rt_Scope t)) \<subseteq> set (elems (cl_Scopes c))))
    \<and> (\<forall>k a. code_at X w k = Some a \<longrightarrow> elems (ac_Scope a) \<noteq> []
        \<and> (\<exists>c \<in> stored_clients X w. cl_ID c = ac_ClientID a
            \<and> ac_RedirectURI a \<in> set (elems (cl_RedirectURIs c))
            \<and> set (elems (ac_Scope a)) \<subseteq> set (elems (cl_Scopes c))))"
proof -
  note inv = assms
  have cl: "clients_of (tables_of X w) = stored_clients X w"
    by (simp add: clients_of_def stored_clients_def)
  have "set (elems (cl_GrantTypes c)) \<subseteq> {''authorization_code'', ''refresh_token''}
      \<and> length (cl_ClientSecretHash c) \<in> {0, 60}" if "c \<in> stored_clients X w" for c
  proof -
    have "client_ok c"
      using that inv by (fastforce simp: stored_clients_def inv_def tables_wf_def client_row_ok_def)
    then show ?thesis by (auto simp: client_ok_def supported_grant_iff)
  qed
  moreover have "lower_hex (rt_TokenHash t) \<and> length (rt_TokenHash t) = 64 \<and> elems (rt_Scope t) \<noteq> []
      \<and> (\<exists>c \<in> stored_clients X w. cl_ID c = rt_ClientID t
          \<and> set (elems (rt_Scope t)) \<subseteq> set (elems (cl_Scopes c)))" if t: "t \<in> stored_tokens X w" for t
  proof -
    obtain row where row: "row \<in> set (t_tokens (tables_of X w))" "scan_token row = Inr t"
      using t by (auto simp: stored_tokens_def)
    then have "token_row_ok (tables_of X w) row"
      using inv by (simp add: inv_def tables_wf_def)
    then show ?thesis
      using row(2) scan_token_fields [OF row(2)] unfolding token_row_ok_def cl by force
  qed
  moreover have "elems (ac_Scope a) \<noteq> []
        \<and> (\<exists>c \<in> stored_clients X w. cl_ID c = ac_ClientID a
            \<and> ac_RedirectURI a \<in> set (elems (cl_RedirectURIs c))
            \<and> set (elems (ac_Scope a)) \<subseteq> set (elems (cl_Scopes c)))"
    if "code_at X w k = Some a" for k a
    using code_at_ok [OF inv that] unfolding code_ok_def cl by metis
  ultimately show ?thesis by blast
qed

text \<open>In every reachable state each grant stays within what its client registered: every stored
  client has only supported grant types and either no secret hash or one of bcrypt's length; every
  refresh token row has 64 hexadecimal digits in place of the token, and a scope that is not empty
  and lies within the scopes of a stored client with that identifier; every code that can be
  redeemed is bound to a stored client, to a redirect URI that it registered, and to such a scope.\<close>

theorem reachable_grants:
  assumes "env_ok X" "reachable X w"
  shows "(\<forall>c \<in> stored_clients X w. set (elems (cl_GrantTypes c)) \<subseteq> {''authorization_code'', ''refresh_token''}
      \<and> length (cl_ClientSecretHash c) \<in> {0, 60})
    \<and> (\<forall>t \<in> stored_tokens X w. lower_hex (rt_TokenHash t) \<and> length (rt_TokenHash t) = 64
        \<and> elems (rt_Scope t) \<noteq> []
        \<and> (\<exists>c \<in> stored_clients X w. cl_ID c = rt_ClientID t
            \<and> set (elems (rt_Scope t)) \<subseteq> set (elems (cl_Scopes c))))
    \<and> (\<forall>k a. code_at X w k = Some a \<longrightarrow> elems (ac_Scope a) \<noteq> []
        \<and> (\<exists>c \<in> stored_clients X w. cl_ID c = ac_ClientID a
            \<and> ac_RedirectURI a \<in> set (elems (cl_RedirectURIs c))
            \<and> set (elems (ac_Scope a)) \<subseteq> set (elems (cl_Scopes c))))"
  by (rule inv_grants [OF reachable_inv [OF assms(2,1)]])

lemma ref_code_stored:
  obtains w k a where "reachable ref_ext w" "code_at ref_ext w k = Some a"
proof -
  obtain lr w0 w1 res w2 c areq where f: "reachable ref_ext w0" "now w0 = 0"
    "run (Login ref_ext sample_login) w0 = (Inr lr, w1)"
    "run (Authorize ref_ext areq (lr_SessionID lr)) (w1\<lparr>now := 0\<rparr>) = (Inr res, w2)"
    "az_Action res = ActionIssueCode"
    by (rule ref_flow)
  have "now w1 = 0" using keeps_field_runD [OF Auth_frame(3) f(3)] f(2) by simp
  then have "w1\<lparr>now := 0\<rparr> = w1" by simp
  then have r: "reachable ref_ext w2" using reach(2) [OF reach(1) [OF f(1,3)]] f(4) by metis
  obtain a where "code_at ref_ext w2 (az_Code res) = Some a"
    by (rule authorized_code [OF ref_ok(1,2,4) f(4,5)]) blast
  with r show thesis by (rule that)
qed

theorem reachable_grants_witness:
  "\<exists>w k a. reachable ref_ext w \<and> code_at ref_ext w k = Some a
    \<and> (\<exists>c. c \<in> stored_clients ref_ext w \<and> cl_ID c = ac_ClientID a)"
proof -
  obtain w k a where w: "reachable ref_ext w" "code_at ref_ext w k = Some a"
    by (rule ref_code_stored)
  from reachable_grants [OF ref_env w(1)] w show ?thesis by blast
qed

text \<open>In a reachable state the scope an exchange grants, read back as space-separated words, is
  the one the code was issued for and lies within the scopes the presenting client registered; the
  code was issued to that very client, byte for byte, and the redirect URI is one it registered.\<close>

theorem exchange_stays_registered:
  assumes "env_ok X" "reachable X w" and "run (Exchange X req) w = (Inr resp, w')"
  shows "\<exists>c a. client_at X w (tq_ClientID req) = Some c \<and> code_at X w (tq_Code req) = Some a
    \<and> cl_ID c = tq_ClientID req \<and> cl_ID c = ac_ClientID a
    \<and> tq_RedirectURI req \<in> set (elems (cl_RedirectURIs c))
    \<and> Fields (tr_Scope resp) = elems (ac_Scope a)
    \<and> Fields (tr_Scope resp) \<noteq> [] \<and> set (Fields (tr_Scope resp)) \<subseteq> set (elems (cl_Scopes c))"
proof -
  note E = env_okD [OF assms(1)]
  have inv: "inv X w" by (rule reachable_inv [OF assms(2,1)])
  from exchange_Inr_answer [OF E(2,1,3) assms(3)]
  obtain c a u tok where c: "client_authenticates X w req c" "code_at X w (tq_Code req) = Some a"
    "code_matches req a" and resp: "resp = grant_answer X w a tok"
    by (auto simp: exchange_rule_def split: if_splits option.splits)
  note P = presented_client [OF assms(1) inv c]
  have "Fields (tr_Scope resp) = elems (ac_Scope a)"
    using fields_join [OF P(6)] by (simp add: resp grant_answer_def)
  with P c show ?thesis
    by (intro exI [of _ c] exI [of _ a]) (auto simp: client_authenticates_def code_matches_def)
qed

lemma ref_exchanged:
  obtains w req resp w' where "reachable ref_ext w" "run (Exchange ref_ext req) w = (Inr resp, w')"
proof -
  obtain lr w0 w1 res w2 c areq where f: "reachable ref_ext w0" "now w0 = 0"
    "run (Login ref_ext sample_login) w0 = (Inr lr, w1)"
    "run (Authorize ref_ext areq (lr_SessionID lr)) (w1\<lparr>now := 0\<rparr>) = (Inr res, w2)"
    "az_Action res = ActionIssueCode" "client_at ref_ext w2 (aq_ClientID areq) = Some c"
    "cl_ClientSecretHash c = []" "token_id_unused ref_ext w2"
    and areq: "areq = sample_request\<lparr>aq_ClientID := cl_ID c\<rparr>"
    by (rule ref_flow)
  have "now w1 = 0" using keeps_field_runD [OF Auth_frame(3) f(3)] f(2) by simp
  then have "w1\<lparr>now := 0\<rparr> = w1" by simp
  then have r: "reachable ref_ext w1" "reachable ref_ext w2"
    using reach(1) [OF f(1,3)] reach(2) [OF reach(1) [OF f(1,3)]] f(4) by metis+
  note inv = reachable_inv [OF f(1) ref_env] reachable_inv [OF r(1) ref_env] reachable_inv [OF r(2) ref_env]
  have n2: "now w2 = 0" using keeps_field_runD [OF Auth_frame(12) f(4)] by simp
  then have w2: "w2\<lparr>now := 0\<rparr> = w2" by simp
  have t: "(0::int) < 0 + 60 * second" by (simp add: second_def)
  obtain u :: user where u: "user_by_id ref_ext w2 (us_ID u) = Some u"
    and code: "code_at ref_ext (w2\<lparr>now := 0\<rparr>) (az_Code res) = Some
      \<lparr>ac_ClientID = cl_ID c, ac_UserID = us_ID u, ac_RedirectURI = aq_RedirectURI areq,
       ac_Scope = Some (Fields (aq_Scope areq)), ac_CodeChallenge = to_valid (aq_CodeChallenge areq),
       ac_CodeChallengeMethod = to_valid (aq_CodeChallengeMethod areq),
       ac_Nonce = to_valid (aq_Nonce areq), ac_CreatedAt = 0\<rparr>"
    by (rule issued_by_login [OF ref_ok(1,2,4,3) inv(1) f(3) inv(2) f(4,5,6) t]) blast
  let ?req = "(sample_exchange (az_Code res))\<lparr>tq_ClientID := cl_ID c\<rparr>"
  have c: "client_at ref_ext w2 (cl_ID c) = Some c"
    using f(6) by (simp add: areq)
  have v: "to_valid (base64_raw_url b) = base64_raw_url b" for b by (simp add: to_valid_ascii)
  have j: "jwt_sign ref_ext (grant_claims ref_ext w2 u c a) \<noteq> None" for a
    by (rule sample_jwt) (simp add: n2)
  have "\<exists>resp. result_of (Exchange ref_ext ?req) w2 = Inr resp"
    unfolding exchange_answer [OF ref_ok(1-4) inv(3) f(8)]
    using c u code j by (auto simp: exchange_rule_def GrantAuthorizationCode_def w2 client_authenticates_def f(7)
        code_matches_def areq v ascii_ids sample_request_def split: option.split)
  with r(2) that run_pair show thesis by metis
qed

theorem exchange_stays_registered_witness:
  "\<exists>w req resp w'. reachable ref_ext w \<and> run (Exchange ref_ext req) w = (Inr resp, w')
    \<and> Fields (tr_Scope resp) \<noteq> []"
proof -
  obtain w req resp w' where w: "reachable ref_ext w" "run (Exchange ref_ext req) w = (Inr resp, w')"
    by (rule ref_exchanged)
  from exchange_stays_registered [OF ref_env w] w show ?thesis by blast
qed

section \<open>Tokens and keys\<close>

text \<open>C30: An access token is valid exactly until its expiry: what \<open>Validate\<close> returns for a token
  that \<open>IssueAccessToken\<close> signed is the claims it was issued for (as JSON carries them, with times
  in whole seconds), at any time before the fifteen minutes are over, in whatever state the
  service then is, and afterwards an error.\<close>

theorem access_token_roundtrip:
  assumes "jwt_ok X" and "run (IssueAccessToken X u e c s) w = (Inr a, w1)"
  shows "at_AccessTokenExpiresIn a = 900
    \<and> (case result_of (Validate X (at_AccessTokenString a)) w2 of
         Inr claims \<Rightarrow> now w2 < numeric_date (now w + 900 * second)
           \<and> claims = \<lparr>ic_UserID = to_valid u, ic_Email = to_valid e, ic_ClientID = to_valid c,
               ic_Scope = to_valid s, ic_ID = to_valid (new_uuid X (draws w)),
               ic_IssuedAt = numeric_date (now w), ic_ExpiresAt = numeric_date (now w + 900 * second)\<rparr>
       | Inl _ \<Rightarrow> numeric_date (now w + 900 * second) \<le> now w2)"
proof -
  let ?c = "\<lparr>ic_UserID = u, ic_Email = e, ic_ClientID = c, ic_Scope = s,
    ic_ID = new_uuid X (draws w), ic_IssuedAt = now w, ic_ExpiresAt = now w + 900 * second\<rparr>"
  obtain tok where tok: "jwt_sign X ?c = Some tok" and a: "a = \<lparr>at_AccessTokenString = tok,
      at_AccessTokenExpiresIn = 900\<rparr>"
    using assms(2) by (auto simp: run_IssueAccessToken split: option.splits)
  have k: "rsa_key ''RS256'' = Inr ()" by (simp add: rsa_key_def)
  have "if now w2 < numeric_date (now w + 900 * second)
      then jwt_parse X rsa_key (now w2) tok = Inr (stamped ?c, True)
      else \<exists>e. jwt_parse X rsa_key (now w2) tok = Inl e"
    using assms(1) tok k unfolding jwt_ok_def by (metis iam_claims.select_convs(7))
  then show ?thesis
    by (auto simp: a Validate_def stamped_def split: if_splits)
qed

theorem access_token_roundtrip_witness:
  "\<exists>a w1 claims. run (IssueAccessToken ref_ext ''u1'' ''a@b.c'' ''c1'' ''read'') ref_world = (Inr a, w1)
    \<and> result_of (Validate ref_ext (at_AccessTokenString a)) ref_world = Inr claims
    \<and> ic_UserID claims = ''u1''"
proof -
  have "jwt_sign ref_ext \<lparr>ic_UserID = ''u1'', ic_Email = ''a@b.c'', ic_ClientID = ''c1'',
      ic_Scope = ''read'', ic_ID = new_uuid ref_ext (draws ref_world), ic_IssuedAt = now ref_world,
      ic_ExpiresAt = now ref_world + 15 * 60 * second\<rparr> \<noteq> None"
    by (simp add: ref_jwt_sign_def ref_time_text_def numeric_date_def second_def)
  then obtain a w1 where a: "run (IssueAccessToken ref_ext ''u1'' ''a@b.c'' ''c1'' ''read'') ref_world
      = (Inr a, w1)"
    by (auto simp: run_IssueAccessToken)
  have "now ref_world < numeric_date (now ref_world + 900 * second)"
    by (simp add: numeric_date_def second_def)
  moreover have "to_valid ''u1'' = ''u1''" by (simp add: to_valid_ascii)
  ultimately show ?thesis
    using access_token_roundtrip [OF ref_ok(6) a, of ref_world] a by (auto split: sum.splits)
qed

text \<open>C31: The published key set is one RS256 signature key from which a verifier gets the service's
  RSA modulus and exponent back; two different keys never give the same key set, and the key
  identifier is the RFC 7638 thumbprint of the two published members.\<close>

theorem jwks_roundtrip:
  "\<exists>k. JWKS n e = [k] \<and> jk_Kty k = ''RSA'' \<and> jk_Use k = ''sig'' \<and> jk_Alg k = ''RS256''
    \<and> map_option bytes_nat (base64_raw_url_decode (jk_N k)) = Some (nat \<bar>n\<bar>)
    \<and> map_option bytes_nat (base64_raw_url_decode (jk_E k)) = Some (nat \<bar>e\<bar>)
    \<and> jk_Kid k = base64_raw_url (sha256 (''{\"e\":\"'' @ jk_E k @ ''\",\"kty\":\"RSA\",\"n\":\"''
        @ jk_N k @ ''\"}''))
    \<and> (JWKS n' e' = [k] \<longleftrightarrow> \<bar>n'\<bar> = \<bar>n\<bar> \<and> \<bar>e'\<bar> = \<bar>e\<bar>)"
proof -
  have "base64_raw_url (big_Bytes a) = base64_raw_url (big_Bytes b) \<longleftrightarrow> \<bar>a\<bar> = \<bar>b\<bar>" for a b
  proof -
    have "a' = b'" if "nat_bytes a' = nat_bytes b'" for a' b' :: nat
      using arg_cong [OF that, of bytes_nat] by simp
    from this [of "nat \<bar>a\<bar>" "nat \<bar>b\<bar>"] show ?thesis by (auto simp: big_Bytes_def)
  qed
  then show ?thesis by (auto simp: JWKS_def Let_def rsaThumbprint_def big_Bytes_def)
qed

text \<open>\<open>utils.ContainsAll\<close>, which builds a map and looks every element up, decides inclusion of
  the sets of elements, whatever the order and the duplicates.\<close>

lemma containsAll_is_inclusion: "ContainsAll main sub \<longleftrightarrow> set sub \<subseteq> set main"
  by (simp add: ContainsAll_iff)

end
