(* ===== verification/HttpProperties.thy ===== *)
theory HttpProperties
  imports Handlers Redirects SystemProperties
begin

text \<open>
  The properties of the HTTP layer: what the endpoints answer, where they redirect to, and what
  reaches the services.
\<close>

section \<open>Responses\<close>

lemma run_call [run_simps]:
  "run (call m k) w = (case run m w of (r, w') \<Rightarrow>
     (case r of Inl (Panic msg) \<Rightarrow> Inl (Panic msg) | _ \<Rightarrow> Inr (k r), w'))"
  by (simp add: call_def split: prod.split)

lemma call_Inr:
  "run (call m k) w = (Inr resp, w') \<Longrightarrow> \<exists>r. run m w = (r, w') \<and> resp = k r"
  by (auto simp: run_call split: prod.splits sum.splits goerr.splits)

lemma new_response_simps [simp]:
  "hp_Status new_response = None" "hp_Header new_response = Map.empty"
  "hp_Cookies new_response = []" "hp_Body new_response = []"
  by (simp_all add: new_response_def)

lemma set_header_simps [simp]:
  "hp_Status (set_header k v w) = hp_Status w" "hp_Cookies (set_header k v w) = hp_Cookies w"
  "hp_Body (set_header k v w) = hp_Body w"
  "hp_Status w = None \<Longrightarrow> hp_Header (set_header k v w) = (hp_Header w)(k \<mapsto> v)"
  by (simp_all add: set_header_def)

lemma WriteJSON_simps [simp]:
  assumes "hp_Status w = None"
  shows "hp_Status (WriteJSON st v w) = Some st" "hp_Cookies (WriteJSON st v w) = hp_Cookies w"
    "hp_Header (WriteJSON st v w) = (hp_Header w)(''Content-Type'' \<mapsto> ''application/json'')"
    "hp_Body (WriteJSON st (Some j) w) = hp_Body w @ json_text j @ [CHR 0x0A]"
  using assms
  by (simp_all add: WriteJSON_def Let_def WriteHeader_def write_body_def split: option.split)

lemma WriteError_simps [simp]:
  assumes "hp_Status w = None"
  shows "hp_Status (WriteError st m w) = Some st" "hp_Cookies (WriteError st m w) = hp_Cookies w"
    "hp_Header (WriteError st m w) = (hp_Header w)(''Content-Type'' \<mapsto> ''application/json'')"
    "hp_Body (WriteError st m w)
       = hp_Body w @ json_text (JObj [(''error'', JStr m)]) @ [CHR 0x0A]"
  using assms by (simp_all add: WriteError_def)

lemma SetCookie_simps [simp]:
  "hp_Status (SetCookie c w) = hp_Status w" "hp_Header (SetCookie c w) = hp_Header w"
  "hp_Status w = None \<Longrightarrow> hp_Cookies (SetCookie c w) = hp_Cookies w @ [c]"
  by (simp_all add: SetCookie_def)

lemma internal_error_simps [simp]:
  "hp_Status internal_error = Some 500" "hp_Cookies internal_error = []"
  "hp_Header internal_error = [''Content-Type'' \<mapsto> ''application/json'']"
  by (simp_all add: internal_error_def)

section \<open>The authorization endpoint\<close>

text \<open>The browser is sent to the redirect URI of a valid request, with an error or a code.\<close>

definition sent_to_client :: "web \<Rightarrow> bool \<Rightarrow> bool \<Rightarrow> authorize_request \<Rightarrow> gostring \<Rightarrow> bool" where
  "sent_to_client H is_registered session req loc \<longleftrightarrow> is_registered
     \<and> (\<exists>u k v. parse_url (ip_literal H) (aq_RedirectURI req) = Some u
          \<and> (u_Scheme u = ''https'' \<or> u_Scheme u = ''http'' \<and> loopback (hostname u))
          \<and> u_Host u \<noteq> [] \<and> extends u [(k, v), (''state'', aq_State req)] loc
          \<and> (k = ''error'' \<or> k = ''code'' \<and> session))"

lemma sent_to_clientI:
  "is_registered \<Longrightarrow> parse_url (ip_literal H) (aq_RedirectURI req) = Some u
    \<Longrightarrow> u_Scheme u = ''https'' \<or> u_Scheme u = ''http'' \<and> loopback (hostname u) \<Longrightarrow> u_Host u \<noteq> []
    \<Longrightarrow> extends u [(k, v), (''state'', aq_State req)] loc
    \<Longrightarrow> k = ''error'' \<or> k = ''code'' \<and> session \<Longrightarrow> sent_to_client H is_registered session req loc"
  unfolding sent_to_client_def by blast

lemma valid_target:
  assumes "validator_ok H" "Authorize_Validate H req = None"
  obtains u where "parse_url (ip_literal H) (aq_RedirectURI req) = Some u"
    "u_Scheme u = ''https'' \<or> u_Scheme u = ''http'' \<and> loopback (hostname u)" "u_Host u \<noteq> []"
    "redirect_base (ip_literal H) (aq_RedirectURI req) u" "aq_State req \<noteq> []"
proof -
  have v: "validateRedirectURI H (aq_RedirectURI req)" "aq_RedirectURI req \<noteq> []" "aq_State req \<noteq> []"
    using assms(2) by (simp_all add: authorize_valid_iff [OF assms(1)])
  then obtain u where u: "parse_url (ip_literal H) (aq_RedirectURI req) = Some u"
    by (auto simp: validateRedirectURI_def split: option.splits)
  with v have "is_abs u" "u_Host u \<noteq> []"
    "u_Scheme u = ''https'' \<or> u_Scheme u = ''http'' \<and> loopback (hostname u)"
    by (auto simp: validateRedirectURI_def loopback_def split: if_splits)
  with u v(3) show thesis
    by (intro that [of u]) (simp_all add: redirect_base_def is_abs_def)
qed

text \<open>
  What the handler relies on in \<open>authService.Authorize\<close>: a result that redirects to the client
  names the URI and the state of the request, which the service found \<open>registered\<close>; it carries
  a code or an error.
\<close>

locale authorize_port =
  fixes ok :: "'x \<Rightarrow> bool"
    and authorize :: "'x \<Rightarrow> authorize_request \<Rightarrow> gostring \<Rightarrow> ('w, goerr + authorize_result) state"
    and registered :: "'x \<Rightarrow> 'w \<Rightarrow> authorize_request \<Rightarrow> bool"
    and logged_in :: "'x \<Rightarrow> 'w \<Rightarrow> gostring \<Rightarrow> bool"
  assumes to_client: "ok X \<Longrightarrow> run (authorize X req sid) w = (Inr res, w')
      \<Longrightarrow> az_Action res \<in> {ActionIssueCode, ActionErrorToClient}
      \<Longrightarrow> az_RedirectURI res = aq_RedirectURI req \<and> az_State res = aq_State req \<and> registered X w req"
    and issued: "ok X \<Longrightarrow> run (authorize X req sid) w = (Inr res, w')
      \<Longrightarrow> az_Action res = ActionIssueCode \<Longrightarrow> az_Code res \<noteq> [] \<and> logged_in X w sid"
    and refused: "ok X \<Longrightarrow> run (authorize X req sid) w = (Inr res, w')
      \<Longrightarrow> az_Action res = ActionErrorToClient \<Longrightarrow> az_OAuthError res \<noteq> []"
begin

lemma answer:
  assumes "ok X" "validator_ok H" "redirect_base (ip_literal H) loginURL ul"
    and "Authorize_Validate H req = None" and "run (authorize X req sid) w = (Inr res, w')"
    and resp: "resp = answer_authorize H loginURL r res"
  shows "hp_Cookies resp = []
    \<and> (case hp_Header resp ''Location'' of
         None \<Rightarrow> hp_Status resp = Some 400
       | Some loc \<Rightarrow> hp_Status resp = Some 302
           \<and> (extends ul [(''next'', RequestURI (hr_URL r))] loc \<or> sent_to_client H (registered X w req) (logged_in X w sid) req loc))"
proof -
  obtain u where u: "parse_url (ip_literal H) (aq_RedirectURI req) = Some u"
      "u_Scheme u = ''https'' \<or> u_Scheme u = ''http'' \<and> loopback (hostname u)" "u_Host u \<noteq> []"
    and base: "redirect_base (ip_literal H) (aq_RedirectURI req) u" and st: "aq_State req \<noteq> []"
    by (rule valid_target [OF assms(2,4)])
  note laws = to_client [OF assms(1,5)] issued [OF assms(1,5)] refused [OF assms(1,5)]
  have uri: "RequestURI (hr_URL r) \<noteq> []"
    by (auto simp: RequestURI_def Let_def)
  show ?thesis
  proof (cases "az_Action res")
    case ActionIssueCode
    with laws have "answer_authorize H loginURL r res = RedirectWith (ip_literal H) r (aq_RedirectURI req)
        (flat [(''code'', az_Code res), (''state'', aq_State req)]) new_response"
      by (simp add: answer_authorize_def flat_def)
    with RedirectWith_extends [OF base, of "[(''code'', az_Code res), (''state'', aq_State req)]" r]
      laws ActionIssueCode st u show ?thesis
      by (auto simp: resp intro: sent_to_clientI [OF _ u])
  next
    case ActionErrorToClient
    with laws have "answer_authorize H loginURL r res = RedirectWith (ip_literal H) r (aq_RedirectURI req)
        (flat [(''error'', az_OAuthError res), (''state'', aq_State req)]) new_response"
      by (simp add: answer_authorize_def flat_def)
    with RedirectWith_extends [OF base, of "[(''error'', az_OAuthError res), (''state'', aq_State req)]" r]
      laws ActionErrorToClient st u show ?thesis
      by (auto simp: resp intro: sent_to_clientI [OF _ u])
  next
    case ActionRequireLogin
    then have "answer_authorize H loginURL r res = RedirectWith (ip_literal H) r loginURL
        (flat [(''next'', RequestURI (hr_URL r))]) new_response"
      by (simp add: answer_authorize_def flat_def)
    with RedirectWith_extends [OF assms(3), of "[(''next'', RequestURI (hr_URL r))]" r] uri
    show ?thesis by (auto simp: resp)
  qed (simp add: resp answer_authorize_def)
qed

end

definition registered_target :: "('r, 'd) ext \<Rightarrow> ('r, 'd) world \<Rightarrow> authorize_request \<Rightarrow> bool" where
  "registered_target X w req \<longleftrightarrow> (\<exists>c. client_at X w (aq_ClientID req) = Some c
     \<and> aq_RedirectURI req \<in> set (elems (cl_RedirectURIs c)))"

definition has_session :: "('r, 'd) ext \<Rightarrow> ('r, 'd) world \<Rightarrow> gostring \<Rightarrow> bool" where
  "has_session X w sid \<longleftrightarrow> session_of X w sid \<noteq> None"

definition backends_ok :: "('r, 'd) ext \<Rightarrow> bool" where
  "backends_ok X \<longleftrightarrow> redis_ok X \<and> mysql_ok X \<and> library_ok X"

lemma authorize_laws:
  assumes "backends_ok X" and "run (Authorize X req sid) w = (Inr res, w')"
  shows "az_Action res \<in> {ActionIssueCode, ActionErrorToClient}
      \<Longrightarrow> az_RedirectURI res = aq_RedirectURI req \<and> az_State res = aq_State req \<and> registered_target X w req"
    and "az_Action res = ActionIssueCode \<Longrightarrow> az_Code res \<noteq> [] \<and> has_session X w sid"
    and "az_Action res = ActionErrorToClient \<Longrightarrow> az_OAuthError res \<noteq> []"
proof -
  have X: "redis_ok X" "mysql_ok X" "library_ok X" using assms(1) by (simp_all add: backends_ok_def)
  have "(az_Action res \<in> {ActionIssueCode, ActionErrorToClient} \<longrightarrow>
      az_RedirectURI res = aq_RedirectURI req \<and> az_State res = aq_State req \<and> registered_target X w req)
    \<and> (az_Action res = ActionIssueCode \<longrightarrow> az_Code res \<noteq> [] \<and> has_session X w sid)
    \<and> (az_Action res = ActionErrorToClient \<longrightarrow> az_OAuthError res \<noteq> [])"
    using X(1,2) assms(2)
  proof (cases rule: Authorize_Inr [where code = "[]"])
    case quiet
    then show ?thesis
      by (auto simp: outcome_of_def decide_def plain_result_def registered_target_def
          split: option.splits if_splits)
  next
    case (issued c s w1 code)
    obtain bytes where "rand32 X (draws w1) = Some bytes" "code = base64_raw_url bytes"
      using AuthCode_Create_cases(1) [OF X(1) issued(4)] by blast
    then have "code \<noteq> []"
      using X(3) length_base64 [of bytes] by (auto simp: library_ok_def)
    with issued show ?thesis
      by (auto simp: outcome_of_def decide_def plain_result_def registered_target_def has_session_def
          split: option.splits if_splits)
  qed
  then show "az_Action res \<in> {ActionIssueCode, ActionErrorToClient}
      \<Longrightarrow> az_RedirectURI res = aq_RedirectURI req \<and> az_State res = aq_State req \<and> registered_target X w req"
    and "az_Action res = ActionIssueCode \<Longrightarrow> az_Code res \<noteq> [] \<and> has_session X w sid"
    and "az_Action res = ActionErrorToClient \<Longrightarrow> az_OAuthError res \<noteq> []" by blast+
qed

interpretation ap: authorize_port backends_ok Authorize registered_target has_session
  by unfold_locales (use authorize_laws in blast)+

text \<open>C5: The authorization endpoint never redirects anywhere but to its own login page, with the
  original request as \<open>next\<close>, or to the redirect URI of the request, which is then registered for
  the client, is https or points to the local host, and gets the state of the request back with
  an error, or with a code when there is a live session; the other parameters of the URI reach the
  client as registered.  Without a redirect the answer is a 400 or a 500, and no cookie is set.\<close>

theorem authorize_endpoint_redirects:
  assumes "backends_ok X" "validator_ok H" "redirect_base (ip_literal H) loginURL ul"
    and "run (AuthorizeHandler H (NewAuthHandler X key_N key_E secure loginURL) r) w = (Inr resp, w')"
  defines "req \<equiv> ParseAuthorizeRequest (url_query r)"
  shows "hp_Cookies resp = []
    \<and> (case hp_Header resp ''Location'' of
         None \<Rightarrow> hp_Status resp \<in> {Some 400, Some 500}
       | Some loc \<Rightarrow> hp_Status resp = Some 302 \<and> Authorize_Validate H req = None
           \<and> (extends ul [(''next'', RequestURI (hr_URL r))] loc
              \<or> sent_to_client H (registered_target X w req)
                  (has_session X w (CookieValue r SessionCookieName)) req loc))"
proof (cases "Authorize_Validate H req")
  case (Some errs)
  with assms(4) show ?thesis
    by (auto simp: AuthorizeHandler_def req_def [symmetric] writeValidationError_def)
next
  case None
  with assms(4) obtain res where
    res: "run (Authorize X req (CookieValue r SessionCookieName)) w = (res, w')"
    and resp: "resp = (case res of Inl err \<Rightarrow> internal_error | Inr res \<Rightarrow> answer_authorize H loginURL r res)"
    by (auto simp: AuthorizeHandler_def req_def NewAuthHandler_def dest: call_Inr)
  show ?thesis
  proof (cases res)
    case (Inr v)
    show ?thesis
      using ap.answer [OF assms(1-3) None res [unfolded Inr] refl, of r] None
      by (auto simp: resp Inr split: option.splits)
  qed (simp add: resp)
qed

definition authorize_get :: http_request where
  "authorize_get = \<lparr>hr_Method = ''GET'',
     hr_URL = zero_url\<lparr>u_Path := ''/oauth/authorize'', u_RawQuery :=
       ''response_type=code&client_id=c1&redirect_uri=https%3A%2F%2Fa%2Fcb&scope=read&state=12345678''
       @ ''&code_challenge='' @ replicate 43 CHR ''a'' @ ''&code_challenge_method=S256''\<rparr>,
     hr_Authorization = [], hr_Cookies = [], hr_Body = [], hr_PostForm = Some []\<rparr>"

definition authorize_get_request :: authorize_request where
  "authorize_get_request = \<lparr>aq_ResponseType = ''code'', aq_ClientID = ''c1'',
     aq_RedirectURI = ''https://a/cb'', aq_Scope = ''read'', aq_State = ''12345678'',
     aq_CodeChallenge = replicate 43 CHR ''a'', aq_CodeChallengeMethod = ''S256'',
     aq_Nonce = [], aq_Prompt = [], aq_AccessType = []\<rparr>"

lemma authorize_get_parses: "ParseAuthorizeRequest (url_query authorize_get) = authorize_get_request"
  by code_simp

lemma authorize_get_valid: "Authorize_Validate ref_web authorize_get_request = None"
proof -
  have "validateRedirectURI ref_web ''https://a/cb''" by code_simp
  moreover have "length (runes ''c1'') \<le> 255" "8 \<le> length (runes ''12345678'')"
    "length (runes ''12345678'') \<le> 512" "43 \<le> length (runes (replicate 43 CHR ''a''))"
    "length (runes (replicate 43 CHR ''a'')) \<le> 128"
    by (simp_all add: runes_ascii ascii_def)
  ultimately show ?thesis
    by (simp add: authorize_valid_iff [OF ref_web_ok] authorize_get_request_def)
qed

definition login_page :: url where
  "login_page = zero_url\<lparr>u_Path := ''/login''\<rparr>"

lemma login_page_base: "redirect_base (ip_literal ref_web) ''/login'' login_page"
  unfolding redirect_base_def by code_simp

lemma service_needs_login:
  "\<exists>w'. run (Authorize ref_ext authorize_get_request []) service_world
      = (Inr (plain_result ActionRequireLogin), w')"
proof -
  obtain r w' where r: "run (Authorize ref_ext authorize_get_request []) service_world = (r, w')" by fastforce
  have "decide (client_at ref_ext service_world (aq_ClientID authorize_get_request))
      (session_of ref_ext service_world []) authorize_get_request = NeedLogin"
    by (simp add: service_client authorize_get_request_def decide_def session_of_def scope_granted_def
        prompt_none_def sample_client_def fields_read)
  then have d: "\<nexists>c s. decide (client_at ref_ext service_world (aq_ClientID authorize_get_request))
      (session_of ref_ext service_world []) authorize_get_request = Issue c s"
    "outcome_of authorize_get_request (decide (client_at ref_ext service_world
      (aq_ClientID authorize_get_request)) (session_of ref_ext service_world []) authorize_get_request) []
      = plain_result ActionRequireLogin"
    by (simp_all add: outcome_of_def)
  show ?thesis
    using ref_ok(1,2) [where up = True] r
  proof (cases rule: Authorize_stages [where code = "[]"])
    case (failed e)
    from failed(3) show ?thesis
      by (auto simp: service_client authorize_get_request_def)
  qed (use r d in auto)
qed

theorem authorize_endpoint_redirects_witness:
  "\<exists>resp loc w'. run (AuthorizeHandler ref_web (NewAuthHandler ref_ext 15 3 True ''/login'') authorize_get)
      service_world = (Inr resp, w')
    \<and> hp_Header resp ''Location'' = Some loc \<and> hp_Status resp = Some 302 \<and> hp_Cookies resp = []"
proof -
  obtain w' where a: "run (Authorize ref_ext authorize_get_request []) service_world
      = (Inr (plain_result ActionRequireLogin), w')"
    using service_needs_login by blast
  have c: "CookieValue authorize_get SessionCookieName = []"
    by (simp add: CookieValue_def authorize_get_def)
  let ?resp = "RedirectWith (ip_literal ref_web) authorize_get ''/login''
    (flat [(''next'', RequestURI (hr_URL authorize_get))]) new_response"
  have run: "run (AuthorizeHandler ref_web (NewAuthHandler ref_ext 15 3 True ''/login'') authorize_get)
      service_world = (Inr ?resp, w')"
    using a by (simp add: AuthorizeHandler_def authorize_get_parses authorize_get_valid Let_def
        NewAuthHandler_def c run_call answer_authorize_def plain_result_def flat_def)
  have "RequestURI (hr_URL authorize_get) \<noteq> []" by (auto simp: RequestURI_def Let_def)
  then obtain loc where "hp_Header ?resp ''Location'' = Some loc"
    using RedirectWith_extends(3) [OF login_page_base, of "[(''next'', RequestURI (hr_URL authorize_get))]"]
    by auto
  moreover have "backends_ok ref_ext" using ref_ok by (simp add: backends_ok_def)
  note authorize_endpoint_redirects [OF this ref_web_ok login_page_base run]
  ultimately show ?thesis using run by auto
qed

section \<open>Where a login leads\<close>

lemma unescape_head:
  assumes "url_unescape EncodePath p = Some (c # path)" "c \<noteq> CHR 0x25"
  shows "p \<noteq> [] \<and> hd p \<in> {c, CHR 0x25}"
  using assms by (cases p) (auto split: if_splits option.splits list.splits)

lemma unescape_slash: "url_unescape EncodePath (CHR ''/'' # p) = map_option ((#) (CHR ''/'')) (url_unescape EncodePath p)"
  by simp

text \<open>C16: The open-redirect guard.  Whatever a caller passes as \<open>next\<close>, \<open>safeNext\<close> returns \<open>/\<close> or
  a reference on this host to the authorization endpoint: a path that decodes to
  \<open>/oauth/authorize\<close>, in which the slash at the beginning is a single one, followed at most by a
  query and a fragment.\<close>

theorem safeNext_stays_here:
  "safeNext H nxt = ''/'' \<or> (\<exists>c p q. safeNext H nxt = CHR ''/'' # c # p @ q
     \<and> url_unescape EncodePath (CHR ''/'' # c # p) = Some ''/oauth/authorize''
     \<and> c \<in> {CHR ''o'', CHR 0x25} \<and> (q = [] \<or> hd q \<in> {CHR ''?'', CHR ''#''}))"
proof (cases "safeNext H nxt = ''/''")
  case False
  then obtain u where rooted: "has_prefix nxt ''/''" "\<not> has_prefix nxt ''//''"
      and parse: "parse_url (ip_literal H) nxt = Some u"
    and path: "u_Path u = ''/oauth/authorize''" and out: "safeNext H nxt = url_text u"
    by (auto simp: safeNext_def split: if_splits option.splits)
  obtain p q where p: "nxt = p @ q" "has_prefix p ''/''"
    and u: "u_Scheme u = []" "u_Host u = []" "u_User u = None" "u_Opaque u = []"
    and un: "url_unescape EncodePath p = Some (u_Path u)"
    and raw: "u_RawPath u = (if p = url_escape EncodePath (u_Path u) then [] else p)"
    by (rule parse_rooted [OF rooted parse])
  let ?e = "escaped EncodePath (u_RawPath u) (u_Path u)"
  have e: "url_text u = ?e @ query_text u @ fragment_text u"
    using rooted_text [OF rooted parse] by (simp add: url_text_def)
  have "url_escape EncodePath ''/oauth/authorize'' = ''/oauth/authorize''" by code_simp
  then have slash: "has_prefix ?e ''/''"
    using raw p(2) path by (auto simp: escaped_def has_prefix_char)
  then obtain r where r: "?e = CHR ''/'' # r" by (cases ?e) (auto simp: has_prefix_char)
  have "url_unescape EncodePath (CHR ''/'' # r) = Some ''/oauth/authorize''"
    using unescape_escaped [of "u_RawPath u" "u_Path u"] unfolding r by (simp only: path)
  then have "url_unescape EncodePath r = Some ''oauth/authorize''"
    by (auto simp: unescape_slash)
  then have "r \<noteq> [] \<and> hd r \<in> {CHR ''o'', CHR 0x25}"
    by (rule unescape_head) simp
  then obtain c r' where c: "r = c # r'" "c \<in> {CHR ''o'', CHR 0x25}" by (cases r) auto
  have q: "query_text u @ fragment_text u = []
      \<or> hd (query_text u @ fragment_text u) \<in> {CHR ''?'', CHR ''#''}"
    by (simp add: query_text_def fragment_text_def)
  show ?thesis
    using \<open>url_unescape EncodePath (CHR ''/'' # r) = _\<close> q c out e r
    by (intro disjI2 exI [of _ c] exI [of _ r'] exI [of _ "query_text u @ fragment_text u"]) simp
qed simp

lemma LoginHandler_cases:
  assumes "run (LoginHandler X H h r) w = (Inr resp, w')"
  obtains (refused) msg where "resp = WriteError 400 msg new_response" "w' = w"
      "\<And>req. decode_login (hr_Body r) = Some req \<Longrightarrow> lq_Email req = [] \<or> lq_Password req = []"
    | (answered) req res where "decode_login (hr_Body r) = Some req" "run (ah_Login h req) w = (res, w')"
      "resp = login_answer X (safeNext H (vals_get (url_query r) ''next'')) (ah_secureCookies h) res"
  using assms that
  by (auto simp: LoginHandler_def Let_def split: option.splits if_splits dest!: call_Inr)

text \<open>The URL of an authorization request as it came in.\<close>

definition authorize_url :: "url \<Rightarrow> bool" where
  "authorize_url u \<longleftrightarrow> u_Opaque u = [] \<and> u_Path u = ''/oauth/authorize'' \<and> u_RawPath u = []
     \<and> \<not> has_ctl (u_RawQuery u) \<and> CHR ''#'' \<notin> set (u_RawQuery u)"

lemma safeNext_authorize:
  assumes "authorize_url u"
  shows "safeNext H (RequestURI u) = RequestURI u"
proof -
  let ?p = "''/oauth/authorize''"
  have esc: "url_escape EncodePath ?p = ?p" and un: "url_unescape EncodePath ?p = Some ?p" by code_simp+
  have uri: "RequestURI u = ?p @ query_text u"
    using assms esc by (simp add: RequestURI_def authorize_url_def escaped_def Let_def)
  let ?v = "zero_url\<lparr>u_Path := ?p, u_ForceQuery := u_ForceQuery u \<and> u_RawQuery u = [], u_RawQuery := u_RawQuery u\<rparr>"
  have ctl: "\<not> has_ctl (?p @ query_text u)"
    using assms by (auto simp: authorize_url_def has_ctl_def query_text_def)
  have num: "CHR ''#'' \<notin> set (?p @ query_text u)"
    using assms by (auto simp: authorize_url_def query_text_def)
  have cq: "cut_query (?p @ query_text u) (zero_url\<lparr>u_Scheme := lower []\<rparr>)
      = (?p, zero_url\<lparr>u_ForceQuery := u_ForceQuery u \<and> u_RawQuery u = [], u_RawQuery := u_RawQuery u\<rparr>)"
  proof (cases "u_RawQuery u")
    case Nil
    then show ?thesis
      by (cases "u_ForceQuery u") (simp_all add: query_text_def cut_query_def lower_def zero_url_def cut_def)
  next
    case (Cons c q)
    then have "\<not> (last (?p @ query_text u) = CHR ''?'' \<and> CHR ''?'' \<notin> set (butlast (?p @ query_text u)))"
      by (simp add: query_text_def)
    then show ?thesis
      using Cons by (simp add: query_text_def cut_query_def lower_def zero_url_def cut_def)
  qed
  have rest: "parse_rest L ?p (zero_url\<lparr>u_ForceQuery := f, u_RawQuery := q\<rparr>)
      = Some (zero_url\<lparr>u_Path := ?p, u_ForceQuery := f, u_RawQuery := q\<rparr>)" for L f q
    by (simp add: parse_rest_def has_prefix_def set_path_def un esc zero_url_def)
  have "get_scheme (?p @ query_text u) = Some ([], ?p @ query_text u)"
    by (rule get_scheme_rooted) (simp add: has_prefix_def)
  then have parse: "parse_url (ip_literal H) (RequestURI u) = Some ?v"
    using ctl num cq rest
    by (simp add: uri parse_url_def cut_none parse_no_fragment_def)
  have "url_text ?v = ?p @ query_text u"
    using esc by (simp add: url_text_def origin_text_def path_text_def query_text_def fragment_text_def
        zero_url_def escaped_def cut_def Let_def)
  then show ?thesis
    using parse by (simp add: safeNext_def is_abs_def zero_url_def)
      (simp add: uri has_prefix_def)
qed

text \<open>C17: A login resumes the authorization request that asked for it.  When a valid request at
  \<open>/oauth/authorize\<close> has to wait for a login, the browser goes to the login page with a query in
  which \<open>next\<close> is the URI of that very request, and a later login that is given this \<open>next\<close> and
  succeeds answers with it: the guard \<open>safeNext\<close> lets it pass unchanged.\<close>

theorem login_resumes_authorization:
  assumes "redirect_base (ip_literal H) (ah_loginURL h) ul" "short_query ul"
    and "authorize_url (hr_URL r)"
    and "Authorize_Validate H (ParseAuthorizeRequest (url_query r)) = None"
    and "run (ah_Authorize h (ParseAuthorizeRequest (url_query r)) (CookieValue r SessionCookieName)) w
      = (Inr (plain_result ActionRequireLogin), w')"
  shows "\<exists>resp q. run (AuthorizeHandler H h r) w = (Inr resp, w') \<and> hp_Status resp = Some 302
    \<and> hp_Header resp ''Location'' = Some (location ul q)
    \<and> vals_get (parse_query q) ''next'' = RequestURI (hr_URL r)
    \<and> (\<forall>r2 v v' resp2.
        vals_get (url_query r2) ''next'' = vals_get (parse_query q) ''next''
        \<longrightarrow> run (LoginHandler X H h r2) v = (Inr resp2, v') \<longrightarrow> hp_Status resp2 = Some 200
        \<longrightarrow> (\<exists>lr :: login_result. hp_Body resp2 = (case time_text X (lr_ExpiresAt lr) of None \<Rightarrow> [] | Some t \<Rightarrow>
              json_text (login_response_json (RequestURI (hr_URL r)) t) @ [CHR 0x0A])))"
proof -
  let ?n = "RequestURI (hr_URL r)"
  let ?resp = "RedirectWith (ip_literal H) r (ah_loginURL h) (flat [(''next'', ?n)]) new_response"
  have run: "run (AuthorizeHandler H h r) w = (Inr ?resp, w')"
    using assms(4,5) by (simp add: AuthorizeHandler_def Let_def run_call answer_authorize_def
        plain_result_def flat_def)
  have n: "?n \<noteq> []" by (auto simp: RequestURI_def Let_def)
  obtain q where q: "hp_Header ?resp ''Location'' = Some (location ul q)"
    "vals_of (parse_query q) ''next'' = [?n]"
    using RedirectWith_extends(3) [OF assms(1), of "[(''next'', ?n)]" r] n assms(2)
    by (auto simp: extends_def)
  have got: "vals_get (parse_query q) ''next'' = ?n" using q(2) by (simp add: vals_get_of)
  have "\<exists>lr :: login_result. hp_Body resp2 = (case time_text X (lr_ExpiresAt lr) of None \<Rightarrow> [] | Some t \<Rightarrow>
              json_text (login_response_json ?n t) @ [CHR 0x0A])"
    if "vals_get (url_query r2) ''next'' = ?n" "hp_Status resp2 = Some 200"
      "run (LoginHandler X H h r2) v = (Inr resp2, v')" for r2 v v' resp2
    using that(3)
  proof (cases rule: LoginHandler_cases)
    case (answered req res)
    with that(1,2) obtain lr :: login_result where "resp2 = WriteJSON 200
               (map_option (login_response_json ?n) (time_text X (lr_ExpiresAt lr)))
               (SetCookie (login_cookie (ah_secureCookies h) lr) new_response)"
      by (auto simp: login_answer_def safeNext_authorize [OF assms(3)] split: sum.splits if_splits)
    then show ?thesis
      by (intro exI [of _ lr])
        (auto simp: WriteJSON_def WriteHeader_def write_body_def SetCookie_def set_header_def Let_def
          split: option.splits)
  qed (use that(2) in simp)
  with run q(1) got RedirectWith_extends(1) [OF assms(1), of "[(''next'', ?n)]" r] n show ?thesis
    by (intro exI [of _ ?resp] exI [of _ q]) auto
qed

theorem login_resumes_authorization_witness:
  "\<exists>resp w' q. run (AuthorizeHandler ref_web (NewAuthHandler ref_ext 15 3 True ''/login'') authorize_get)
      service_world = (Inr resp, w')
    \<and> hp_Header resp ''Location'' = Some (location login_page q)
    \<and> vals_get (parse_query q) ''next'' = RequestURI (hr_URL authorize_get)"
proof -
  let ?h = "NewAuthHandler ref_ext 15 3 True ''/login''"
  obtain w' where a: "run (Authorize ref_ext authorize_get_request []) service_world
      = (Inr (plain_result ActionRequireLogin), w')"
    using service_needs_login by blast
  have c: "CookieValue authorize_get SessionCookieName = []"
    by (simp add: CookieValue_def authorize_get_def)
  have h: "ah_loginURL ?h = ''/login''" "ah_Authorize ?h = Authorize ref_ext"
    by (simp_all add: NewAuthHandler_def)
  have s: "short_query login_page" by (simp add: short_query_def login_page_def zero_url_def max_params_def)
  have u: "authorize_url (hr_URL authorize_get)"
    unfolding authorize_url_def by code_simp
  from login_resumes_authorization [where h = ?h, unfolded h, OF login_page_base s u]
  show ?thesis
    using a authorize_get_valid by (fastforce simp: authorize_get_parses c)
qed

section \<open>Login and logout over HTTP\<close>

text \<open>C18: The session cookie is set exactly by a successful login: it holds the identifier of a session
  that stands for the user whose email and password were in the body, cannot be read by scripts,
  is not sent cross-site, is marked secure when the service is so configured, and expires with the
  session thirty days later.  While the servers are up credentials of no user are a 401 and
  change nothing.\<close>

theorem login_endpoint:
  assumes "backends_ok X" and "run (LoginHandler X H (NewAuthHandler X key_N key_E secure url) r) w = (Inr resp, w')"
  shows "((hp_Cookies resp = [] \<and> (\<exists>st \<in> {400, 401, 500}. hp_Status resp = Some st))
      \<or> (\<exists>c req u. hp_Cookies resp = [c] \<and> hp_Status resp = Some 200
          \<and> decode_login (hr_Body r) = Some req \<and> authenticates X w req u
          \<and> session_at X w' (ck_Value c) = Some \<lparr>se_UserID = to_valid (us_ID u),
              se_Email = to_valid (us_Email u), se_CreatedAt = now w\<rparr>
          \<and> ck_Name c = ''session_id'' \<and> ck_Path c = ''/'' \<and> ck_HttpOnly c \<and> ck_Secure c = secure
          \<and> ck_SameSite c = SameSiteLax \<and> ck_Expires c = Some (now w + 30 * 24 * 3600 * second)
          \<and> ck_MaxAge c = 0))
    \<and> (redis_spec True X \<and> mysql_spec True X \<longrightarrow> (\<forall>req. decode_login (hr_Body r) = Some req
        \<longrightarrow> lq_Email req \<noteq> [] \<longrightarrow> lq_Password req \<noteq> [] \<longrightarrow> (\<nexists>u. authenticates X w req u)
        \<longrightarrow> hp_Status resp = Some 401 \<and> hp_Cookies resp = [] \<and> same_world X w w'))"
  using assms(2)
proof (cases rule: LoginHandler_cases)
  case (answered req res)
  have X: "redis_ok X" "mysql_ok X" "library_ok X" using assms(1) by (simp_all add: backends_ok_def)
  from answered have l: "decode_login (hr_Body r) = Some req" "run (Login X req) w = (res, w')"
    and resp: "resp = login_answer X (safeNext H (vals_get (url_query r) ''next'')) secure res"
    by (simp_all add: NewAuthHandler_def)
  have "res = Inl ErrEmailOrPasswordWrong \<and> same_world X w w'"
    if "redis_spec True X" "mysql_spec True X" "\<nexists>u. authenticates X w req u"
    using Login_cases(2,3) [OF that(1,2) l(2)] that(3) by blast
  then have up: "redis_spec True X \<and> mysql_spec True X \<longrightarrow> (\<nexists>u. authenticates X w req u)
        \<longrightarrow> hp_Status resp = Some 401 \<and> hp_Cookies resp = [] \<and> same_world X w w'"
    by (auto simp: resp login_answer_def)
  show ?thesis
  proof (cases res)
    case (Inr lr)
    obtain u where u: "authenticates X w req u" "lr_ExpiresAt lr = now w + sessionTTL"
      "session_at X w' (lr_SessionID lr)
        = Some \<lparr>se_UserID = to_valid (us_ID u), se_Email = to_valid (us_Email u), se_CreatedAt = now w\<rparr>"
      by (rule login_stored [OF X l(2) [unfolded Inr]]) blast
    with l(1) have "\<exists>c req u. hp_Cookies resp = [c] \<and> hp_Status resp = Some 200
          \<and> decode_login (hr_Body r) = Some req \<and> authenticates X w req u
          \<and> session_at X w' (ck_Value c) = Some \<lparr>se_UserID = to_valid (us_ID u),
              se_Email = to_valid (us_Email u), se_CreatedAt = now w\<rparr>
          \<and> ck_Name c = ''session_id'' \<and> ck_Path c = ''/'' \<and> ck_HttpOnly c \<and> ck_Secure c = secure
          \<and> ck_SameSite c = SameSiteLax \<and> ck_Expires c = Some (now w + 30 * 24 * 3600 * second)
          \<and> ck_MaxAge c = 0"
      by (intro exI [of _ "login_cookie secure lr"] exI [of _ req] exI [of _ u])
        (simp add: resp Inr login_answer_def login_cookie_def SessionCookieName_def sessionTTL_def)
    with up l(1) show ?thesis by auto
  qed (use up l(1) in \<open>auto simp: resp login_answer_def\<close>)
qed auto

text \<open>A body that a client encodes arrives, with ill-formed bytes replaced.\<close>

definition login_body :: "gostring \<Rightarrow> gostring \<Rightarrow> gostring" where
  "login_body email password = json_text (JObj [(''email'', JStr email), (''password'', JStr password)])"

lemma unmarshal_stream: "json_unmarshal s = Some v \<Longrightarrow> json_decode_stream s = Some v"
  by (auto simp: json_unmarshal_def json_decode_stream_def split: option.splits if_splits)

lemma decode_login_body:
  "decode_login (login_body email password)
    = Some \<lparr>lq_Email = to_valid email, lq_Password = to_valid password\<rparr>"
proof -
  have ids: "to_valid ''email'' = ''email''" "to_valid ''password'' = ''password''"
    by (rule to_valid_ascii, simp)+
  have "json_decode_stream (login_body email password)
      = Some (JObj [(''email'', JStr (to_valid email)), (''password'', JStr (to_valid password))])"
    unfolding login_body_def
    by (rule unmarshal_stream, subst json_roundtrip) (simp_all add: json_max_depth_def ids)
  then show ?thesis
    by (simp add: decode_login_def decode_struct_def login_fields_def find_field_def str_field_def)
qed

definition login_post :: "gostring \<Rightarrow> http_request" where
  "login_post password = \<lparr>hr_Method = ''POST'', hr_URL = zero_url\<lparr>u_Path := ''/login''\<rparr>,
     hr_Authorization = [], hr_Cookies = [], hr_Body = login_body ''a@b.c'' password,
     hr_PostForm = Some []\<rparr>"

lemma decode_login_post:
  "decode_login (hr_Body (login_post ''wrong'')) = Some (sample_login\<lparr>lq_Password := ''wrong''\<rparr>)"
proof -
  have "to_valid ''a@b.c'' = ''a@b.c''" "to_valid ''wrong'' = ''wrong''" by (rule to_valid_ascii, simp)+
  then show ?thesis by (simp add: login_post_def decode_login_body sample_login_def)
qed

theorem login_endpoint_witness:
  "\<exists>resp w'. run (LoginHandler ref_ext ref_web (NewAuthHandler ref_ext 15 3 True ''/login'')
      (login_post ''wrong'')) user_world = (Inr resp, w')
    \<and> hp_Status resp = Some 401 \<and> hp_Cookies resp = []"
proof -
  let ?h = "NewAuthHandler ref_ext 15 3 True ''/login''" and ?req = "sample_login\<lparr>lq_Password := ''wrong''\<rparr>"
  obtain r w1 where r: "run (Login ref_ext ?req) user_world = (r, w1)" by fastforce
  have "ref_hash ''wrong'' \<noteq> ref_hash ''secret''" by code_simp
  then have no: "\<nexists>u. authenticates ref_ext user_world ?req u"
    by (auto simp: authenticates_def user_by_email_def sample_login_def sample_user_def)
  then have "r = Inl ErrEmailOrPasswordWrong" using Login_cases(3) [OF ref_ok(1,2) r TrueI] by blast
  with r have "\<exists>resp. run (LoginHandler ref_ext ref_web ?h (login_post ''wrong'')) user_world = (Inr resp, w1)"
    by (simp add: LoginHandler_def decode_login_post Let_def NewAuthHandler_def run_call sample_login_def)
  then obtain resp where run: "run (LoginHandler ref_ext ref_web ?h (login_post ''wrong'')) user_world
      = (Inr resp, w1)" ..
  have ok: "backends_ok ref_ext" using ref_ok by (simp add: backends_ok_def)
  have "hp_Status resp = Some 401 \<and> hp_Cookies resp = []"
    using login_endpoint [OF ok run] ref_ok(1,2) no decode_login_post
    by (simp add: sample_login_def)
  with run show ?thesis by blast
qed

text \<open>C19: Logging out always answers, and while Redis is up always with 204: the cookie is cleared on
  the path it was set for, the session it named is gone and no other session is touched; without
  the cookie nothing changes.  Only a failure of Redis makes it a 500, and then the cookie stays.\<close>

theorem logout_endpoint:
  assumes "redis_spec up X"
  shows "\<exists>resp w'. run (LogoutHandler (NewAuthHandler X key_N key_E secure url) r) w = (Inr resp, w')
    \<and> (hp_Status resp = Some 204
        \<and> (\<exists>c. hp_Cookies resp = [c] \<and> ck_Name c = ''session_id'' \<and> ck_Value c = []
            \<and> ck_Path c = ''/'' \<and> ck_MaxAge c < 0)
        \<and> (case map_of (hr_Cookies r) ''session_id'' of
             None \<Rightarrow> w' = w
           | Some v \<Rightarrow> session_of X w' v = None
               \<and> (\<forall>j. j = v \<or> session_at X w' j = session_at X w j))
      \<or> \<not> up \<and> map_of (hr_Cookies r) ''session_id'' \<noteq> None
        \<and> hp_Status resp = Some 500 \<and> hp_Cookies resp = [])"
proof (cases "map_of (hr_Cookies r) ''session_id''")
  case None
  then show ?thesis
    by (simp add: LogoutHandler_def SessionCookieName_def NewAuthHandler_def logged_out_def
        WriteHeader_def cleared_cookie_def)
next
  case (Some v)
  have X: "redis_ok X" using assms spec_up_ok(1) [of X] by (cases up) simp_all
  obtain res w' where run: "run (Logout X v) w = (res, w')" by fastforce
  let ?resp = "case res of Inl err \<Rightarrow> internal_error | Inr _ \<Rightarrow> logged_out secure"
  have out: "res = Inr () \<or> \<not> up \<and> (\<exists>e. res = Inl (wrap ''SessionRepository.Destroy'' e))"
    and gone: "res = Inr () \<Longrightarrow> session_of X w' v = None"
    and other: "res = Inr () \<Longrightarrow> j \<noteq> v \<Longrightarrow> session_at X w' j = session_at X w j" for j
  proof -
    show "res = Inr () \<or> \<not> up \<and> (\<exists>e. res = Inl (wrap ''SessionRepository.Destroy'' e))"
    proof (cases "v = []")
      case False
      with run have d: "run (Session_Destroy X v) w = (res, w')" by (simp add: Logout_def)
      then have "res = Inr () \<or> (\<exists>e. res = Inl (wrap ''SessionRepository.Destroy'' e))"
        by (auto simp: Session_Destroy_def split: prod.splits sum.splits)
      with Session_Destroy_cases [OF assms d] show ?thesis by auto
    qed (use run in \<open>simp add: Logout_def\<close>)
    show "session_of X w' v = None" if "res = Inr ()"
      using run that sessions.destroy_Inr [OF X]
      by (auto simp: Logout_def session_of_def split: if_splits)
    show "session_at X w' j = session_at X w j" if "res = Inr ()" "j \<noteq> v"
      using run that sessions.destroy_other [OF X]
      by (auto simp: Logout_def split: if_splits)
  qed
  have "run (LogoutHandler (NewAuthHandler X key_N key_E secure url) r) w = (Inr ?resp, w')"
    using Some run out by (auto simp: LogoutHandler_def SessionCookieName_def NewAuthHandler_def run_call)
  then show ?thesis
    using Some out gone other
    by (auto simp: logged_out_def WriteHeader_def cleared_cookie_def SessionCookieName_def)
qed

theorem logout_endpoint_witness:
  "\<exists>resp w'. run (LogoutHandler (NewAuthHandler ref_ext 15 3 True ''/login'')
      (authorize_get\<lparr>hr_Cookies := [(''session_id'', ''s1'')]\<rparr>)) user_world = (Inr resp, w')
    \<and> hp_Status resp = Some 204 \<and> session_of ref_ext w' ''s1'' = None"
  using logout_endpoint [OF ref_ok(1) [where up = True], of 15 3 True "''/login''"
      "authorize_get\<lparr>hr_Cookies := [(''session_id'', ''s1'')]\<rparr>" user_world]
  by auto

section \<open>The token endpoint\<close>

text \<open>Where a client presents its identifier: in a Basic header or in the form, not in both.\<close>

definition presented :: "http_request \<Rightarrow> token_request option" where
  "presented r = (case hr_PostForm r of
     None \<Rightarrow> None
   | Some form \<Rightarrow>
       if hr_Authorization r = []
       then (if vals_get form ''client_id'' = [] then None else Some (ParseTokenRequest form))
       else (case BasicAuth r of
         None \<Rightarrow> None
       | Some (i, s) \<Rightarrow>
           if vals_get form ''client_id'' \<noteq> [] \<or> vals_get form ''client_secret'' \<noteq> [] then None
           else Some ((ParseTokenRequest form)\<lparr>tq_ClientID := i, tq_ClientSecret := s\<rparr>)))"

definition no_client :: "http_request \<Rightarrow> bool" where
  "no_client r \<longleftrightarrow> (\<exists>form. hr_PostForm r = Some form
     \<and> (if hr_Authorization r = [] then vals_get form ''client_id'' = [] else BasicAuth r = None))"

lemma BasicAuth_absent: "hr_Authorization r = [] \<Longrightarrow> BasicAuth r = None"
  by (simp add: BasicAuth_def lower_def)

lemma resolveClient_cases:
  assumes "hr_PostForm r = Some form"
  shows "resolveClient r (ParseTokenRequest form) = Inr (i, s)
      \<Longrightarrow> presented r = Some ((ParseTokenRequest form)\<lparr>tq_ClientID := i, tq_ClientSecret := s\<rparr>)
        \<and> \<not> no_client r"
    and "resolveClient r (ParseTokenRequest form) = Inl e
      \<Longrightarrow> presented r = None \<and> e \<in> {''invalid_client'', ''invalid_request''}
        \<and> (e = ''invalid_client'' \<longleftrightarrow> no_client r)"
  using assms BasicAuth_absent [of r]
  by (auto simp: resolveClient_def presented_def no_client_def ParseTokenRequest_def Let_def
      split: option.splits if_splits)

lemma exchange_no_panic:
  assumes "exchange_rule X w req = Inl e"
  shows "e \<noteq> Panic msg" "\<not> err_is e ErrUnauthorizedClient" "\<not> err_is e ErrInvalidScope"
    "err_is e ErrInvalidClient \<longleftrightarrow> e = ErrInvalidClient"
  using assms by (auto simp: exchange_rule_def split: if_splits option.splits)

text \<open>Every response of the endpoint: JSON that no cache may keep.\<close>

definition uncached_json :: "http_response \<Rightarrow> bool" where
  "uncached_json resp \<longleftrightarrow> hp_Cookies resp = [] \<and> hp_Header resp ''Location'' = None
     \<and> hp_Header resp ''Content-Type'' = Some ''application/json''
     \<and> hp_Header resp ''Cache-Control'' = Some ''no-store'' \<and> hp_Header resp ''Pragma'' = Some ''no-cache''"

text \<open>An error response of RFC 6749: its status, its code, and the challenge of a 401.\<close>

definition oauth_error :: "http_response \<Rightarrow> nat \<Rightarrow> gostring \<Rightarrow> bool" where
  "oauth_error resp st code \<longleftrightarrow> hp_Status resp = Some st
     \<and> (\<exists>rest. hp_Body resp = json_text (JObj ((''error'', JStr code) # rest)) @ [CHR 0x0A])
     \<and> hp_Header resp ''Www-Authenticate'' = (if st = 401 then Some ''Basic realm=\"oauth2\"'' else None)"

lemma oauth_errorI:
  assumes "w = noStore new_response \<or> w = noStore (challenge new_response)"
    and "st = 401 \<longleftrightarrow> w = noStore (challenge new_response)"
    and "j = JObj ((''error'', JStr code) # rest)"
  shows "uncached_json (WriteJSON st (Some j) w)" "oauth_error (WriteJSON st (Some j) w) st code"
  using assms
  by (auto simp: uncached_json_def oauth_error_def noStore_def challenge_def simp del: json_text.simps)

lemma challenge_differs: "noStore (challenge new_response) \<noteq> noStore new_response"
proof
  assume "noStore (challenge new_response) = noStore new_response"
  then have "hp_Header (noStore (challenge new_response)) ''Www-Authenticate''
      = hp_Header (noStore new_response) ''Www-Authenticate''" by simp
  then show False by (simp add: noStore_def challenge_def)
qed

lemma token_error:
  "uncached_json (writeTokenError 400 code d new_response)"
  "uncached_json (writeTokenError 401 code d (challenge new_response))"
  "oauth_error (writeTokenError 400 code d new_response) 400 code"
  "oauth_error (writeTokenError 401 code d (challenge new_response)) 401 code"
  unfolding writeTokenError_def
  by (rule oauth_errorI; simp add: challenge_differs [symmetric] token_error_json_def)+

lemma validation_error:
  "uncached_json (writeValidationError errs (noStore new_response))"
  "oauth_error (writeValidationError errs (noStore new_response)) 400 ''invalid_request''"
  unfolding writeValidationError_def
  by (rule oauth_errorI; simp add: challenge_differs [symmetric] validation_error_json_def)+

lemma exchange_error:
  "uncached_json (writeTokenExchangeError e new_response)"
  "e \<noteq> ErrInvalidClient \<Longrightarrow> exchange_rule X w req = Inl e \<Longrightarrow>
    \<exists>code \<in> {''unsupported_grant_type'', ''invalid_grant''}. oauth_error (writeTokenExchangeError e new_response) 400 code"
  "oauth_error (writeTokenExchangeError ErrInvalidClient new_response) 401 ''invalid_client''"
  using exchange_no_panic(2-4) [of X w req e]
  by (auto simp: writeTokenExchangeError_def token_error)

text \<open>C4: The token endpoint answers by the rules, whatever the request: it always writes JSON with the
  headers against caching, sets no cookie and never redirects.  While the servers are up, in a
  state the service can reach and with an unused identifier for the refresh token row, the answer is 200 with both tokens exactly when the client presents
  itself in one place, the form is valid and the rules of the exchange grant the tokens; 401 with
  a challenge and \<open>invalid_client\<close> exactly when the client cannot be identified or does not
  authenticate; otherwise 400 with \<open>invalid_request\<close>, \<open>unsupported_grant_type\<close> or
  \<open>invalid_grant\<close>.  The codes \<open>unauthorized_client\<close> and \<open>invalid_scope\<close> never occur.\<close>

theorem token_endpoint_by_rules:
  assumes "redis_spec True X" "mysql_spec True X" "columns_ok X" "library_ok X"
    and "reachable X w" "token_id_unused X w"
  shows "\<exists>resp w'. run (TokenHandler H (NewAuthHandler X key_N key_E secure url) r) w = (Inr resp, w')
    \<and> uncached_json resp
    \<and> (let answer = (\<lambda>v. \<exists>req. presented r = Some req \<and> Token_Validate H req = None
          \<and> exchange_rule X w req = v) in
        if \<exists>tr. answer (Inr tr)
        then \<exists>tr. answer (Inr tr) \<and> hp_Status resp = Some 200
          \<and> hp_Body resp = json_text (token_response_json tr) @ [CHR 0x0A]
        else if no_client r \<or> answer (Inl ErrInvalidClient) then oauth_error resp 401 ''invalid_client''
        else \<exists>code \<in> {''invalid_request'', ''unsupported_grant_type'', ''invalid_grant''}.
          oauth_error resp 400 code)"
proof -
  have "inv X w"
    using reachable_inv [OF assms(5)] assms(3,4) spec_up_ok(1) [OF assms(1)]
      spec_up_ok(2) [OF assms(2)] by (simp add: env_ok_def)
  note rule = exchange_answer [OF assms(1-4) this assms(6)]
  let ?h = "NewAuthHandler X key_N key_E secure url"
  show ?thesis
  proof (cases "hr_PostForm r")
    case None
    then show ?thesis
      using token_error(1,3) by (simp add: TokenHandler_def presented_def no_client_def)
  next
    case form: (Some form)
    note C = resolveClient_cases [OF form]
    show ?thesis
    proof (cases "resolveClient r (ParseTokenRequest form)")
      case (Inl e)
      with C(2) show ?thesis
        using token_error by (auto simp: TokenHandler_def form Let_def)
    next
      case (Inr cred)
      obtain i s where cred: "cred = (i, s)" by fastforce
      let ?req = "(ParseTokenRequest form)\<lparr>tq_ClientID := i, tq_ClientSecret := s\<rparr>"
      have p: "presented r = Some ?req" "\<not> no_client r" using C(1) Inr cred by auto
      show ?thesis
      proof (cases "Token_Validate H ?req")
        case (Some errs)
        then show ?thesis
          using p validation_error by (simp add: TokenHandler_def form Inr cred Let_def)
      next
        case None
        obtain res w' where run: "run (Exchange X ?req) w = (res, w')" by fastforce
        with rule [of ?req] have res: "exchange_rule X w ?req = res" by simp
        have no_panic: "res \<noteq> Inl (Panic msg)" for msg using exchange_no_panic(1) res by blast
        let ?resp = "case res of Inl err \<Rightarrow> writeTokenExchangeError err new_response
          | Inr resp \<Rightarrow> WriteJSON 200 (Some (token_response_json resp)) (noStore new_response)"
        have "run (TokenHandler H ?h r) w = (Inr ?resp, w')"
          using run None no_panic
          by (auto simp: TokenHandler_def form Inr cred Let_def NewAuthHandler_def run_call
              split: sum.split goerr.split)
        moreover have "\<exists>tr. res = Inr tr \<Longrightarrow> uncached_json ?resp"
          by (auto simp: uncached_json_def noStore_def)
        moreover have "res = Inl e \<Longrightarrow> e \<noteq> ErrInvalidClient \<Longrightarrow>
            \<exists>code \<in> {''unsupported_grant_type'', ''invalid_grant''}.
              oauth_error (writeTokenExchangeError e new_response) 400 code" for e
          using exchange_error(2) res by blast
        ultimately show ?thesis
          using p None res exchange_error(1,3) by (cases res) (auto simp: Let_def noStore_def)
      qed
    qed
  qed
qed

definition token_post :: http_request where
  "token_post = \<lparr>hr_Method = ''POST'', hr_URL = zero_url\<lparr>u_Path := ''/oauth/token''\<rparr>,
     hr_Authorization = [], hr_Cookies = [], hr_Body = [],
     hr_PostForm = Some [(''grant_type'', [''password'']), (''client_id'', [''c1''])]\<rparr>"

theorem token_endpoint_by_rules_witness:
  "\<exists>resp w'. run (TokenHandler ref_web (NewAuthHandler ref_ext 15 3 True ''/login'') token_post) ref_world
      = (Inr resp, w')
    \<and> uncached_json resp \<and> hp_Status resp = Some 400"
proof -
  let ?req = "(sample_exchange [])\<lparr>tq_GrantType := ''password'', tq_RedirectURI := [], tq_CodeVerifier := []\<rparr>"
  have r: "reachable ref_ext ref_world"
    by (rule start) (simp add: initial_def store_def tables_of_def ref_tables_def)
  have u: "token_id_unused ref_ext ref_world"
    by (simp add: token_id_unused_def tables_of_def ref_tables_def)
  have p: "presented token_post = Some ?req" "\<not> no_client token_post"
    by (simp_all add: presented_def no_client_def token_post_def ParseTokenRequest_def vals_get_def
        sample_exchange_def)
  have "exchange_rule ref_ext ref_world ?req = Inl ErrUnsupportedGrantType"
    by (simp add: exchange_rule_def)
  with token_endpoint_by_rules [OF ref_ok(1-4) r u, of ref_web 15 3 True "''/login''" token_post] p
  show ?thesis by (auto simp: Let_def oauth_error_def)
qed

section \<open>What validation reports\<close>

lemma collect_errors_keys: "fst ` set (collect_errors fes out) = fst ` set out \<union> fe_Field ` set fes"
proof (induction fes arbitrary: out)
  case (Cons fe fes)
  show ?case by (simp add: Cons.IH) blast
qed simp

definition reported :: "(gostring \<times> gostring) list option \<Rightarrow> gostring set" where
  "reported errs = (case errs of None \<Rightarrow> {} | Some es \<Rightarrow> fst ` set es)"

lemma reported_Struct:
  assumes "validator_ok H"
  shows "k \<in> reported (validate_Struct H fs) \<longleftrightarrow> (\<exists>f \<in> set fs. k = field_name f
    \<and> first_failure fs (validateRedirectURI H) (split_on (CHR '','') (sf_validate f)) (sf_Value f) \<noteq> None)"
proof -
  have "reported (validate_Struct H fs) = fe_Field ` set (sem_struct field_name (validateRedirectURI H) fs)"
    using assms collect_errors_keys [of _ "[]"]
    by (auto simp: reported_def validate_Struct_def validator_ok_def Let_def)
  moreover have "fe_Field ` set (case err of None \<Rightarrow> []
      | Some (tag, param) \<Rightarrow> [\<lparr>fe_Field = x, fe_Tag = tag, fe_Param = param\<rparr>]) = (if err = None then {} else {x})"
    for err and x :: gostring
    by (cases err) auto
  ultimately show ?thesis
    unfolding sem_struct_def set_concat image_UN set_map by (auto split: if_splits)
qed

text \<open>The parameters that are wrong, read off the two requests.\<close>

definition authorize_faults :: "web \<Rightarrow> authorize_request \<Rightarrow> gostring set" where
  "authorize_faults H r = {k.
       k = ''response_type'' \<and> aq_ResponseType r \<noteq> ''code''
     \<or> k = ''client_id'' \<and> (aq_ClientID r = [] \<or> 255 < length (runes (aq_ClientID r)))
     \<or> k = ''redirect_uri'' \<and> (aq_RedirectURI r = [] \<or> \<not> validateRedirectURI H (aq_RedirectURI r))
     \<or> k = ''state'' \<and> (aq_State r = [] \<or> length (runes (aq_State r)) \<notin> {8..512})
     \<or> k = ''code_challenge'' \<and> (aq_CodeChallenge r = [] \<or> length (runes (aq_CodeChallenge r)) \<notin> {43..128})
     \<or> k = ''code_challenge_method'' \<and> aq_CodeChallengeMethod r \<noteq> ''S256''
     \<or> k = ''access_type'' \<and> aq_AccessType r \<notin> {'''', ''online'', ''offline''}}"

definition token_faults :: "token_request \<Rightarrow> gostring set" where
  "token_faults r = (let code_grant = (tq_GrantType r = ''authorization_code'') in {k.
       k = ''grant_type'' \<and> tq_GrantType r = []
     \<or> k = ''code'' \<and> code_grant \<and> tq_Code r = []
     \<or> k = ''redirect_uri'' \<and> code_grant \<and> tq_RedirectURI r = []
     \<or> k = ''code_verifier'' \<and> (if tq_CodeVerifier r = [] then code_grant
         else length (runes (tq_CodeVerifier r)) \<notin> {43..128})
     \<or> k = ''refresh_token'' \<and> tq_GrantType r = ''refresh_token'' \<and> tq_RefreshToken r = []})"

lemma field_name_form: "CHR '','' \<notin> set form \<Longrightarrow> form \<noteq> [] \<Longrightarrow> form \<noteq> ''-'' \<Longrightarrow>
  field_name (tagged n form v x) = form"
  by (simp add: field_name_def cut_none)

lemma tag_failures:
  "first_failure fs rr (split_on (CHR '','') ''required,oneof=code'') v = None \<longleftrightarrow> v = ''code''"
  "first_failure fs rr (split_on (CHR '','') ''required,max=255'') v = None
    \<longleftrightarrow> v \<noteq> [] \<and> length (runes v) \<le> 255"
  "first_failure fs rr (split_on (CHR '','') ''required,redirect_uri'') v = None \<longleftrightarrow> v \<noteq> [] \<and> rr v"
  "first_failure fs rr (split_on (CHR '','') ''required,min=8,max=512'') v = None
    \<longleftrightarrow> v \<noteq> [] \<and> length (runes v) \<in> {8..512}"
  "first_failure fs rr (split_on (CHR '','') ''required,min=43,max=128'') v = None
    \<longleftrightarrow> v \<noteq> [] \<and> length (runes v) \<in> {43..128}"
  "first_failure fs rr (split_on (CHR '','') ''required,oneof=S256'') v = None \<longleftrightarrow> v = ''S256''"
  "first_failure fs rr (split_on (CHR '','') ''omitempty,oneof=online offline'') v = None
    \<longleftrightarrow> v \<in> {[], ''online'', ''offline''}"
  "first_failure fs rr (split_on (CHR '','') ''required'') v = None \<longleftrightarrow> v \<noteq> []"
  "first_failure fs rr (split_on (CHR '','') []) v = None"
  "first_failure fs rr (split_on (CHR '','') ''required_if=GrantType authorization_code'') v = None
    \<longleftrightarrow> (other_value fs ''GrantType'' = Some ''authorization_code'' \<longrightarrow> v \<noteq> [])"
  "first_failure fs rr (split_on (CHR '','') ''required_if=GrantType refresh_token'') v = None
    \<longleftrightarrow> (other_value fs ''GrantType'' = Some ''refresh_token'' \<longrightarrow> v \<noteq> [])"
  "first_failure fs rr (split_on (CHR '','')
      ''required_if=GrantType authorization_code,omitempty,min=43,max=128'') v = None
    \<longleftrightarrow> (if v = [] then other_value fs ''GrantType'' \<noteq> Some ''authorization_code''
      else length (runes v) \<in> {43..128})"
  unfolding tag_lists by (simp_all add: cut_def rule_holds_def digits_value_def)

lemma authorize_reported:
  assumes "validator_ok H"
  shows "reported (Authorize_Validate H a) = authorize_faults H a"
proof (rule set_eqI)
  fix k
  define fs where "fs = authorize_fields a"
  have "k \<in> reported (Authorize_Validate H a) \<longleftrightarrow> (\<exists>f \<in> set (authorize_fields a). k = field_name f
    \<and> first_failure fs (validateRedirectURI H) (split_on (CHR '','') (sf_validate f)) (sf_Value f)
        \<noteq> None)"
    unfolding Authorize_Validate_def fs_def by (rule reported_Struct [OF assms])
  also have "\<dots> \<longleftrightarrow> k \<in> authorize_faults H a"
    by (simp add: authorize_fields_def field_name_form tag_failures authorize_faults_def not_le
        del: split_on.simps not_None_eq)
  finally show "k \<in> reported (Authorize_Validate H a) \<longleftrightarrow> k \<in> authorize_faults H a" .
qed

lemma token_reported:
  assumes "validator_ok H"
  shows "reported (Token_Validate H a) = token_faults a"
proof (rule set_eqI)
  fix k
  define fs where "fs = token_fields a"
  have g: "other_value fs ''GrantType'' = Some (tq_GrantType a)"
    by (simp add: fs_def other_value_def token_fields_def)
  have "k \<in> reported (Token_Validate H a) \<longleftrightarrow> (\<exists>f \<in> set (token_fields a). k = field_name f
    \<and> first_failure fs (validateRedirectURI H) (split_on (CHR '','') (sf_validate f)) (sf_Value f)
        \<noteq> None)"
    unfolding Token_Validate_def fs_def by (rule reported_Struct [OF assms])
  also have "\<dots> \<longleftrightarrow> k \<in> token_faults a"
    by (simp add: token_fields_def field_name_form tag_failures token_faults_def g Let_def
        del: split_on.simps not_None_eq)
  finally show "k \<in> reported (Token_Validate H a) \<longleftrightarrow> k \<in> token_faults a" .
qed

lemma reported_None: "validator_ok H \<Longrightarrow> validate_Struct H fs = None \<longleftrightarrow> reported (validate_Struct H fs) = {}"
proof -
  assume "validator_ok H"
  have "validate_Struct H fs \<noteq> Some []"
    using collect_errors_nonempty by (auto simp: validate_Struct_def Let_def)
  then show ?thesis by (auto simp: reported_def split: option.split)
qed

text \<open>C20: Validation reports exactly the wrong parameters, under their names on the wire: an authorization
  request passes when it asks for a code with S256, names a client, a lawful redirect URI, a state
  of 8 to 512 and a challenge of 43 to 128 characters; a token request when it has a grant type and
  what that grant needs.  Both endpoints answer a faulty request without calling a service.\<close>

theorem validation_reports_faults:
  assumes "validator_ok H"
  shows "reported (Authorize_Validate H a) = authorize_faults H a
    \<and> (Authorize_Validate H a = None \<longleftrightarrow> authorize_faults H a = {})
    \<and> reported (Token_Validate H t) = token_faults t
    \<and> (Token_Validate H t = None \<longleftrightarrow> token_faults t = {})
    \<and> (authorize_faults H (ParseAuthorizeRequest (url_query r)) \<noteq> {}
        \<longrightarrow> (\<exists>resp. run (AuthorizeHandler H h r) w = (Inr resp, w) \<and> hp_Status resp = Some 400))
    \<and> (presented r = Some t \<longrightarrow> token_faults t \<noteq> {}
        \<longrightarrow> (\<exists>resp. run (TokenHandler H h r) w = (Inr resp, w) \<and> hp_Status resp = Some 400))"
proof -
  note A = authorize_reported [OF assms] and T = token_reported [OF assms]
  have AN: "Authorize_Validate H a = None \<longleftrightarrow> authorize_faults H a = {}" for a
    using reported_None [OF assms] A [of a] by (simp add: Authorize_Validate_def)
  have TN: "Token_Validate H t = None \<longleftrightarrow> token_faults t = {}" for t
    using reported_None [OF assms] T [of t] by (simp add: Token_Validate_def)
  have "\<exists>resp. run (AuthorizeHandler H h r) w = (Inr resp, w) \<and> hp_Status resp = Some 400"
    if "authorize_faults H (ParseAuthorizeRequest (url_query r)) \<noteq> {}"
    using that AN [of "ParseAuthorizeRequest (url_query r)"]
    by (auto simp: AuthorizeHandler_def writeValidationError_def Let_def)
  moreover have "\<exists>resp. run (TokenHandler H h r) w = (Inr resp, w) \<and> hp_Status resp = Some 400"
    if p: "presented r = Some t" and f: "token_faults t \<noteq> {}"
  proof -
    obtain errs where errs: "Token_Validate H t = Some errs" using f TN by auto
    obtain form where form: "hr_PostForm r = Some form"
      using p by (auto simp: presented_def split: option.splits)
    obtain i s where c: "resolveClient r (ParseTokenRequest form) = Inr (i, s)"
      using resolveClient_cases(2) [OF form] p
      by (cases "resolveClient r (ParseTokenRequest form)") auto
    with resolveClient_cases(1) [OF form] p errs show ?thesis
      by (auto simp: TokenHandler_def form Let_def writeValidationError_def noStore_def)
  qed
  ultimately show ?thesis using A T AN TN by blast
qed

theorem validation_reports_faults_witness:
  "reported (Authorize_Validate ref_web (authorize_get_request\<lparr>aq_ResponseType := ''token'',
     aq_AccessType := ''always''\<rparr>)) = {''response_type'', ''access_type''}"
proof -
  have "authorize_faults ref_web authorize_get_request = {}"
    using authorize_reported [OF ref_web_ok, of authorize_get_request] authorize_get_valid
    by (simp add: reported_def)
  then have "authorize_faults ref_web (authorize_get_request\<lparr>aq_ResponseType := ''token'',
     aq_AccessType := ''always''\<rparr>) = {''response_type'', ''access_type''}"
    by (auto simp: authorize_faults_def authorize_get_request_def)
  then show ?thesis
    using validation_reports_faults [OF ref_web_ok, of "authorize_get_request\<lparr>aq_ResponseType := ''token'',
     aq_AccessType := ''always''\<rparr>"] by metis
qed

end
