(* ===== verification/Endpoints.thy ===== *)
theory Endpoints
  imports HttpProperties
begin

text \<open>
  The two endpoints that pass a JSON body straight to a service: the registration of a client
  and the legacy refresh.
\<close>

section \<open>Client registration over HTTP\<close>

text \<open>What the handler and the service accept: the registration names a client, at least one
  redirect URI and at least one grant type, and the server implements every grant type named.\<close>

definition acceptable :: "register_client_request \<Rightarrow> bool" where
  "acceptable req \<longleftrightarrow> rq_Name req \<noteq> [] \<and> elems (rq_RedirectURIs req) \<noteq> []
     \<and> elems (rq_GrantTypes req) \<noteq> []
     \<and> set (elems (rq_GrantTypes req)) \<subseteq> {''authorization_code'', ''refresh_token''}"

lemma sem_insert_client_error:
  "fst (sem_exec X (InsertClient i n h us ss gs f) t T) = Inl e \<Longrightarrow> \<exists>m. e = Infra m"
  by (auto simp: refused_def split: if_splits option.splits)

lemma Client_Create_error:
  assumes "mysql_spec up X" and "run (Client_Create X c) w = (Inl e, w')"
  shows "\<exists>m n. e = wrap n (Infra m)"
proof -
  let ?s = "InsertClient (cl_ID c) (cl_Name c) (cl_ClientSecretHash c)
    (StringSlice_Value (cl_RedirectURIs c)) (StringSlice_Value (cl_Scopes c))
    (StringSlice_Value (cl_GrantTypes c)) (cl_IsFirstParty c)"
  obtain e' where s: "run (sql_call (sql_exec X ?s)) w = (Inl e', w')"
    and e: "e = wrap ''ClientRepository.Create'' e'"
    using assms(2) by (auto simp: Client_Create_def split: prod.splits sum.splits)
  from run_sql_tables [OF mysql_specD(1) [OF assms(1)] s] have "\<exists>m. e' = Infra m"
    by (metis fst_conv infraE sem_insert_client_error sum.inject(1))
  with e show ?thesis by blast
qed

lemma RegisterClient_refused:
  "check_grant_types X (rq_IsPublic req) (elems (rq_GrantTypes req)) = Some e
    \<Longrightarrow> run (RegisterClient X req) w = (Inl e, w)"
  by (simp add: RegisterClient_def)

lemma RegisterClient_failed:
  assumes "mysql_spec up X" and "run (RegisterClient X req) w = (Inl e, w')"
    and "check_grant_types X (rq_IsPublic req) (elems (rq_GrantTypes req)) = None"
  shows "\<not> err_is e ErrUnsupportedGrantType" "\<not> err_is e ErrPublicClientCredentialsGrant"
    "e \<noteq> Panic m"
proof -
  obtain sec w1 where s: "run (make_secret X (rq_IsPublic req)) w = (sec, w1)" by fastforce
  note R = assms(2) [unfolded RegisterClient_def assms(3) option.case run_bind_Pair [OF s]]
  have "\<exists>m n. e = wrap n (ErrNew m) \<or> (\<exists>n'. e = wrap n (wrap n' (Infra m)))"
  proof (cases sec)
    case (Inl e')
    with R s show ?thesis
      by (auto simp: make_secret_def Let_def split: if_splits option.splits prod.splits sum.splits)
  next
    case (Inr rh)
    with R show ?thesis
      by (auto split: prod.splits sum.splits dest!: Client_Create_error [OF assms(1)])
  qed
  then show "\<not> err_is e ErrUnsupportedGrantType" "\<not> err_is e ErrPublicClientCredentialsGrant"
    "e \<noteq> Panic m"
    by auto
qed

text \<open>A registered client is what a lookup of its new identifier finds; every other lookup that
  found a client still finds the same.\<close>

lemma registered_client_at:
  assumes "columns_ok X" and "char_value i = i"
    and "tables_of X w' = (tables_of X w)\<lparr>t_clients := t_clients (tables_of X w) @ [row]\<rparr>"
    and "scan_client row = Inr c" "cr_id row = i"
    and "\<not> (\<exists>v \<in> set (t_clients (tables_of X w)). sql_eq X (cr_id v) i)"
  shows "client_at X w' i = Some c" and "client_at X w j = Some d \<Longrightarrow> client_at X w' j = Some d"
proof -
  have "sql_eq X i i" using assms(1) unfolding columns_ok_def by blast
  moreover have "client_rows X w i = None" using assms(6) by (simp add: find_None_conv)
  ultimately show "client_at X w' i = Some c"
    by (simp add: client_at_def assms(3-5) find_append)
  show "client_at X w j = Some d \<Longrightarrow> client_at X w' j = Some d"
    by (simp add: client_at_def assms(3) find_append split: option.splits)
qed

lemma mysql_of_tables: "tables_ok X \<Longrightarrow> mysql_ok X"
  by (simp add: tables_ok_def)

lemma err_is_grant:
  "check_grant_types X p gts = Some e \<Longrightarrow>
    err_is e ErrUnsupportedGrantType \<or> err_is e ErrPublicClientCredentialsGrant"
  by (auto dest: check_grant_types_Some)

lemma secret_nonempty: "length b = 32 \<Longrightarrow> base64_raw_url b \<noteq> []"
  using length_base64 [of b] by auto

lemma registered_id:
  "library_ok X \<Longrightarrow> run (RegisterClient X req) w = (Inr v, w') \<Longrightarrow> uuid_text (rp_ClientID v)"
  by (auto simp: RegisterClient_def library_ok_def split: option.splits prod.splits sum.splits)


lemma acceptable_iff:
  "acceptable req \<longleftrightarrow> rq_Name req \<noteq> [] \<and> elems (rq_RedirectURIs req) \<noteq> []
     \<and> elems (rq_GrantTypes req) \<noteq> []
     \<and> check_grant_types X (rq_IsPublic req) (elems (rq_GrantTypes req)) = None"
  by (auto simp: acceptable_def check_grant_types_None supported_grant_iff GrantClientCredentials_def)

lemma RegisterClientHandler_cases:
  assumes "mysql_spec up X"
    and "run (RegisterClientHandler (NewAuthHandler X key_N key_E secure url) r) w = (Inr resp, w')"
  obtains (refused) msg where "resp = WriteError 400 msg new_response" "w' = w"
      "\<And>req. decode_register_client (hr_Body r) = Some req \<Longrightarrow> \<not> acceptable req"
    | (failed) req e where "decode_register_client (hr_Body r) = Some req" "acceptable req"
      "run (RegisterClient X req) w = (Inl e, w')" "resp = internal_error"
    | (stored) req v where "decode_register_client (hr_Body r) = Some req" "acceptable req"
      "run (RegisterClient X req) w = (Inr v, w')"
      "resp = WriteJSON 201 (Some (register_client_json v)) new_response"
proof (cases "\<exists>req. decode_register_client (hr_Body r) = Some req \<and> acceptable req")
  case False
  then have "\<exists>msg. resp = WriteError 400 msg new_response \<and> w' = w"
    using assms(2) by (auto simp: RegisterClientHandler_def NewAuthHandler_def acceptable_iff [of _ X]
        RegisterClient_refused err_is_grant split: option.splits if_splits dest!: call_Inr
        dest: check_grant_types_Some)
  with False show thesis using refused by blast
next
  case True
  then obtain req where req: "decode_register_client (hr_Body r) = Some req" "acceptable req" by blast
  then obtain res where run: "run (RegisterClient X req) w = (res, w')"
    and resp: "resp = (case res of
        Inl err \<Rightarrow> if err_is err ErrUnsupportedGrantType \<or> err_is err ErrPublicClientCredentialsGrant
          then WriteError 400 (err_text err) new_response else internal_error
      | Inr v \<Rightarrow> WriteJSON 201 (Some (register_client_json v)) new_response)"
    using assms(2) by (auto simp: RegisterClientHandler_def NewAuthHandler_def acceptable_def
        dest!: call_Inr)
  show thesis
  proof (cases res)
    case (Inl e)
    have "check_grant_types X (rq_IsPublic req) (elems (rq_GrantTypes req)) = None"
      using req(2) acceptable_iff by blast
    with RegisterClient_failed(1,2) [OF assms(1) run [unfolded Inl]] resp Inl have "resp = internal_error"
      by simp
    with failed req run Inl show thesis by blast
  next
    case (Inr v)
    with stored req run resp show thesis by simp
  qed
qed

text \<open>An endpoint answers when no panic ends it.\<close>

definition answers :: "(('r, 'd) world, goerr + 'a) state \<Rightarrow> ('r, 'd) world \<Rightarrow> bool" where
  "answers m w \<longleftrightarrow> (\<exists>resp w'. run m w = (Inr resp, w'))"

lemma answers_ret [intro, simp]: "answers (ret (Inr v)) w"
  by (simp add: answers_def)

lemma answers_if [intro]: "answers m w \<Longrightarrow> answers m' w \<Longrightarrow> answers (if b then m else m') w"
  by simp

lemma answers_call:
  assumes "\<And>msg w'. run m w \<noteq> (Inl (Panic msg), w')"
  shows "answers (call m k) w"
proof -
  obtain r w' where r: "run m w = (r, w')" by fastforce
  with assms show ?thesis
    unfolding answers_def by (cases "\<exists>msg. r = Inl (Panic msg)")
      (auto simp: run_call r split: sum.splits goerr.splits)
qed

lemma RegisterClient_no_panic:
  assumes "mysql_spec up X"
  shows "run (RegisterClient X req) w \<noteq> (Inl (Panic msg), w')"
proof (cases "check_grant_types X (rq_IsPublic req) (elems (rq_GrantTypes req))")
  case (Some e)
  with check_grant_types_Some [OF Some] show ?thesis by (auto simp: RegisterClient_refused)
qed (use RegisterClient_failed(3) [OF assms] in blast)

lemma RegisterClientHandler_answers:
  assumes "mysql_spec up X"
  shows "answers (RegisterClientHandler (NewAuthHandler X key_N key_E secure url) r) w"
  unfolding RegisterClientHandler_def NewAuthHandler_def auth_handler.simps
  using RegisterClient_no_panic [OF assms]
  by (cases "decode_register_client (hr_Body r)") (simp, simp only: option.case, intro answers_if answers_ret answers_call)

text \<open>The client \<open>c\<close> that a registration answered by \<open>v\<close> leaves behind: found under the new
  identifier with what the request asked for, the secret in the answer authenticating it, and no
  other client changed.\<close>

definition client_registered :: "('r, 'd) ext \<Rightarrow> ('r, 'd) world \<Rightarrow> ('r, 'd) world
    \<Rightarrow> register_client_request \<Rightarrow> register_client_response \<Rightarrow> client \<Rightarrow> bool" where
  "client_registered X w w' req v c \<longleftrightarrow>
     client_at X w (rp_ClientID v) = None \<and> client_at X w' (rp_ClientID v) = Some c
     \<and> (\<forall>i d. client_at X w i = Some d \<longrightarrow> client_at X w' i = Some d)
     \<and> cl_ID c = rp_ClientID v \<and> cl_Name c = rq_Name req \<and> rp_Name v = rq_Name req
     \<and> cl_RedirectURIs c = valid_slice (rq_RedirectURIs req)
     \<and> cl_Scopes c = valid_slice (rq_Scopes req) \<and> cl_GrantTypes c = valid_slice (rq_GrantTypes req)
     \<and> cl_IsFirstParty c = rq_IsFirstParty req
     \<and> (if rq_IsPublic req then rp_ClientSecret v = [] \<and> cl_ClientSecretHash c = []
        else rp_ClientSecret v \<noteq> [] \<and> cl_ClientSecretHash c \<noteq> []
          \<and> bcrypt_matches X (cl_ClientSecretHash c) (rp_ClientSecret v))"

lemma RegisterClient_registered:
  assumes "tables_ok X" "library_ok X" and "run (RegisterClient X req) w = (Inr v, w')"
  shows "\<exists>c. client_registered X w w' req v c"
proof -
  obtain h row c where t: "tables_of X w' = (tables_of X w)\<lparr>t_clients := t_clients (tables_of X w) @ [row]\<rparr>"
    and row: "scan_client row = Inr c" "cr_id row = cl_ID c"
    and c: "c = \<lparr>cl_ID = char_value (rp_ClientID v), cl_Name = rq_Name req, cl_ClientSecretHash = h,
          cl_RedirectURIs = valid_slice (rq_RedirectURIs req), cl_Scopes = valid_slice (rq_Scopes req),
          cl_GrantTypes = valid_slice (rq_GrantTypes req), cl_IsFirstParty = rq_IsFirstParty req,
          cl_CreatedAt = sql_datetime X (sql_now X (now w))\<rparr>"
    and s: "if rq_IsPublic req then rp_ClientSecret v = [] \<and> h = []
         else h \<noteq> [] \<and> bcrypt_matches X h (rp_ClientSecret v)
           \<and> (\<exists>b. length b = 32 \<and> rp_ClientSecret v = base64_raw_url b)"
    and n: "rp_Name v = rq_Name req"
    and d: "\<not> (\<exists>v' \<in> set (t_clients (tables_of X w)). sql_eq X (cr_id v') (rp_ClientID v))"
    by (rule RegisterClient_Inr [OF assms])
  have id: "char_value (rp_ClientID v) = rp_ClientID v"
    using registered_id [OF assms(2,3)] uuid_plain by blast
  have X: "columns_ok X" using assms(1) by (simp add: tables_ok_def)
  have i: "cr_id row = rp_ClientID v" by (simp add: row(2) c id)
  note at = registered_client_at [OF X id t row(1) i d]
  have "client_rows X w (rp_ClientID v) = None" using d by (simp add: find_None_conv)
  then have none: "client_at X w (rp_ClientID v) = None" by (simp add: client_at_def)
  have sec: "if rq_IsPublic req then rp_ClientSecret v = [] \<and> h = []
      else rp_ClientSecret v \<noteq> [] \<and> h \<noteq> [] \<and> bcrypt_matches X h (rp_ClientSecret v)"
    using s secret_nonempty by (cases "rq_IsPublic req") (simp_all, metis)
  show ?thesis
    unfolding client_registered_def
  proof (intro exI conjI)
    show "client_at X w' (rp_ClientID v) = Some c" by (rule at(1))
    show "\<forall>i d. client_at X w i = Some d \<longrightarrow> client_at X w' i = Some d" using at(2) by blast
  qed (use none n sec in \<open>simp_all add: c id\<close>)
qed

text \<open>C23: \<open>POST /admin/clients\<close> asks for no credentials: the body alone decides.  It always answers,
  without a cookie and without touching Redis.  The answer is 201 only when the body was
  acceptable; then it carries the new identifier, under which the client is found with what the
  request asked for, and the secret that authenticates it exactly when it is confidential; every
  other client is found as before.  A body that is not acceptable is a 400 and changes nothing; an
  acceptable one that cannot be stored is a 500.\<close>

theorem register_client_endpoint:
  assumes "tables_ok X" "library_ok X"
  shows "\<exists>resp w'. run (RegisterClientHandler (NewAuthHandler X key_N key_E secure url) r) w = (Inr resp, w')
    \<and> hp_Cookies resp = [] \<and> store X w' = store X w
    \<and> (if \<exists>req. decode_register_client (hr_Body r) = Some req \<and> acceptable req
       then hp_Status resp = Some 500
         \<or> hp_Status resp = Some 201 \<and> (\<exists>req v c. decode_register_client (hr_Body r) = Some req
             \<and> client_registered X w w' req v c
             \<and> hp_Body resp = json_text (register_client_json v) @ [CHR 0x0A])
       else hp_Status resp = Some 400 \<and> w' = w)"
proof -
  have X: "mysql_ok X" using assms(1) by (simp add: tables_ok_def)
  obtain resp w' where run: "run (RegisterClientHandler (NewAuthHandler X key_N key_E secure url) r) w
      = (Inr resp, w')"
    using RegisterClientHandler_answers [OF X] unfolding answers_def by blast
  have st: "store X w' = store X w" if "run (RegisterClient X req) w = (res, w')" for req res
    using keeps_field_runD [OF RegisterClient_frame(2) that] by (simp add: store_def)
  from X run show ?thesis
  proof (cases rule: RegisterClientHandler_cases)
    case (stored req v)
    with RegisterClient_registered [OF assms stored(3)] run st [OF stored(3)] show ?thesis by auto
  next
    case (failed req e)
    with run st [OF failed(3)] show ?thesis by auto
  next
    case (refused msg)
    with run show ?thesis by auto
  qed
qed

definition register_post :: http_request where
  "register_post = \<lparr>hr_Method = ''POST'', hr_URL = zero_url\<lparr>u_Path := ''/admin/clients''\<rparr>,
     hr_Authorization = [], hr_Cookies = [],
     hr_Body = json_text (JObj [(''name'', JStr ''app''),
       (''redirect_uris'', JArr [JStr ''https://a/cb'']), (''scopes'', JArr [JStr ''read'']),
       (''grant_types'', JArr [JStr ''authorization_code'']), (''is_public'', JBool True)]),
     hr_PostForm = Some []\<rparr>"

lemma decode_register_post: "decode_register_client (hr_Body register_post) = Some public_request"
proof -
  have ids: "to_valid ''name'' = ''name''" "to_valid ''app'' = ''app''" "to_valid ''read'' = ''read''"
    "to_valid ''redirect_uris'' = ''redirect_uris''" "to_valid ''https://a/cb'' = ''https://a/cb''"
    "to_valid ''scopes'' = ''scopes''" "to_valid ''grant_types'' = ''grant_types''"
    "to_valid ''authorization_code'' = ''authorization_code''" "to_valid ''is_public'' = ''is_public''"
    by (rule to_valid_ascii, simp)+
  have "json_decode_stream (hr_Body register_post)
      = Some (JObj [(''name'', JStr ''app''), (''redirect_uris'', JArr [JStr ''https://a/cb'']),
          (''scopes'', JArr [JStr ''read'']), (''grant_types'', JArr [JStr ''authorization_code'']),
          (''is_public'', JBool True)])"
    unfolding register_post_def http_request.simps
    by (rule unmarshal_stream, subst json_roundtrip) (simp_all add: json_max_depth_def ids)
  then show ?thesis
    by (simp add: decode_register_client_def decode_struct_def register_client_fields_def
        find_field_def str_field_def slice_field_def bool_field_def
        decode_slice_def public_request_def)
qed

theorem register_client_endpoint_witness:
  "\<exists>resp w' v c. run (RegisterClientHandler (NewAuthHandler ref_ext 15 3 True ''/login'') register_post)
      ref_world = (Inr resp, w') \<and> hp_Status resp = Some 201
    \<and> client_registered ref_ext ref_world w' public_request v c"
proof -
  let ?run = "run (RegisterClientHandler (NewAuthHandler ref_ext 15 3 True ''/login'') register_post) ref_world"
  obtain v0 w0 where "run (RegisterClient ref_ext public_request) ref_world = (Inr v0, w0)"
    using ref_register_client by blast
  then have "?run = (Inr (WriteJSON 201 (Some (register_client_json v0)) new_response), w0)"
    by (simp add: RegisterClientHandler_def NewAuthHandler_def decode_register_post run_call)
      (simp add: public_request_def)
  then have st: "?run = (Inr resp, w') \<Longrightarrow> hp_Status resp = Some 201" for resp w'
    by auto
  have "acceptable public_request" by (simp add: acceptable_def public_request_def)
  with register_client_endpoint [OF ref_ok(5,4), of 15 3 True "''/login''" register_post ref_world] st
  show ?thesis by (auto simp: decode_register_post)
qed

section \<open>The legacy refresh over HTTP\<close>

text \<open>The token \<open>tok\<close> that the rules grant for the raw refresh token in a body.\<close>

definition refreshes :: "('r, 'd) ext \<Rightarrow> ('r, 'd) world \<Rightarrow> gostring \<Rightarrow> gostring \<Rightarrow> bool" where
  "refreshes X w raw tok \<longleftrightarrow> (\<exists>t u. token_by_hash X w (hex (sha256 raw)) = Some t
     \<and> now w \<le> rt_ExpiresAt t \<and> user_by_id X w (rt_UserID t) = Some u
     \<and> jwt_sign X \<lparr>ic_UserID = us_ID u, ic_Email = us_Email u, ic_ClientID = rt_ClientID t,
         ic_Scope = join (elems (rt_Scope t)) '' '', ic_ID = new_uuid X (draws w),
         ic_IssuedAt = now w, ic_ExpiresAt = now w + 15 * 60 * second\<rparr> = Some tok)"

lemma refreshes_iff: "refreshes X w raw tok \<longleftrightarrow> (\<exists>t u. token_by_hash X w (hashToken raw) = Some t
     \<and> now w \<le> rt_ExpiresAt t \<and> user_by_id X w (rt_UserID t) = Some u
     \<and> jwt_sign X (refreshed_claims X w t u) = Some tok)"
  by (simp add: refreshes_def hashToken_def refreshed_claims_def)

lemma RefreshToken_reads:
  assumes "mysql_spec up X"
  shows "keeps_field (tables_of X) (RefreshToken X raw)"
proof -
  have reads: "keeps_field (tables_of X) (Token_GetTokenByHash X h)" "keeps_field (tables_of X) (User_GetByID X i)"
    for h i
    by (simp_all add: keeps_field_def sql_reads(3,4) [OF assms run_pair, unfolded same_world_def])
  have rest: "keeps_field (tables_of X) (IssueAccessToken X u e c s)" "keeps_field (tables_of X) time_Now"
    for u e c s
    by (auto simp: keeps_field_def run_IssueAccessToken tables_of_def time_Now_def run_simps split: option.splits)
  show ?thesis
    unfolding RefreshToken_def by (intro keeps_field_intros reads rest)
qed

lemma RefreshToken_granted:
  assumes "mysql_spec up X" and "run (RefreshToken X raw) w = (Inr v, w')"
  shows "refreshes X w raw (rr_AccessToken v)" "rr_AccessTokenExpiryIn v = 900"
  using RefreshToken_Inr [OF assms] unfolding refreshes_iff by blast+

lemma RefreshToken_grants:
  "mysql_spec True X \<Longrightarrow> refreshes X w raw tok \<Longrightarrow> run (RefreshToken X raw) w = (res, w')
    \<Longrightarrow> res = Inr \<lparr>rr_AccessToken = tok, rr_AccessTokenExpiryIn = 900\<rparr>"
  using RefreshToken_up(1) [of X w raw] unfolding refreshes_iff by fastforce

lemma RefreshHandler_answers:
  assumes "mysql_spec up X"
  shows "answers (RefreshHandler (NewAuthHandler X key_N key_E secure url) r) w"
  unfolding RefreshHandler_def NewAuthHandler_def auth_handler.simps
  using RefreshToken_no_panic [OF assms]
  by (cases "decode_refresh (hr_Body r)")
    (simp, simp only: option.case, intro answers_if answers_ret answers_call, blast)

lemma RefreshHandler_cases:
  assumes "run (RefreshHandler (NewAuthHandler X key_N key_E secure url) r) w = (Inr resp, w')"
  obtains (refused) msg where "resp = WriteError 400 msg new_response" "w' = w"
      "decode_refresh (hr_Body r) \<in> {None, Some []}"
    | (answered) raw res where "decode_refresh (hr_Body r) = Some raw" "raw \<noteq> []"
      "run (RefreshToken X raw) w = (res, w')"
      "resp = (case res of Inl err \<Rightarrow> internal_error
         | Inr v \<Rightarrow> WriteJSON 200 (Some (refresh_response_json v)) new_response)"
  using assms that
  by (auto simp: RefreshHandler_def NewAuthHandler_def split: option.splits if_splits dest!: call_Inr)

text \<open>C28: \<open>POST /refresh\<close> always answers and changes nothing, in Redis or in a table.  A body without a
  refresh token is a 400.  A 200 carries an access token of fifteen minutes that was signed for
  the user, client and scope of a stored row with the SHA-256 of the presented token, not yet
  expired, whose user exists; while the database is up every such row gets it.  Any other refresh
  token, unknown or expired, is a 500.\<close>

theorem refresh_endpoint:
  assumes "mysql_ok X"
  shows "\<exists>resp w'. run (RefreshHandler (NewAuthHandler X key_N key_E secure url) r) w = (Inr resp, w')
    \<and> hp_Cookies resp = [] \<and> store X w' = store X w \<and> tables_of X w' = tables_of X w
    \<and> (if decode_refresh (hr_Body r) \<in> {None, Some []} then hp_Status resp = Some 400
       else hp_Status resp = Some 500
             \<and> (mysql_spec True X \<longrightarrow> (\<nexists>tok. refreshes X w (the (decode_refresh (hr_Body r))) tok))
         \<or> hp_Status resp = Some 200
             \<and> (\<exists>tok. refreshes X w (the (decode_refresh (hr_Body r))) tok
               \<and> hp_Body resp = json_text (JObj [(''access_token'', JStr tok),
                    (''access_token_expiry'', JNum ''900'')]) @ [CHR 0x0A]))"
proof -
  obtain resp w' where run: "run (RefreshHandler (NewAuthHandler X key_N key_E secure url) r) w
      = (Inr resp, w')"
    using RefreshHandler_answers [OF assms] unfolding answers_def by blast
  then show ?thesis
  proof (cases rule: RefreshHandler_cases)
    case (answered raw res)
    have same: "store X w' = store X w" "tables_of X w' = tables_of X w"
      using keeps_field_runD [OF Auth_frame(8) answered(3)]
        keeps_field_runD [OF RefreshToken_reads [OF assms] answered(3)]
      by (simp_all add: store_def)
    have "itoa 900 = ''900''" by code_simp
    with answered RefreshToken_granted [OF assms] RefreshToken_grants [OF _ _ answered(3)] same run
    show ?thesis by (cases res) (force simp: refresh_response_json_def)+
  qed (use run in auto)
qed

text \<open>A revoked token that has not expired is still answered with 200.\<close>

definition refresh_post :: http_request where
  "refresh_post = \<lparr>hr_Method = ''POST'', hr_URL = zero_url\<lparr>u_Path := ''/refresh''\<rparr>,
     hr_Authorization = [], hr_Cookies = [],
     hr_Body = json_text (JObj [(''refresh_token'', JStr ''raw'')]), hr_PostForm = Some []\<rparr>"

lemma decode_refresh_post: "decode_refresh (hr_Body refresh_post) = Some ''raw''"
proof -
  have ids: "to_valid ''refresh_token'' = ''refresh_token''" "to_valid ''raw'' = ''raw''"
    by (rule to_valid_ascii, simp)+
  have "json_decode_stream (hr_Body refresh_post) = Some (JObj [(''refresh_token'', JStr ''raw'')])"
    unfolding refresh_post_def http_request.simps
    by (rule unmarshal_stream, subst json_roundtrip) (simp_all add: json_max_depth_def ids)
  then show ?thesis
    by (simp add: decode_refresh_def decode_struct_def find_field_def str_field_def)
qed

theorem refresh_endpoint_witness:
  "\<exists>resp w'. run (RefreshHandler (NewAuthHandler ref_ext 15 3 True ''/login'') refresh_post) revoked_world
      = (Inr resp, w') \<and> hp_Status resp = Some 200 \<and> tables_of ref_ext w' = tables_of ref_ext revoked_world"
proof -
  obtain t tok where t: "token_by_hash ref_ext revoked_world (hashToken ''raw'') = Some t"
    "rt_RevokedAt t = Some 0" "now revoked_world \<le> rt_ExpiresAt t"
    "user_by_id ref_ext revoked_world (rt_UserID t) = Some sample_user"
    "jwt_sign ref_ext (refreshed_claims ref_ext revoked_world t sample_user) = Some tok"
    by (rule revoked_world_row)
  then have "refreshes ref_ext revoked_world ''raw'' tok" by (auto simp: refreshes_iff)
  with refresh_endpoint [OF ref_ok(2), of 15 3 True "''/login''" refresh_post revoked_world] ref_ok(2)
  show ?thesis by (auto simp: decode_refresh_post)
qed

end
