(* ===== verification/Threads.thy ===== *)
theory Threads
  imports Prelude
begin

text \<open>
  Requests in progress.  A \<open>thread\<close> is what is left of a request: an answer, or the next atomic
  action on the shared state together with what follows it.  Between two actions of one thread
  any other thread may act.  \<open>guarded\<close> is the rely-guarantee argument for one thread: every
  action, taken in any state the others can have made of the present one, changes the state only
  as \<open>R\<close> allows and leads to a thread that is guarded in turn.
\<close>

section \<open>Threads\<close>

datatype ('s, 'a) thread = Done 'a | Act "'s \<Rightarrow> ('s, 'a) thread \<times> 's"

text \<open>One action of the world, and one thread after another.\<close>

definition atomic :: "('s, 'a) state \<Rightarrow> ('s, 'a) thread" where
  "atomic m = Act (\<lambda>s. case run m s of (x, s') \<Rightarrow> (Done x, s'))"

primrec andthen :: "('s, 'a) thread \<Rightarrow> ('a \<Rightarrow> ('s, 'b) thread) \<Rightarrow> ('s, 'b) thread" where
  "andthen (Done x) g = g x"
| "andthen (Act f) g = Act (\<lambda>s. map_prod (\<lambda>p. andthen p g) id (f s))"

abbreviation perform :: "('s, 'a) state \<Rightarrow> ('a \<Rightarrow> ('s, 'b) thread) \<Rightarrow> ('s, 'b) thread" where
  "perform m g \<equiv> andthen (atomic m) g"

text \<open>A thread that is never interrupted.\<close>

primrec alone :: "('s, 'a) thread \<Rightarrow> ('s, 'a) state" where
  "alone (Done x) = ret x"
| "alone (Act f) = State (\<lambda>s. case map_prod alone id (f s) of (m, s') \<Rightarrow> run m s')"

lemma run_alone_Act [simp]: "run (alone (Act f)) s = (case f s of (p, s') \<Rightarrow> run (alone p) s')"
  by (simp split: prod.split)

lemma run_alone_Done [simp]: "run (alone (Done x)) s = (x, s)"
  by simp

declare alone.simps [simp del]

lemma run_alone_atomic [simp]: "run (alone (atomic m)) s = run m s"
  by (simp add: atomic_def split: prod.split)

lemma run_alone_andthen [simp]:
  "run (alone (andthen p g)) s = (case run (alone p) s of (x, s') \<Rightarrow> run (alone (g x)) s')"
proof (induction p arbitrary: s)
  case (Act f)
  obtain p s' where f: "f s = (p, s')" by fastforce
  then have "p \<in> Basic_BNFs.fsts (f s)" by (simp add: prod_set_defs)
  from Act.IH [OF rangeI this] show ?case by (simp add: f)
qed simp

section \<open>How many actions are left\<close>

inductive within :: "nat \<Rightarrow> ('s, 'a) thread \<Rightarrow> bool" where
  finished: "within n (Done x)"
| acts: "(\<And>s. within n (fst (f s))) \<Longrightarrow> within (Suc n) (Act f)"

inductive_cases within_ActE: "within n (Act f)"

lemma within_atomic: "within (Suc n) (atomic m)"
  unfolding atomic_def by (rule acts) (simp add: within.finished split: prod.split)

lemma within_mono: "within n p \<Longrightarrow> n \<le> m \<Longrightarrow> within m p"
proof (induction arbitrary: m rule: within.induct)
  case (acts n f)
  then obtain m' where "m = Suc m'" "n \<le> m'" by (cases m) auto
  with acts.IH show ?case by (auto intro: within.acts)
qed (rule within.finished)

lemma within_andthen: "within n p \<Longrightarrow> (\<And>x. within m (g x)) \<Longrightarrow> within (n + m) (andthen p g)"
proof (induction rule: within.induct)
  case (finished n x)
  from within_mono [where m = "n + m" and p = "g x", OF finished] show ?case by simp
next
  case (acts n f)
  then show ?case by (auto simp: case_prod_beta intro!: within.acts)
qed

section \<open>Rely and guarantee\<close>

inductive guarded ::
  "('s \<Rightarrow> 's \<Rightarrow> bool) \<Rightarrow> ('s \<Rightarrow> 'a \<Rightarrow> bool) \<Rightarrow> 's \<Rightarrow> ('s, 'a) thread \<Rightarrow> bool"
  for R Q where
  finished: "Q s x \<Longrightarrow> guarded R Q s (Done x)"
| acts: "(\<And>s1. R s s1 \<Longrightarrow> R s1 (snd (f s1)) \<and> guarded R Q (snd (f s1)) (fst (f s1)))
    \<Longrightarrow> guarded R Q s (Act f)"

inductive_cases guarded_DoneE [elim!]: "guarded R Q s (Done x)"
inductive_cases guarded_ActE: "guarded R Q s (Act f)"

lemma guarded_step:
  assumes "guarded R Q s (Act f)" "R s s1" "f s1 = (p, s')"
  shows "R s1 s'" "guarded R Q s' p"
  using assms by (auto elim!: guarded_ActE dest!: meta_spec [of _ s1])

lemma guarded_rely:
  assumes "guarded R Q s p" "R s s1" "transp R"
    and "\<And>s s1 x. R s s1 \<Longrightarrow> Q s x \<Longrightarrow> Q s1 x"
  shows "guarded R Q s1 p"
  using assms(1)
proof (cases rule: guarded.cases)
  case (finished x)
  then show ?thesis using assms(2,4) by (auto intro: guarded.finished)
next
  case (acts f)
  show ?thesis
    unfolding acts(1) using acts(2) transpD [OF assms(3,2)] by (intro guarded.acts) blast
qed

lemma guarded_weaken:
  "guarded R P s p \<Longrightarrow> (\<And>s x. P s x \<Longrightarrow> Q s x) \<Longrightarrow> guarded R Q s p"
  by (induction rule: guarded.induct) (auto intro: guarded.intros)

lemma guarded_andthen:
  "guarded R P s p \<Longrightarrow> (\<And>s x. P s x \<Longrightarrow> guarded R Q s (g x)) \<Longrightarrow> guarded R Q s (andthen p g)"
proof (induction rule: guarded.induct)
  case (acts s f)
  show ?case
    unfolding andthen.simps
  proof (rule guarded.acts)
    fix s1 assume "R s s1"
    from acts.IH [OF this] acts.prems
    show "R s1 (snd (map_prod (\<lambda>p. andthen p g) id (f s1)))
        \<and> guarded R Q (snd (map_prod (\<lambda>p. andthen p g) id (f s1))) (fst (map_prod (\<lambda>p. andthen p g) id (f s1)))"
      by (simp add: case_prod_beta)
  qed
qed simp

lemma guarded_atomic:
  "(\<And>s1 x s'. R s s1 \<Longrightarrow> run m s1 = (x, s') \<Longrightarrow> R s1 s' \<and> Q s' x) \<Longrightarrow> guarded R Q s (atomic m)"
  unfolding atomic_def
  by (rule guarded.acts) (auto intro: guarded.finished split: prod.split)

section \<open>What a thread promises\<close>

text \<open>As long as its own actions are as \<open>R\<close> says, whatever the others do between them, the thread
  answers only what \<open>Q\<close> allows.\<close>

inductive promises :: "('s \<Rightarrow> 's \<Rightarrow> bool) \<Rightarrow> ('a \<Rightarrow> bool) \<Rightarrow> ('s, 'a) thread \<Rightarrow> bool" for R Q where
  finished: "Q x \<Longrightarrow> promises R Q (Done x)"
| acts: "(\<And>s. R s (snd (f s)) \<longrightarrow> promises R Q (fst (f s))) \<Longrightarrow> promises R Q (Act f)"

inductive_simps promises_Done [simp]: "promises R Q (Done x)"
inductive_simps promises_Act: "promises R Q (Act f)"

lemma promises_andthen:
  "promises R P p \<Longrightarrow> (\<And>x. P x \<Longrightarrow> promises R Q (g x)) \<Longrightarrow> promises R Q (andthen p g)"
  by (induction rule: promises.induct) (auto simp: promises_Act)

lemma promises_any: "promises R (\<lambda>x. True) p"
proof (induction p)
  case (Act f)
  have "promises R (\<lambda>x. True) (fst (f s))" for s
    by (rule Act.IH [OF rangeI]) (simp add: prod_set_defs)
  then show ?case by (simp add: promises_Act)
qed simp

lemma promises_then: "(\<And>x. promises R Q (g x)) \<Longrightarrow> promises R Q (andthen p g)"
  by (rule promises_andthen [OF promises_any])

lemma promises_atomic:
  "(\<And>s x s'. run m s = (x, s') \<Longrightarrow> R s s' \<Longrightarrow> Q x) \<Longrightarrow> promises R Q (atomic m)"
  unfolding atomic_def by (simp add: promises_Act split: prod.split)

lemma promises_perform:
  "(\<And>s x s'. run m s = (x, s') \<Longrightarrow> R s s' \<Longrightarrow> promises R Q (g x)) \<Longrightarrow> promises R Q (perform m g)"
  unfolding atomic_def by (simp add: promises_Act split: prod.split)

end
