(* ===== verification/Interleaved.thy ===== *)
theory Interleaved
  imports Threads Service
begin

text \<open>
  The service with its requests side by side.  Each operation is written as a thread that stops at
  every look at the clock, every random draw and every call of MySQL or Redis, since any other
  request may act there.  A thread that is left alone computes what the operation does
  (\<open>serve_alone\<close>); \<open>interleaved\<close> is every state and every set of requests in progress that the
  service can come to, in whatever order the requests are interrupted.
\<close>

section \<open>The operations as threads\<close>

type_synonym ('r, 'd, 'a) request_thread = "(('r, 'd) world, goerr + 'a) thread"

definition Session_Create_thread ::
  "('r, 'd) ext \<Rightarrow> gostring \<Rightarrow> gostring \<Rightarrow> ('r, 'd, gostring \<times> gotime) request_thread" where
  "Session_Create_thread X userID email =
     perform (draw (new_uuid X)) (\<lambda>sessionID.
     perform time_Now (\<lambda>created.
     case marshal_session (time_text X)
            \<lparr>se_UserID = userID, se_Email = email, se_CreatedAt = created\<rparr> of
       None \<Rightarrow> Done (Inl (wrap ''SessionRepository.Create marshal'' (ErrNew ''json'')))
     | Some payload \<Rightarrow>
         perform (Cache_Set X (sessionKeyPrefix @ sessionID) payload sessionTTL) (\<lambda>r.
         case r of
           Inl e \<Rightarrow> Done (Inl (wrap ''SessionRepository.Create'' e))
         | Inr _ \<Rightarrow> perform time_Now (\<lambda>t. Done (Inr (sessionID, t + sessionTTL))))))"

definition AuthCode_Create_thread ::
  "('r, 'd) ext \<Rightarrow> auth_code \<Rightarrow> ('r, 'd, gostring) request_thread" where
  "AuthCode_Create_thread X data =
     perform (draw (rand32 X)) (\<lambda>raw.
     case raw of
       None \<Rightarrow> Done (Inl (wrap ''AuthCodeRepository.Create random'' (ErrNew ''rand'')))
     | Some bytes \<Rightarrow>
         perform time_Now (\<lambda>created.
         case marshal_auth_code (time_text X) (data\<lparr>ac_CreatedAt := created\<rparr>) of
           None \<Rightarrow> Done (Inl (wrap ''AuthCodeRepository.Create marshal'' (ErrNew ''json'')))
         | Some payload \<Rightarrow>
             perform (Cache_Set X (authCodeKeyPrefix @ base64_raw_url bytes) payload authCodeTTL) (\<lambda>r.
             Done (case r of
               Inl e \<Rightarrow> Inl (wrap ''AuthCodeRepository.Create'' e)
             | Inr _ \<Rightarrow> Inr (base64_raw_url bytes)))))"

definition Register_thread :: "('r, 'd) ext \<Rightarrow> register_input \<Rightarrow> ('r, 'd, user) request_thread" where
  "Register_thread X inp =
     perform (User_GetByEmail X (ri_Email inp)) (\<lambda>existing.
     case existing of
       Inl e \<Rightarrow> Done (Inl (wrap ''AuthService.Register'' e))
     | Inr (Some _) \<Rightarrow> Done (Inl ErrEmailTaken)
     | Inr None \<Rightarrow>
         perform (draw (\<lambda>n. bcrypt_gen X n (ri_Password inp))) (\<lambda>hash.
         case hash of
           None \<Rightarrow> Done (Inl (wrap ''AuthService.Register bcrypt'' (ErrNew ''bcrypt'')))
         | Some h \<Rightarrow>
             perform (draw (new_uuid X)) (\<lambda>i.
             let u = \<lparr>us_ID = i, us_Email = ri_Email inp, us_PasswordHash = h,
               us_CreatedAt = zero_time\<rparr>
             in perform (User_Create X u) (\<lambda>r.
             Done (case r of
               Inl e \<Rightarrow> Inl (wrap ''AuthService.Register'' e)
             | Inr _ \<Rightarrow> Inr u)))))"

definition Login_thread :: "('r, 'd) ext \<Rightarrow> login_request \<Rightarrow> ('r, 'd, login_result) request_thread" where
  "Login_thread X req =
     perform (User_GetByEmail X (lq_Email req)) (\<lambda>found.
     case found of
       Inl e \<Rightarrow> Done (Inl (wrap ''AuthService.Login'' e))
     | Inr None \<Rightarrow> Done (Inl ErrEmailOrPasswordWrong)
     | Inr (Some u) \<Rightarrow>
         if \<not> bcrypt_matches X (us_PasswordHash u) (lq_Password req)
         then Done (Inl ErrEmailOrPasswordWrong)
         else andthen (Session_Create_thread X (us_ID u) (us_Email u)) (\<lambda>r.
           Done (case r of
             Inl e \<Rightarrow> Inl (wrap ''AuthService.Login creating session'' e)
           | Inr (sessionID, expiresAt) \<Rightarrow>
               Inr \<lparr>lr_SessionID = sessionID, lr_ExpiresAt = expiresAt\<rparr>)))"

definition IssueAccessToken_thread :: "('r, 'd) ext \<Rightarrow> gostring \<Rightarrow> gostring \<Rightarrow> gostring \<Rightarrow> gostring
    \<Rightarrow> ('r, 'd, access_token) request_thread" where
  "IssueAccessToken_thread X userID email clientID scope =
     perform time_Now (\<lambda>t.
     perform (draw (new_uuid X)) (\<lambda>jti.
     perform time_Now (\<lambda>issued.
     Done (case jwt_sign X \<lparr>ic_UserID = userID, ic_Email = email, ic_ClientID = clientID,
             ic_Scope = scope, ic_ID = jti, ic_IssuedAt = issued,
             ic_ExpiresAt = t + 15 * 60 * second\<rparr> of
         None \<Rightarrow> Inl (ErrNew ''signing'')
       | Some signedToken \<Rightarrow> Inr \<lparr>at_AccessTokenString = signedToken,
           at_AccessTokenExpiresIn = 15 * 60\<rparr>))))"

definition RefreshToken_thread ::
  "('r, 'd) ext \<Rightarrow> gostring \<Rightarrow> ('r, 'd, refresh_response) request_thread" where
  "RefreshToken_thread X refreshTokenRaw =
     perform (Token_GetTokenByHash X (hashToken refreshTokenRaw)) (\<lambda>found.
     case found of
       Inl e \<Rightarrow> Done (Inl (wrap ''AuthService.RefreshToken'' e))
     | Inr None \<Rightarrow> Done (Inl (ErrNew ''refresh token not found''))
     | Inr (Some refreshToken) \<Rightarrow>
         perform time_Now (\<lambda>t.
         if rt_ExpiresAt refreshToken < t then Done (Inl (ErrNew ''refresh token expired''))
         else perform (User_GetByID X (rt_UserID refreshToken)) (\<lambda>owner.
           case owner of
             Inl e \<Rightarrow> Done (Inl (wrap ''AuthService.RefreshToken, user not found'' e))
           | Inr None \<Rightarrow> Done (Inl (Panic ''invalid memory address or nil pointer dereference''))
           | Inr (Some u) \<Rightarrow>
               andthen (IssueAccessToken_thread X (us_ID u) (us_Email u) (rt_ClientID refreshToken)
                      (join (elems (rt_Scope refreshToken)) '' '')) (\<lambda>r.
               Done (case r of
                 Inl e \<Rightarrow> Inl (wrap ''AuthService.Login issuing access token'' e)
               | Inr a \<Rightarrow> Inr \<lparr>rr_AccessToken = at_AccessTokenString a,
                   rr_AccessTokenExpiryIn = at_AccessTokenExpiresIn a\<rparr>)))))"

definition RegisterClient_thread :: "('r, 'd) ext \<Rightarrow> register_client_request
    \<Rightarrow> ('r, 'd, register_client_response) request_thread" where
  "RegisterClient_thread X req =
     (case check_grant_types X (rq_IsPublic req) (elems (rq_GrantTypes req)) of
       Some e \<Rightarrow> Done (Inl e)
     | None \<Rightarrow>
         perform (make_secret X (rq_IsPublic req)) (\<lambda>secret.
         case secret of
           Inl e \<Rightarrow> Done (Inl e)
         | Inr (rawSecret, secretHash) \<Rightarrow>
             perform (draw (new_uuid X)) (\<lambda>clientID.
             perform (Client_Create X \<lparr>cl_ID = clientID, cl_Name = rq_Name req,
               cl_ClientSecretHash = secretHash, cl_RedirectURIs = rq_RedirectURIs req,
               cl_Scopes = rq_Scopes req, cl_GrantTypes = rq_GrantTypes req,
               cl_IsFirstParty = rq_IsFirstParty req, cl_CreatedAt = zero_time\<rparr>) (\<lambda>r.
             Done (case r of
               Inl e \<Rightarrow> Inl (wrap ''ClientService.RegisterClient'' e)
             | Inr _ \<Rightarrow> Inr \<lparr>rp_ClientID = clientID, rp_ClientSecret = rawSecret,
                 rp_Name = rq_Name req\<rparr>)))))"

definition Authorize_thread :: "('r, 'd) ext \<Rightarrow> authorize_request \<Rightarrow> gostring
    \<Rightarrow> ('r, 'd, authorize_result) request_thread" where
  "Authorize_thread X req inSessionID =
     perform (Client_GetByID X (aq_ClientID req)) (\<lambda>found.
     case found of
       Inl e \<Rightarrow> Done (Inl (wrap ''AuthService.Authorize'' e))
     | Inr None \<Rightarrow> Done (Inr ((plain_result ActionRejectDirect)\<lparr>az_Message := ''unknown client_id''\<rparr>))
     | Inr (Some client) \<Rightarrow>
         if aq_RedirectURI req \<notin> set (elems (cl_RedirectURIs client))
         then Done (Inr ((plain_result ActionRejectDirect)
                \<lparr>az_Message := ''redirect_uri is not registered for this client''\<rparr>))
         else
           let requested = Fields (aq_Scope req) in
           if requested = [] \<or> \<not> ContainsAll (elems (cl_Scopes client)) requested
           then Done (Inr (errorToClient req ''invalid_scope''))
           else
             let prompts = Fields (aq_Prompt req); promptNone = ''none'' \<in> set prompts in
             if promptNone \<and> length prompts > 1
             then Done (Inr (errorToClient req ''invalid_request''))
             else perform (SessionByID X inSessionID) (\<lambda>sess.
               case sess of
                 Inl e \<Rightarrow> Done (Inl (wrap ''AuthService.Authorize'' e))
               | Inr None \<Rightarrow>
                   if promptNone then Done (Inr (errorToClient req ''login_required''))
                   else Done (Inr (plain_result ActionRequireLogin))
               | Inr (Some s) \<Rightarrow>
                   andthen (AuthCode_Create_thread X \<lparr>ac_ClientID = cl_ID client,
                     ac_UserID = se_UserID s, ac_RedirectURI = aq_RedirectURI req,
                     ac_Scope = Some requested, ac_CodeChallenge = aq_CodeChallenge req,
                     ac_CodeChallengeMethod = aq_CodeChallengeMethod req,
                     ac_Nonce = aq_Nonce req, ac_CreatedAt = zero_time\<rparr>) (\<lambda>r.
                   Done (case r of
                     Inl e \<Rightarrow> Inl (wrap ''AuthService.Authorize'' e)
                   | Inr code \<Rightarrow> Inr ((plain_result ActionIssueCode)
                       \<lparr>az_RedirectURI := aq_RedirectURI req, az_State := aq_State req,
                        az_Code := code\<rparr>)))))"

definition mint_pair_thread :: "('r, 'd) ext \<Rightarrow> user \<Rightarrow> client \<Rightarrow> auth_code
    \<Rightarrow> ('r, 'd, token_response) request_thread" where
  "mint_pair_thread X u client authCode =
     (let scope = join (elems (ac_Scope authCode)) '' '' in
     andthen (IssueAccessToken_thread X (us_ID u) (us_Email u) (cl_ID client) scope) (\<lambda>a.
     case a of
       Inl e \<Rightarrow> Done (Inl (wrap ''TokenGrantService.authorizationCodeGrant'' e))
     | Inr accessToken \<Rightarrow>
         perform time_Now (\<lambda>t.
         perform (draw (new_uuid X)) (\<lambda>refreshTokenRaw.
         perform (draw (new_uuid X)) (\<lambda>i.
         perform (Token_Create X \<lparr>rt_ID = i, rt_UserID = us_ID u, rt_ClientID = cl_ID client,
           rt_Scope = ac_Scope authCode, rt_TokenHash = hashToken refreshTokenRaw,
           rt_ExpiresAt = t + 7 * 24 * 3600 * second, rt_RevokedAt = None,
           rt_CreatedAt = zero_time\<rparr>) (\<lambda>r.
         Done (case r of
           Inl e \<Rightarrow> Inl (wrap ''TokenGrantService.authorizationCodeGrant'' e)
         | Inr _ \<Rightarrow> Inr \<lparr>tr_AccessToken = at_AccessTokenString accessToken,
             tr_TokenType = ''Bearer'', tr_ExpiresIn = at_AccessTokenExpiresIn accessToken,
             tr_Scope = scope, tr_RefreshToken = refreshTokenRaw\<rparr>)))))))"

definition authorizationCodeGrant_thread :: "('r, 'd) ext \<Rightarrow> token_request
    \<Rightarrow> ('r, 'd, token_response) request_thread" where
  "authorizationCodeGrant_thread X req =
     perform (Client_GetByID X (tq_ClientID req)) (\<lambda>found.
     case found of
       Inl e \<Rightarrow> Done (Inl (wrap ''TokenGrantService.authorizationCodeGrant'' e))
     | Inr None \<Rightarrow> Done (Inl ErrInvalidClient)
     | Inr (Some client) \<Rightarrow>
         if cl_ClientSecretHash client \<noteq> []
            \<and> \<not> bcrypt_matches X (cl_ClientSecretHash client) (tq_ClientSecret req)
         then Done (Inl ErrInvalidClient)
         else perform (AuthCode_Consume X (tq_Code req)) (\<lambda>consumed.
           case consumed of
             Inl e \<Rightarrow> Done (if err_is e ErrAuthCodeNotFound then Inl ErrInvalidGrant
                            else Inl (wrap ''TokenGrantService.authorizationCodeGrant'' e))
           | Inr authCode \<Rightarrow>
               if ac_ClientID authCode \<noteq> tq_ClientID req
                  \<or> ac_RedirectURI authCode \<noteq> tq_RedirectURI req
               then Done (Inl ErrInvalidGrant)
               else if \<not> pkce_ok authCode (tq_CodeVerifier req) then Done (Inl ErrInvalidGrant)
               else perform (User_GetByID X (ac_UserID authCode)) (\<lambda>owner.
                 case owner of
                   Inl e \<Rightarrow> Done (Inl (wrap ''TokenGrantService.authorizationCodeGrant'' e))
                 | Inr None \<Rightarrow> Done (Inl ErrInvalidGrant)
                 | Inr (Some u) \<Rightarrow> mint_pair_thread X u client authCode)))"

definition Exchange_thread :: "('r, 'd) ext \<Rightarrow> token_request \<Rightarrow> ('r, 'd, token_response) request_thread" where
  "Exchange_thread X req =
     (if tq_GrantType req = GrantAuthorizationCode then authorizationCodeGrant_thread X req
      else if tq_GrantType req = GrantRefreshToken then atomic (refreshTokenGrant X req)
      else Done (Inl ErrUnsupportedGrantType))"

section \<open>Requests\<close>

datatype request =
    RegisterRequest register_input
  | LoginRequest login_request
  | LogoutRequest gostring
  | RefreshRequest gostring
  | RegisterClientRequest register_client_request
  | AuthorizeRequest authorize_request gostring
  | TokenRequest token_request

datatype answer =
    Registered "goerr + user"
  | LoggedIn "goerr + login_result"
  | LoggedOut "goerr + unit"
  | Refreshed "goerr + refresh_response"
  | ClientRegistered "goerr + register_client_response"
  | Authorized "goerr + authorize_result"
  | Exchanged "goerr + token_response"

abbreviation finish :: "('a \<Rightarrow> 'b) \<Rightarrow> ('s, 'a) thread \<Rightarrow> ('s, 'b) thread" where
  "finish f p \<equiv> andthen p (\<lambda>x. Done (f x))"

fun serve :: "('r, 'd) ext \<Rightarrow> request \<Rightarrow> (('r, 'd) world, answer) thread" where
  "serve X (RegisterRequest inp) = finish Registered (Register_thread X inp)"
| "serve X (LoginRequest req) = finish LoggedIn (Login_thread X req)"
| "serve X (LogoutRequest i) = finish LoggedOut (atomic (Logout X i))"
| "serve X (RefreshRequest raw) = finish Refreshed (RefreshToken_thread X raw)"
| "serve X (RegisterClientRequest req) = finish ClientRegistered (RegisterClient_thread X req)"
| "serve X (AuthorizeRequest req i) = finish Authorized (Authorize_thread X req i)"
| "serve X (TokenRequest req) = finish Exchanged (Exchange_thread X req)"

text \<open>The same request as one call of its service method.\<close>

fun served :: "('r, 'd) ext \<Rightarrow> request \<Rightarrow> (('r, 'd) world, answer) state" where
  "served X (RegisterRequest inp) = do { a \<leftarrow> Register X inp; ret (Registered a) }"
| "served X (LoginRequest req) = do { a \<leftarrow> Login X req; ret (LoggedIn a) }"
| "served X (LogoutRequest i) = do { a \<leftarrow> Logout X i; ret (LoggedOut a) }"
| "served X (RefreshRequest raw) = do { a \<leftarrow> RefreshToken X raw; ret (Refreshed a) }"
| "served X (RegisterClientRequest req) = do { a \<leftarrow> RegisterClient X req; ret (ClientRegistered a) }"
| "served X (AuthorizeRequest req i) = do { a \<leftarrow> Authorize X req i; ret (Authorized a) }"
| "served X (TokenRequest req) = do { a \<leftarrow> Exchange X req; ret (Exchanged a) }"

lemma parts_alone [simp]:
  "run (alone (Session_Create_thread X u e)) w = run (Session_Create X u e) w"
  "run (alone (AuthCode_Create_thread X d)) w = run (AuthCode_Create X d) w"
  "run (alone (IssueAccessToken_thread X u e c sc)) w = run (IssueAccessToken X u e c sc) w"
  by (simp_all add: Session_Create_thread_def Session_Create_def AuthCode_Create_thread_def
      AuthCode_Create_def IssueAccessToken_thread_def IssueAccessToken_def Let_def
      split: option.split sum.split prod.split)

lemma mint_pair_alone [simp]:
  "run (alone (mint_pair_thread X u c a)) w = run (mint_pair X u c a) w"
  by (simp add: mint_pair_thread_def mint_pair_def IssueRefreshToken_def Let_def
      split: sum.split prod.split)

lemma grant_alone [simp]:
  "run (alone (authorizationCodeGrant_thread X req)) w = run (authorizationCodeGrant X req) w"
  by (auto simp: authorizationCodeGrant_thread_def authorizationCodeGrant_def
      split: option.split sum.split prod.split)

lemma operations_alone:
  "run (alone (Register_thread X inp)) w = run (Register X inp) w"
  "run (alone (Login_thread X lreq)) w = run (Login X lreq) w"
  "run (alone (RefreshToken_thread X raw)) w = run (RefreshToken X raw) w"
  "run (alone (RegisterClient_thread X rreq)) w = run (RegisterClient X rreq) w"
  "run (alone (Authorize_thread X areq i)) w = run (Authorize X areq i) w"
  "run (alone (Exchange_thread X treq)) w = run (Exchange X treq) w"
       apply (auto simp: Register_thread_def Register_def Let_def split: option.split sum.split prod.split)[1]
      apply (auto simp: Login_thread_def Login_def split: option.split sum.split prod.split)[1]
     apply (auto simp: RefreshToken_thread_def RefreshToken_def split: option.split sum.split prod.split)[1]
    apply (auto simp: RegisterClient_thread_def RegisterClient_def split: option.split sum.split prod.split)[1]
   apply (auto simp: Authorize_thread_def Authorize_def Let_def split: option.split sum.split prod.split)[1]
  apply (auto simp: Exchange_thread_def Exchange_def split: option.split sum.split prod.split)[1]
  done

text \<open>A request whose thread nobody interrupts is one call of its service method: the threads are
  the operations cut at their actions, with the same answer and the same effect.\<close>

theorem serve_alone:
  "run (alone (serve X req)) w = run (served X req) w"
  by (cases req) (simp_all add: operations_alone)

section \<open>Every request ends\<close>

text \<open>What is left of a thread after its first \<open>n\<close> turns, the others having left the states \<open>ws\<close>.\<close>

primrec after_turns :: "(nat \<Rightarrow> 's) \<Rightarrow> nat \<Rightarrow> ('s, 'a) thread \<Rightarrow> ('s, 'a) thread" where
  "after_turns ws 0 p = p"
| "after_turns ws (Suc n) p = (case after_turns ws n p of Done x \<Rightarrow> Done x | Act f \<Rightarrow> fst (f (ws n)))"

lemma after_turns_within:
  "within (n + m) p \<Longrightarrow> within m (after_turns ws n p)"
proof (induction n arbitrary: m)
  case (Suc n)
  then have "within (Suc m) (after_turns ws n p)" by simp
  then show ?case
    by (cases "after_turns ws n p") (auto intro: within.finished elim: within_ActE)
qed simp

text \<open>The number of its actions, at most.\<close>

fun turns :: "request \<Rightarrow> nat" where
  "turns (RegisterRequest inp) = 4"
| "turns (LoginRequest req) = 5"
| "turns (LogoutRequest i) = 1"
| "turns (RefreshRequest raw) = 6"
| "turns (RegisterClientRequest req) = 3"
| "turns (AuthorizeRequest req i) = 5"
| "turns (TokenRequest req) = 10"

lemma within_perform: "(\<And>x. within n (g x)) \<Longrightarrow> within (Suc n) (perform m g)"
  using within_andthen [OF within_atomic [of 0 m], of n g] by simp

lemma within_then: "within k p \<Longrightarrow> k \<le> n \<Longrightarrow> (\<And>x. within (n - k) (g x)) \<Longrightarrow> within n (andthen p g)"
  using within_andthen [of k p "n - k" g] by simp

lemmas within_rules = within.finished within_perform

lemma within_parts:
  "within 4 (Session_Create_thread X u e)" "within 3 (AuthCode_Create_thread X d)"
  "within 3 (IssueAccessToken_thread X u e c sc)"
proof -
  have n: "(4 :: nat) = Suc (Suc (Suc (Suc 0)))" "(3 :: nat) = Suc (Suc (Suc 0))" by simp_all
  show "within 4 (Session_Create_thread X u e)" "within 3 (AuthCode_Create_thread X d)"
    "within 3 (IssueAccessToken_thread X u e c sc)"
    unfolding n Session_Create_thread_def AuthCode_Create_thread_def IssueAccessToken_thread_def
    by (auto split: option.split sum.split intro!: within_rules)
qed

lemma within_mint: "within 7 (mint_pair_thread X u c a)"
  unfolding mint_pair_thread_def Let_def
  by (rule within_then [OF within_parts(3)])
    (auto simp: numeral_eq_Suc split: sum.split intro!: within_rules)

lemma within_operations:
  "within 4 (Register_thread X inp)" "within 5 (Login_thread X lreq)"
  "within 6 (RefreshToken_thread X raw)" "within 3 (RegisterClient_thread X rreq)"
  "within 5 (Authorize_thread X areq i)" "within 10 (Exchange_thread X treq)"
proof -
  note splits = option.split sum.split prod.split
  show "within 4 (Register_thread X inp)" "within 3 (RegisterClient_thread X rreq)"
    unfolding Register_thread_def RegisterClient_thread_def Let_def
    by (auto simp: numeral_eq_Suc split: splits intro!: within_rules)
  show "within 5 (Login_thread X lreq)"
    unfolding Login_thread_def
    by (auto simp: numeral_eq_Suc split: splits intro!: within_rules within_then [OF within_parts(1)])
  show "within 6 (RefreshToken_thread X raw)"
    unfolding RefreshToken_thread_def
    by (auto simp: numeral_eq_Suc split: splits intro!: within_rules within_then [OF within_parts(3)])
  show "within 5 (Authorize_thread X areq i)"
    unfolding Authorize_thread_def Let_def
    by (auto simp: numeral_eq_Suc split: splits intro!: within_rules within_then [OF within_parts(2)])
  show "within 10 (Exchange_thread X treq)"
    unfolding Exchange_thread_def authorizationCodeGrant_thread_def
    by (auto simp: numeral_eq_Suc split: splits intro!: within_rules within_mint [unfolded numeral_eq_Suc, simplified] within_mono [OF within_atomic [of 0]])
qed

lemma within_serve: "within (turns req) (serve X req)"
  by (cases req) (auto intro!: within_operations within_then within_atomic within.finished)

text \<open>The answer is of the kind that was asked for.\<close>

fun answers_request :: "request \<Rightarrow> answer \<Rightarrow> bool" where
  "answers_request (RegisterRequest inp) (Registered a) = True"
| "answers_request (LoginRequest req) (LoggedIn a) = True"
| "answers_request (LogoutRequest i) (LoggedOut a) = True"
| "answers_request (RefreshRequest raw) (Refreshed a) = True"
| "answers_request (RegisterClientRequest req) (ClientRegistered a) = True"
| "answers_request (AuthorizeRequest req i) (Authorized a) = True"
| "answers_request (TokenRequest req) (Exchanged a) = True"
| "answers_request _ _ = False"

lemma after_turns_finish: "after_turns ws n (finish f p) = finish f (after_turns ws n p)"
  by (induction n) (simp_all add: case_prod_beta split: thread.split)

lemma finish_Done: "finish f p = Done a \<Longrightarrow> \<exists>x. a = f x"
  by (cases p) auto

text \<open>Every request ends, however the others interfere: whatever states it finds at its turns, after
  at most \<open>turns\<close> of them (ten for a token request, five for an authorization, one for a logout)
  its thread is an answer to that request.\<close>

theorem requests_finish:
  "\<exists>a. after_turns ws (turns req) (serve X req) = Done a \<and> answers_request req a"
proof -
  have "within 0 (after_turns ws (turns req) (serve X req))"
    by (rule after_turns_within) (simp add: within_serve)
  then obtain a where a: "after_turns ws (turns req) (serve X req) = Done a"
    by (cases rule: within.cases) auto
  then have "answers_request req a"
    by (cases req) (auto simp: after_turns_finish dest!: finish_Done)
  with a show ?thesis by blast
qed

section \<open>The service with requests in progress\<close>

text \<open>What happens besides: time passes, Redis drops keys, and the maintenance statements run.\<close>

inductive outside :: "('r, 'd) ext \<Rightarrow> ('r, 'd) world \<Rightarrow> ('r, 'd) world \<Rightarrow> bool" for X where
  tick: "0 \<le> d \<Longrightarrow> outside X w (w\<lparr>now := now w + d\<rparr>)"
| evict: "r_view X r \<subseteq>\<^sub>m r_view X (rds w) \<Longrightarrow> outside X w (w\<lparr>rds := r\<rparr>)"
| delete_user: "run (User_Delete X i) w = (rd, w') \<Longrightarrow> outside X w w'"
| revoke: "run (Token_Revoke X i) w = (rv, w') \<Longrightarrow> outside X w w'"
| revoke_all: "run (Token_RevokeAllForUser X i) w = (rv, w') \<Longrightarrow> outside X w w'"
| delete_expired: "run (Token_DeleteExpired X) w = (rv, w') \<Longrightarrow> outside X w w'"

type_synonym ('r, 'd) in_progress = "(request \<times> (('r, 'd) world, answer) thread) list"

inductive move :: "('r, 'd) ext \<Rightarrow> ('r, 'd) in_progress \<times> ('r, 'd) world \<Rightarrow> ('r, 'd) in_progress \<times> ('r, 'd) world \<Rightarrow> bool"
  for X where
  arrive: "move X (ts, w) (ts @ [(req, serve X req)], w)"
| turn: "f w = (p, w') \<Longrightarrow> move X (ts @ (req, Act f) # us, w) (ts @ (req, p) # us, w')"
| other: "outside X w w' \<Longrightarrow> move X (ts, w) (ts, w')"

inductive interleaved :: "('r, 'd) ext \<Rightarrow> ('r, 'd) in_progress \<times> ('r, 'd) world \<Rightarrow> bool" for X where
  start: "initial X w \<Longrightarrow> interleaved X ([], w)"
| go: "interleaved X s \<Longrightarrow> move X s s' \<Longrightarrow> interleaved X s'"

text \<open>Requests served one after another are an interleaving: \<open>reachable\<close> states are among these.\<close>

lemma moves_alone:
  "run (alone p) w = (a, w') \<Longrightarrow> (move X)\<^sup>*\<^sup>* (ts @ [(req, p)], w) (ts @ [(req, Done a)], w')"
proof (induction p arbitrary: w)
  case (Act f)
  obtain p w1 where f: "f w = (p, w1)" by fastforce
  then have "p \<in> Basic_BNFs.fsts (f w)" by (simp add: prod_set_defs)
  from Act.IH [OF rangeI this, of w1] Act.prems f
  have "(move X)\<^sup>*\<^sup>* (ts @ [(req, p)], w1) (ts @ [(req, Done a)], w')" by simp
  with converse_rtranclp_into_rtranclp [of "move X", OF turn [where f = f and us = "[]", OF f]]
  show ?case by simp
qed simp

lemma moves_interleaved: "(move X)\<^sup>*\<^sup>* s s' \<Longrightarrow> interleaved X s \<Longrightarrow> interleaved X s'"
  by (induction rule: rtranclp_induct) (auto intro: go)

lemma interleaved_serve:
  assumes "interleaved X (ts, w)" and "run (served X req) w = (a, w')"
  shows "interleaved X (ts @ [(req, Done a)], w')"
proof (rule moves_interleaved)
  have "run (alone (serve X req)) w = (a, w')"
    using assms(2) by (cases req) (simp_all add: operations_alone)
  then show "(move X)\<^sup>*\<^sup>* (ts @ [(req, serve X req)], w) (ts @ [(req, Done a)], w')"
    by (rule moves_alone)
qed (rule go [OF assms(1) arrive])

lemma reachable_interleaved: "reachable X w \<Longrightarrow> \<exists>ts. interleaved X (ts, w)"
proof (induction rule: reachable.induct)
  case (start w)
  then show ?case by (blast intro: interleaved.start)
next
  case (serve w w')
  then obtain ts where ts: "interleaved X (ts, w)" by blast
  note S = interleaved_serve [OF ts]
  note O = go [OF ts other]
  show ?case using serve.hyps(2)
  proof (cases rule: step.cases)
    case (register inp ru)
    with S [of "RegisterRequest inp" "Registered ru" w'] show ?thesis by auto
  next
    case (login lreq rl)
    with S [of "LoginRequest lreq" "LoggedIn rl" w'] show ?thesis by auto
  next
    case (logout i ro)
    with S [of "LogoutRequest i" "LoggedOut ro" w'] show ?thesis by auto
  next
    case (refresh raw rr)
    with S [of "RefreshRequest raw" "Refreshed rr" w'] show ?thesis by auto
  next
    case (register_client rreq rc)
    with S [of "RegisterClientRequest rreq" "ClientRegistered rc" w'] show ?thesis by auto
  next
    case (authorize areq i ra)
    with S [of "AuthorizeRequest areq i" "Authorized ra" w'] show ?thesis by auto
  next
    case (exchange treq rt)
    with S [of "TokenRequest treq" "Exchanged rt" w'] show ?thesis by auto
  qed (blast intro: O outside.intros)+
qed

end
