(* ===== verification/Interference.thy ===== *)
theory Interference
  imports Interleaved
begin

text \<open>
  What holds in every state of the interleaved service.  Each action of each thread keeps the
  invariant \<open>sound\<close> in whatever state it runs, and what a thread has learnt (that a client is
  registered, that a code was bound to it) stays true while the others act, because a registered
  client is never removed: \<open>grows\<close> is at once what a thread relies on and what it guarantees.
\<close>

section \<open>The invariant\<close>

text \<open>No key of Redis lives longer than its kind allows, counted from now.\<close>

definition in_time :: "gotime \<Rightarrow> gostring \<Rightarrow> gotime \<Rightarrow> bool" where
  "in_time t k e \<longleftrightarrow> (\<exists>i. k = sessionKeyPrefix @ i) \<and> e \<le> t + sessionTTL
     \<or> (\<exists>c. k = authCodeKeyPrefix @ c) \<and> e \<le> t + authCodeTTL"

definition store_timely :: "gotime \<Rightarrow> redis_store \<Rightarrow> bool" where
  "store_timely t st \<longleftrightarrow> (\<forall>k v e. st k = Some (v, Some e) \<longrightarrow> in_time t k e)"

text \<open>A refresh token expires within seven days, up to the rounding of the column, and belongs to a
  user; what is kept of a password has the length of a bcrypt hash.\<close>

definition rows_timely :: "('r, 'd) ext \<Rightarrow> gotime \<Rightarrow> tables \<Rightarrow> bool" where
  "rows_timely X t T \<longleftrightarrow> (\<forall>row \<in> set (t_tokens T).
       2 * (tw_expires_at row - (t + 7 * 24 * 3600 * second)) \<le> second
     \<and> (\<exists>v \<in> set (t_users T). sql_eq X (us_ID v) (tw_user_id row)))
   \<and> (\<forall>u \<in> set (t_users T). length (us_PasswordHash u) = 60)"

definition sound :: "('r, 'd) ext \<Rightarrow> ('r, 'd) world \<Rightarrow> bool" where
  "sound X w \<longleftrightarrow> inv X w \<and> store_timely (now w) (store X w) \<and> rows_timely X (now w) (tables_of X w)"

definition grows :: "('r, 'd) ext \<Rightarrow> ('r, 'd) world \<Rightarrow> ('r, 'd) world \<Rightarrow> bool" where
  "grows X w w' \<longleftrightarrow> sound X w' \<and> now w \<le> now w'
     \<and> clients_of (tables_of X w) \<subseteq> clients_of (tables_of X w')"

lemma growsD: "grows X w w' \<Longrightarrow> sound X w'" "grows X w w' \<Longrightarrow> now w \<le> now w'"
  "grows X w w' \<Longrightarrow> c \<in> clients_of (tables_of X w) \<Longrightarrow> c \<in> clients_of (tables_of X w')"
  by (auto simp: grows_def)

lemma grows_trans: "transp (grows X)"
  by (auto simp: transp_def grows_def)

lemma grows_refl: "sound X w \<Longrightarrow> grows X w w"
  by (simp add: grows_def)

lemma in_time_later: "in_time t k e \<Longrightarrow> t \<le> t' \<Longrightarrow> in_time t' k e"
  by (auto simp: in_time_def)

lemma store_timely_later: "store_timely t st \<Longrightarrow> t \<le> t' \<Longrightarrow> store_timely t' st"
  unfolding store_timely_def using in_time_later by blast

lemma rows_timely_later: "rows_timely X t T \<Longrightarrow> t \<le> t' \<Longrightarrow> rows_timely X t' T"
  by (fastforce simp: rows_timely_def)

text \<open>The four ways in which an action changes the world.\<close>

lemma grows_same:
  "sound X w \<Longrightarrow> now w \<le> now w' \<Longrightarrow> store X w' = store X w \<Longrightarrow> tables_of X w' = tables_of X w \<Longrightarrow> grows X w w'"
  using inv_same [of X w w'] store_timely_later rows_timely_later by (auto simp: grows_def sound_def)

lemma grows_same_world: "sound X w \<Longrightarrow> same_world X w w' \<Longrightarrow> grows X w w'"
  by (rule grows_same) (simp_all add: same_world_def)

lemma grows_draw: "sound X w \<Longrightarrow> grows X w (w\<lparr>draws := n\<rparr>)"
  by (rule grows_same) (simp_all add: store_def tables_of_def)

lemma grows_submap:
  assumes "sound X w" "now w' = now w" "tables_of X w' = tables_of X w" "store X w' \<subseteq>\<^sub>m store X w"
  shows "grows X w w'"
proof -
  have "store_timely (now w) (store X w')"
    using assms(1,4) unfolding sound_def store_timely_def map_le_def by (metis domI)
  with assms show ?thesis
    by (auto simp: grows_def sound_def intro: inv_store store_ok_submap [of X "tables_of X w" "store X w"] dest: inv_def [THEN iffD1])
qed

lemma grows_set:
  assumes "sound X w" "now w' = now w" "tables_of X w' = tables_of X w"
    and "store X w' = (store X w)(k \<mapsto> (v, Some e)) \<or> store X w' = store X w"
    and "entry_ok X (tables_of X w) k v"
    and "in_time (now w) k e"
  shows "grows X w w'"
proof -
  have s: "store_ok X (tables_of X w) (store X w)" "store_timely (now w) (store X w)"
    using assms(1) by (simp_all add: sound_def inv_def)
  have "store_ok X (tables_of X w) (store X w')"
    using assms(4) s(1) store_ok_upd [OF s(1) assms(5)] by auto
  moreover have "store_timely (now w) (store X w')"
    using assms(4,6) s(2) by (auto simp: store_timely_def split: if_splits)
  ultimately show ?thesis
    using assms(1-3) by (auto simp: grows_def sound_def intro: inv_store)
qed

lemma grows_tables:
  assumes "sound X w" "now w' = now w" "store X w' = store X w"
    and "tables_wf X (tables_of X w')" "rows_timely X (now w) (tables_of X w')"
    and "clients_of (tables_of X w) \<subseteq> clients_of (tables_of X w')"
  shows "grows X w w'"
  using assms by (auto simp: grows_def sound_def intro: inv_tables)

lemma initial_sound: "initial X w \<Longrightarrow> sound X w"
  using initial_inv [of X w] by (simp add: sound_def initial_def store_timely_def rows_timely_def)

section \<open>One action at a time\<close>

abbreviation guards :: "('r, 'd) ext \<Rightarrow> (('r, 'd) world \<Rightarrow> 'a \<Rightarrow> bool) \<Rightarrow> ('r, 'd) world
    \<Rightarrow> (('r, 'd) world, 'a) thread \<Rightarrow> bool" where
  "guards X \<equiv> guarded (grows X)"

lemma guarded_perform:
  assumes "\<And>w1 x w'. grows X w w1 \<Longrightarrow> run m w1 = (x, w') \<Longrightarrow> grows X w1 w' \<and> guards X Q w' (g x)"
  shows "guards X Q w (perform m g)"
  by (rule guarded_andthen [OF guarded_atomic [where Q = "\<lambda>w' x. guards X Q w' (g x)"]])
    (use assms in blast)+

text \<open>An action that only reads: what it returned was there.\<close>

lemma perform_read:
  assumes "\<And>w1 x w'. run m w1 = (x, w') \<Longrightarrow> same_world X w1 w'"
    and "\<And>w1 x w'. grows X w w1 \<Longrightarrow> grows X w w' \<Longrightarrow> same_world X w1 w' \<Longrightarrow> run m w1 = (x, w')
      \<Longrightarrow> guards X Q w' (g x)"
  shows "guards X Q w (perform m g)"
proof (rule guarded_perform, intro conjI)
  fix w1 x w' assume a: "grows X w w1" "run m w1 = (x, w')"
  show "grows X w1 w'" using a assms(1) by (blast intro: grows_same_world growsD)
  with a show "guards X Q w' (g x)" using assms grows_trans [THEN transpD] by blast
qed

lemma perform_draw:
  assumes "\<And>w' n. grows X w w' \<Longrightarrow> guards X Q w' (g (f n))"
  shows "guards X Q w (perform (draw f) g)"
  by (rule guarded_perform)
    (auto simp: run_simps intro!: assms grows_draw growsD intro: grows_trans [THEN transpD])

lemma perform_now:
  assumes "\<And>w'. grows X w w' \<Longrightarrow> guards X Q w' (g (now w'))"
  shows "guards X Q w (perform time_Now g)"
  by (rule guarded_perform) (auto intro: assms grows_refl growsD)

lemma clients_ok: "inv X w \<Longrightarrow> c \<in> clients_of (tables_of X w) \<Longrightarrow> client_ok c"
  by (fastforce simp: clients_of_def inv_def tables_wf_def client_row_ok_def)

lemma perform_client:
  assumes "env_ok X" and "\<And>r w'. grows X w w' \<Longrightarrow> (\<And>c. r = Inr (Some c) \<Longrightarrow> c \<in> clients_of (tables_of X w')
      \<and> sql_eq X (cl_ID c) i \<and> client_ok c) \<Longrightarrow> guards X Q w' (g r)"
  shows "guards X Q w (perform (Client_GetByID X i) g)"
proof (rule perform_read)
  note E = env_okD [OF assms(1)]
  fix w1 r w' assume a: "grows X w w'" "same_world X w1 w'" "run (Client_GetByID X i) w1 = (r, w')"
  show "guards X Q w' (g r)"
  proof (rule assms(2) [OF a(1)])
    fix c assume "r = Inr (Some c)"
    then obtain row where row: "client_rows X w1 i = Some row" "scan_client row = Inr c"
      using Client_GetByID_cases(2) [OF E(2) a(3)] by blast
    with find_SomeD [OF row(1)] have c: "c \<in> clients_of (tables_of X w')" "sql_eq X (cl_ID c) i"
      using same_world_reads(7) [OF a(2)] by (auto simp: clients_of_def scan_client_ID)
    with growsD(1) [OF a(1)] show "c \<in> clients_of (tables_of X w') \<and> sql_eq X (cl_ID c) i \<and> client_ok c"
      by (auto simp: sound_def intro: clients_ok)
  qed
qed (rule sql_reads(1) [OF env_okD(2) [OF assms(1)]])

lemma users_ok: "sound X w \<Longrightarrow> u \<in> set (t_users (tables_of X w)) \<Longrightarrow> uuid_text (us_ID u)"
  by (simp add: sound_def inv_def tables_wf_def)

lemma perform_user:
  assumes "env_ok X" and "\<And>r w'. grows X w w' \<Longrightarrow> (\<And>u. r = Inr (Some u) \<Longrightarrow> uuid_text (us_ID u))
      \<Longrightarrow> guards X Q w' (g r)"
  shows "guards X Q w (perform (User_GetByID X i) g)" "guards X Q w (perform (User_GetByEmail X e) g)"
proof -
  note E = env_okD [OF assms(1)]
  have uuid: "uuid_text (us_ID u)"
    if "List.find P (t_users (tables_of X w1)) = Some u" "grows X w w'" "same_world X w1 w'" for P w1 w' u
    using users_ok [OF growsD(1) [OF that(2)]] find_SomeD [OF that(1)] same_world_reads(7) [OF that(3)] by simp
  show "guards X Q w (perform (User_GetByID X i) g)"
  proof (rule perform_read [OF sql_reads(3) [OF E(2)]], assumption)
    fix w1 r w' assume a: "grows X w w'" "same_world X w1 w'" "run (User_GetByID X i) w1 = (r, w')"
    show "guards X Q w' (g r)"
      using User_GetByID_cases(2) [OF E(2) a(3)] uuid [OF _ a(1,2)] by (intro assms(2) [OF a(1)]) blast
  qed
  show "guards X Q w (perform (User_GetByEmail X e) g)"
  proof (rule perform_read [OF sql_reads(2) [OF E(2)]], assumption)
    fix w1 r w' assume a: "grows X w w'" "same_world X w1 w'" "run (User_GetByEmail X e) w1 = (r, w')"
    show "guards X Q w' (g r)"
      using User_GetByEmail_cases(2) [OF E(2) a(3)] uuid [OF _ a(1,2)] by (intro assms(2) [OF a(1)]) metis
  qed
qed

lemma perform_found:
  assumes "env_ok X" and "\<And>r w'. grows X w w' \<Longrightarrow> guards X Q w' (g r)"
  shows "guards X Q w (perform (Token_GetTokenByHash X h) g)"
  using assms by (blast intro: perform_read sql_reads env_okD)

lemma perform_session:
  assumes "env_ok X" and "\<And>r w'. grows X w w' \<Longrightarrow> guards X Q w' (g r)"
  shows "guards X Q w (perform (SessionByID X i) g)"
  using assms by (blast intro: perform_read SessionByID_same env_okD)

lemma sql_only_run:
  "sql_only m \<Longrightarrow> run m w = (r, w') \<Longrightarrow> now w' = now w"
  "sql_only m \<Longrightarrow> run m w = (r, w') \<Longrightarrow> store X w' = store X w"
  using keeps_field_runD [OF sql_only_frame(1), of m w r w'] keeps_field_runD [OF sql_only_frame(3), of m w r w']
  by (simp_all add: store_def)

text \<open>A code that is consumed was in order, and is gone.\<close>

lemma perform_consume:
  assumes "env_ok X"
    and "\<And>r w'. grows X w w' \<Longrightarrow> (\<And>a. r = Inr a \<Longrightarrow> code_ok (tables_of X w') a) \<Longrightarrow> guards X Q w' (g r)"
  shows "guards X Q w (perform (AuthCode_Consume X k) g)"
proof (rule guarded_perform, intro conjI)
  note E = env_okD [OF assms(1)]
  fix w1 r w' assume a: "grows X w w1" "run (AuthCode_Consume X k) w1 = (r, w')"
  note C = AuthCode_Consume_cases(1,2) [OF E(1) a(2)]
  have f: "now w' = now w1" "tables_of X w' = tables_of X w1"
    using keeps_field_runD [OF code_ops_frame(3) a(2)] keeps_field_runD [OF code_ops_frame(4) a(2)]
    by (simp_all add: tables_of_def)
  have "store X w' \<subseteq>\<^sub>m store X w1" using C(2) by (auto simp: map_le_def split: if_splits)
  with growsD(1) [OF a(1)] f show g: "grows X w1 w'" by (rule grows_submap)
  show "guards X Q w' (g r)"
  proof (rule assms(2))
    show "grows X w w'" using grows_trans a(1) g by (rule transpD)
    show "code_ok (tables_of X w') c" if "r = Inr c" for c
      using code_at_ok [of X w1 k c] C(1) [OF that] growsD(1) [OF a(1)] by (simp add: f sound_def)
  qed
qed

lemma perform_set:
  assumes "env_ok X" "whole_seconds ttl" "ttl \<noteq> 0"
    and "\<And>w1. grows X w w1 \<Longrightarrow> entry_ok X (tables_of X w1) k v \<and> in_time (now w1) k (now w1 + ttl)"
    and "\<And>r w'. grows X w w' \<Longrightarrow> guards X Q w' (g r)"
  shows "guards X Q w (perform (Cache_Set X k v ttl) g)"
proof (rule guarded_perform, intro conjI)
  fix w1 r w' assume a: "grows X w w1" "run (Cache_Set X k v ttl) w1 = (r, w')"
  have f: "now w' = now w1" "tables_of X w' = tables_of X w1"
    using keeps_field_runD [OF cache_frame(1) a(2)] keeps_field_runD [OF cache_frame(3) a(2)]
    by (simp_all add: tables_of_def)
  have "store X w' = (store X w1)(k \<mapsto> (v, Some (now w1 + ttl))) \<or> store X w' = store X w1"
    using Cache_Set_store [OF env_okD(1) [OF assms(1)] assms(2) a(2)] assms(3)
    by (auto simp: expiry_def)
  with growsD(1) [OF a(1)] f show g: "grows X w1 w'"
    using assms(4) [OF a(1)] by (intro grows_set [where k = k and v = v and e = "now w1 + ttl"]) auto
  show "guards X Q w' (g r)" using transpD [OF grows_trans a(1) g] by (rule assms(5))
qed

text \<open>The three insertions.\<close>

lemma perform_user_create:
  assumes "env_ok X" "uuid_text (us_ID u)" "length (us_PasswordHash u) = 60"
    and "\<And>r w'. grows X w w' \<Longrightarrow> guards X Q w' (g r)"
  shows "guards X Q w (perform (User_Create X u) g)"
proof (rule guarded_perform, intro conjI)
  note E = env_okD [OF assms(1)]
  fix w1 r w' assume a: "grows X w w1" "run (User_Create X u) w1 = (r, w')"
  have f: "now w' = now w1" "store X w' = store X w1"
    by (rule sql_only_run [OF sql_only_ops(1) a(2)])+
  have s: "sound X w1" by (rule growsD(1) [OF a(1)])
  let ?T = "tables_of X w1"
  have "tables_wf X (tables_of X w') \<and> rows_timely X (now w1) (tables_of X w')
      \<and> clients_of ?T \<subseteq> clients_of (tables_of X w')"
  proof (cases "tables_of X w' = ?T")
    case True
    with s show ?thesis by (simp add: sound_def inv_def)
  next
    case False
    with User_Create_tables(2) [OF E(2) a(2)]
    have T: "tables_of X w' = ?T\<lparr>t_users := t_users ?T @ [user_row X w1 u]\<rparr>"
      and d: "\<not> (\<exists>v \<in> set (t_users ?T). sql_eq X (us_ID v) (us_ID u) \<or> sql_eq X (us_Email v) (us_Email u))"
      by blast+
    have "tables_wf X (tables_of X w')"
      using s d assms(2) uuid_plain token_row_ok_cong [of "tables_of X w'" ?T]
      unfolding sound_def inv_def tables_wf_def
      by (auto simp: T sorted_wrt_append user_row_def)
    moreover have "rows_timely X (now w1) (tables_of X w')"
      using s assms(3) by (auto simp: sound_def rows_timely_def T user_row_def)
    ultimately show ?thesis by (simp add: T clients_of_def)
  qed
  then show g: "grows X w1 w'" using s f by (intro grows_tables) auto
  show "guards X Q w' (g r)" using transpD [OF grows_trans a(1) g] by (rule assms(4))
qed

lemma perform_client_create:
  assumes "env_ok X" "uuid_text (cl_ID c)" "client_ok (client_stored X w0 c)"
    and "\<And>r w'. grows X w w' \<Longrightarrow> (r = Inr () \<Longrightarrow> \<exists>w1. client_stored X w1 c \<in> clients_of (tables_of X w'))
      \<Longrightarrow> guards X Q w' (g r)"
  shows "guards X Q w (perform (Client_Create X c) g)"
proof (rule guarded_perform, intro conjI)
  note E = env_okD [OF assms(1)]
  fix w1 r w' assume a: "grows X w w1" "run (Client_Create X c) w1 = (r, w')"
  have f: "now w' = now w1" "store X w' = store X w1"
    by (rule sql_only_run [OF sql_only_ops(5) a(2)])+
  have s: "sound X w1" by (rule growsD(1) [OF a(1)])
  let ?T = "tables_of X w1"
  obtain row where row: "scan_client row = Inr (client_stored X w1 c)" "cr_id row = char_value (cl_ID c)"
    and t: "tables_of X w' = ?T\<lparr>t_clients := t_clients ?T @ [row]\<rparr> \<or> r \<noteq> Inr () \<and> tables_of X w' = ?T"
    and nd: "tables_of X w' = ?T \<or> \<not> (\<exists>v \<in> set (t_clients ?T). sql_eq X (cr_id v) (cl_ID c))"
    by (rule Client_Create_tables [OF E(2,3) a(2)]) auto
  have ok: "client_ok (client_stored X w1 c)"
    using assms(3) by (simp add: client_ok_def client_stored_def)
  have "tables_wf X (tables_of X w') \<and> rows_timely X (now w1) (tables_of X w')
      \<and> clients_of ?T \<subseteq> clients_of (tables_of X w')"
  proof (cases "tables_of X w' = ?T")
    case True
    with s show ?thesis by (simp add: sound_def inv_def)
  next
    case False
    with t have T: "tables_of X w' = ?T\<lparr>t_clients := t_clients ?T @ [row]\<rparr>" by simp
    have sub: "clients_of ?T \<subseteq> clients_of (tables_of X w')"
      by (rule clients_of_mono) (auto simp: T)
    have new: "\<forall>v \<in> set (t_clients ?T). \<not> sql_eq X (cr_id v) (cr_id row)"
      using False nd row(2) assms(2) uuid_plain by auto
    have "tables_wf X (tables_of X w')"
      using s row(1) ok new token_row_ok_mono [OF _ sub]
      unfolding sound_def inv_def tables_wf_def by (auto simp: T sorted_wrt_append client_row_ok_def)
    moreover have "rows_timely X (now w1) (tables_of X w')"
      using s by (auto simp: sound_def rows_timely_def T)
    ultimately show ?thesis using sub by simp
  qed
  then show g: "grows X w1 w'" using s f by (intro grows_tables) auto
  show "guards X Q w' (g r)"
    using t row(1) by (intro assms(4) [OF transpD [OF grows_trans a(1) g]]) (auto simp: clients_of_def)
qed
lemma Token_Create_owner:
  assumes "mysql_spec up X" "run (Token_Create X t) w = (r, w')"
  shows "tables_of X w' = tables_of X w \<or> (\<exists>v \<in> set (t_users (tables_of X w)). sql_eq X (us_ID v) (rt_UserID t))"
  using exec_tables(2) [OF assms(1) assms(2) [unfolded Token_Create_def]]
  by (auto simp: refused_def split: if_splits option.splits)

text \<open>What the rows of a table say when the identifier of a client is presented.\<close>

lemma same_client:
  assumes "env_ok X" "sound X w" "c \<in> clients_of (tables_of X w)" "sql_eq X (cl_ID c) i"
    and "code_ok (tables_of X w) a" "ac_ClientID a = i"
  shows "cl_ID c = i" "ac_RedirectURI a \<in> set (elems (cl_RedirectURIs c))"
    "set (elems (ac_Scope a)) \<subseteq> set (elems (cl_Scopes c))" "elems (ac_Scope a) \<noteq> []"
    "\<forall>t \<in> set (elems (ac_Scope a)). token t"
proof -
  note Q = sql_eqD [OF env_okD(3) [OF assms(1)]]
  have wf: "sorted_wrt (\<lambda>a b. \<not> sql_eq X (cr_id a) (cr_id b)) (t_clients (tables_of X w))"
    using assms(2) by (simp add: sound_def inv_def tables_wf_def)
  obtain c0 where c0: "c0 \<in> clients_of (tables_of X w)" "ac_ClientID a = cl_ID c0"
      "ac_RedirectURI a \<in> set (elems (cl_RedirectURIs c0))"
      "set (elems (ac_Scope a)) \<subseteq> set (elems (cl_Scopes c0))"
    and a: "elems (ac_Scope a) \<noteq> []" "\<forall>t \<in> set (elems (ac_Scope a)). token t"
    using assms(5) by (auto simp: code_ok_def)
  obtain row row0 where row: "row \<in> set (t_clients (tables_of X w))" "scan_client row = Inr c"
    "row0 \<in> set (t_clients (tables_of X w))" "scan_client row0 = Inr c0"
    using assms(3) c0(1) by (auto simp: clients_of_def)
  have "sql_eq X (cr_id row) (cr_id row0)"
    using assms(4,6) c0(2) row(2,4) by (simp add: scan_client_ID)
  then have "row = row0"
    using sorted_wrt_unique [of "\<lambda>a b. sql_eq X (cr_id a) (cr_id b)", OF wf row(1,3)] Q(2) by blast
  then have "c = c0" using row(2,4) by simp
  with c0 a assms(6) show "cl_ID c = i" "ac_RedirectURI a \<in> set (elems (cl_RedirectURIs c))"
    "set (elems (ac_Scope a)) \<subseteq> set (elems (cl_Scopes c))" "elems (ac_Scope a) \<noteq> []"
    "\<forall>t \<in> set (elems (ac_Scope a)). token t"
    by simp_all
qed

text \<open>A refresh token with a scope that its client registered.\<close>

definition token_in_order :: "client \<Rightarrow> refresh_token \<Rightarrow> bool" where
  "token_in_order c t \<longleftrightarrow> rt_ClientID t = cl_ID c \<and> elems (rt_Scope t) \<noteq> []
     \<and> set (elems (rt_Scope t)) \<subseteq> set (elems (cl_Scopes c))
     \<and> (\<exists>raw. rt_TokenHash t = hashToken raw) \<and> uuid_text (rt_UserID t)"

lemma token_in_order_row:
  assumes "client_ok c" "c \<in> clients_of T" "token_in_order c t"
    and "scan_token row = Inr (token_stored X w t)" "tw_token_hash row = rt_TokenHash t"
  shows "token_row_ok T row"
proof -
  note t = assms(3) [unfolded token_in_order_def]
  have vs: "elems (valid_slice (rt_Scope t)) = elems (rt_Scope t)"
    using t assms(1) valid_strings [of "elems (cl_Scopes c)" "elems (rt_Scope t)"]
    by (simp add: client_ok_def)
  have cid: "char_value (cl_ID c) = cl_ID c" using assms(1) by (simp add: client_ok_def uuid_plain)
  have "lower_hex (tw_token_hash row) \<and> length (tw_token_hash row) = 64"
    using t by (auto simp: assms(5) hashToken_def)
  moreover have "elems (rt_Scope (token_stored X w t)) = elems (rt_Scope t)"
    "rt_ClientID (token_stored X w t) = cl_ID c"
    using vs t cid by (simp_all only: token_stored_def refresh_token.select_convs)
  ultimately show ?thesis
    unfolding token_row_ok_def using assms(2,4) t by metis
qed

lemma perform_token_create:
  assumes "env_ok X" "c \<in> clients_of (tables_of X w)" "token_in_order c t"
    and "rt_ExpiresAt t \<le> now w + 7 * 24 * 3600 * second"
    and "\<And>r w'. grows X w w' \<Longrightarrow> guards X Q w' (g r)"
  shows "guards X Q w (perform (Token_Create X t) g)"
proof (rule guarded_perform, intro conjI)
  note E = env_okD [OF assms(1)]
  fix w1 r w' assume a: "grows X w w1" "run (Token_Create X t) w1 = (r, w')"
  have f: "now w' = now w1" "store X w' = store X w1"
    by (rule sql_only_run [OF sql_only_ops(7) a(2)])+
  have s: "sound X w1" by (rule growsD(1) [OF a(1)])
  let ?T = "tables_of X w1"
  have c: "c \<in> clients_of ?T" "client_ok c"
    using growsD(3) [OF a(1) assms(2)] s by (auto simp: sound_def intro: clients_ok)
  obtain row where row: "scan_token row = Inr (token_stored X w1 t)" "tw_token_hash row = rt_TokenHash t"
    and T: "tables_of X w' = ?T\<lparr>t_tokens := t_tokens ?T @ [row]\<rparr> \<or> tables_of X w' = ?T"
    and owner: "tables_of X w' = ?T \<or> (\<exists>v \<in> set (t_users ?T). sql_eq X (us_ID v) (rt_UserID t))"
    by (rule Token_Create_tables [OF E(2,3) a(2)])
      (use Token_Create_owner [OF E(2) a(2)] in blast)
  have F: "tw_expires_at row = sql_datetime X (rt_ExpiresAt t)" "tw_user_id row = rt_UserID t"
    using scan_token_fields [OF row(1)] assms(3) uuid_plain by (auto simp: token_stored_def token_in_order_def)
  have "2 * \<bar>sql_datetime X (rt_ExpiresAt t) - rt_ExpiresAt t\<bar> \<le> second"
    using E(3) unfolding columns_ok_def by blast
  then have e: "2 * (tw_expires_at row - (now w1 + 7 * 24 * 3600 * second)) \<le> second"
    using abs_ge_self [of "sql_datetime X (rt_ExpiresAt t) - rt_ExpiresAt t"] assms(4)
      growsD(2) [OF a(1)] F(1) by simp
  have "tables_wf X (tables_of X w') \<and> rows_timely X (now w1) (tables_of X w')
      \<and> clients_of ?T \<subseteq> clients_of (tables_of X w')"
  proof (cases "tables_of X w' = ?T")
    case True
    with s show ?thesis by (simp add: sound_def inv_def)
  next
    case False
    with T have T: "tables_of X w' = ?T\<lparr>t_tokens := t_tokens ?T @ [row]\<rparr>" by simp
    have "tables_wf X (tables_of X w')"
      using s token_in_order_row [OF c(2,1) assms(3) row] token_row_ok_cong [of "tables_of X w'" ?T]
      by (auto simp: sound_def inv_def tables_wf_def T)
    moreover have "rows_timely X (now w1) (tables_of X w')"
      using s e owner False F(2) by (auto simp: sound_def rows_timely_def T)
    ultimately show ?thesis by (simp add: T clients_of_def)
  qed
  then show g: "grows X w1 w'" using s f by (intro grows_tables) auto
  show "guards X Q w' (g r)" using transpD [OF grows_trans a(1) g] by (rule assms(5))
qed

section \<open>Every thread is guarded\<close>

text \<open>What an answer promises, as long as the tables only grow: a registered client is stored with
  supported grant types; a redirect to a client goes to a URI that it registered, with a code only
  for scopes that it registered; tokens are for the client that presents itself, a redirect URI it
  registered and scopes it registered.\<close>

fun kept :: "('r, 'd) ext \<Rightarrow> tables \<Rightarrow> request \<Rightarrow> answer \<Rightarrow> bool" where
  "kept X T (RegisterClientRequest req) (ClientRegistered (Inr resp)) \<longleftrightarrow>
     (\<exists>c \<in> clients_of T. cl_ID c = rp_ClientID resp \<and> cl_Name c = rq_Name req
        \<and> set (elems (cl_GrantTypes c)) \<subseteq> {''authorization_code'', ''refresh_token''}
        \<and> (cl_ClientSecretHash c = [] \<longleftrightarrow> rq_IsPublic req))"
| "kept X T (AuthorizeRequest req i) (Authorized (Inr res)) \<longleftrightarrow>
     (az_Action res \<in> {ActionIssueCode, ActionErrorToClient} \<longrightarrow>
        az_RedirectURI res = aq_RedirectURI req
        \<and> (\<exists>c \<in> clients_of T. sql_eq X (cl_ID c) (aq_ClientID req)
            \<and> aq_RedirectURI req \<in> set (elems (cl_RedirectURIs c))
            \<and> (az_Action res = ActionIssueCode \<longrightarrow> Fields (aq_Scope req) \<noteq> []
                 \<and> set (Fields (aq_Scope req)) \<subseteq> set (elems (cl_Scopes c)))))"
| "kept X T (TokenRequest req) (Exchanged (Inr resp)) \<longleftrightarrow>
     (\<exists>c \<in> clients_of T. cl_ID c = tq_ClientID req
        \<and> tq_RedirectURI req \<in> set (elems (cl_RedirectURIs c)) \<and> Fields (tr_Scope resp) \<noteq> []
        \<and> set (Fields (tr_Scope resp)) \<subseteq> set (elems (cl_Scopes c)))"
| "kept X T _ _ \<longleftrightarrow> True"

lemma kept_later: "kept X T req a \<Longrightarrow> clients_of T \<subseteq> clients_of T' \<Longrightarrow> kept X T' req a"
  by (cases "(X, T, req, a)" rule: kept.cases) (auto; blast)+

lemma guarded_Done: "P w x \<Longrightarrow> guards X P w (Done x)"
  by (rule guarded.finished)

lemma trivial_thread: "guards X (\<lambda>_ _. True) w p \<Longrightarrow> guards X (\<lambda>_ _. True) w (finish f p)"
  by (erule guarded_andthen) (auto intro: guarded_Done)

lemma session_create_guarded:
  assumes "env_ok X" "\<And>w r. P w r"
  shows "guards X P w (Session_Create_thread X u e)"
proof -
  have e: "entry_ok X T (sessionKeyPrefix @ i) p" if "marshal_session (time_text X) s = Some p" for T i s p
    by (rule entry_ok_session [OF env_okD(4) [OF assms(1)] that])
  show ?thesis
    unfolding Session_Create_thread_def
    by (auto intro!: perform_draw perform_now perform_set guarded_Done assms e simp: in_time_def
        split: option.split sum.split)
qed

lemma access_token_guarded:
  "(\<And>w' r. grows X w w' \<Longrightarrow> P w' r) \<Longrightarrow> guards X P w (IssueAccessToken_thread X u e c s)"
  unfolding IssueAccessToken_thread_def
  by (intro perform_now perform_draw guarded_Done) (blast intro: grows_trans [THEN transpD])

lemma users_guarded:
  assumes "env_ok X"
  shows "guards X (\<lambda>_ _. True) w (Register_thread X inp)" "guards X (\<lambda>_ _. True) w (Login_thread X req)"
    "guards X (\<lambda>_ _. True) w (RefreshToken_thread X raw)" "guards X (\<lambda>_ _. True) w (atomic (Logout X i))"
proof -
  have h: "length h = 60" if "bcrypt_gen X n p = Some h" for n p h
    using env_okD(4) [OF assms] that by (simp add: library_ok_def)
  have i: "uuid_text (new_uuid X n)" for n using env_okD(4) [OF assms] by (simp add: library_ok_def)
  show "guards X (\<lambda>_ _. True) w (Register_thread X inp)"
    unfolding Register_thread_def Let_def
    by (auto intro!: perform_user perform_draw perform_user_create guarded_Done simp: assms h i
        split: option.split sum.split)
  show "guards X (\<lambda>_ _. True) w (Login_thread X req)"
    unfolding Login_thread_def
    by (auto intro!: perform_user guarded_andthen [OF session_create_guarded [where P = "\<lambda>_ _. True"]]
        guarded_Done simp: assms split: option.split sum.split)
  show "guards X (\<lambda>_ _. True) w (RefreshToken_thread X raw)"
    unfolding RefreshToken_thread_def
    by (auto intro!: perform_found perform_user perform_now guarded_andthen [OF access_token_guarded [where P = "\<lambda>_ _. True"]]
        guarded_Done simp: assms split: option.split sum.split)
  show "guards X (\<lambda>_ _. True) w (atomic (Logout X i))"
  proof (rule guarded_atomic, intro conjI TrueI)
    fix w1 r w' assume a: "grows X w w1" "run (Logout X i) w1 = (r, w')"
    show "grows X w1 w'"
    proof (cases "i = []")
      case False
      with a(2) have d: "run (Session_Destroy X i) w1 = (r, w')" by (simp add: Logout_def)
      have "store X w' \<subseteq>\<^sub>m store X w1"
        using Session_Destroy_cases [OF env_okD(1) [OF assms] d] by (auto simp: map_le_def split: if_splits)
      then show ?thesis
        using growsD(1) [OF a(1)] keeps_field_runD [OF session_ops_frame(6) d]
          keeps_field_runD [OF session_ops_frame(7) d]
        by (intro grows_submap) (simp_all add: tables_of_def)
    qed (use a in \<open>auto simp: Logout_def intro: grows_refl growsD\<close>)
  qed
qed

lemma secret_guarded:
  assumes "env_ok X" and "\<And>r w'. grows X w w' \<Longrightarrow> (\<And>raw h. r = Inr (raw, h) \<Longrightarrow>
      (h = [] \<longleftrightarrow> p) \<and> (h = [] \<or> length h = 60)) \<Longrightarrow> guards X Q w' (g r)"
  shows "guards X Q w (perform (make_secret X p) g)"
proof (rule guarded_perform, intro conjI)
  fix w1 r w' assume a: "grows X w w1" "run (make_secret X p) w1 = (r, w')"
  show g: "grows X w1 w'"
    using keeps_field_runD [OF make_secret_frame(1) a(2)] keeps_field_runD [OF make_secret_frame(2) a(2)]
      keeps_field_runD [OF make_secret_frame(3) a(2)]
    by (intro grows_same [OF growsD(1) [OF a(1)]]) (simp_all add: store_def tables_of_def)
  have b: "length h = 60" if "bcrypt_gen X n q = Some h" for n q h
    using env_okD(4) [OF assms(1)] that by (simp add: library_ok_def)
  have "(h = [] \<longleftrightarrow> p) \<and> (h = [] \<or> length h = 60)" if "r = Inr (raw, h)" for raw h
    using a(2) that by (auto simp: make_secret_def Let_def split: if_splits option.splits dest: b)
  then show "guards X Q w' (g r)" by (intro assms(2) [OF transpD [OF grows_trans a(1) g]])
qed

lemma register_client_guarded:
  assumes "env_ok X"
  shows "guards X (\<lambda>w r. kept X (tables_of X w) (RegisterClientRequest req) (ClientRegistered r)) w
    (RegisterClient_thread X req)"
proof (cases "check_grant_types X (rq_IsPublic req) (elems (rq_GrantTypes req))")
  case (Some e)
  then show ?thesis by (auto simp: RegisterClient_thread_def intro!: guarded_Done)
next
  case None
  have i: "uuid_text (new_uuid X n)" "char_value (new_uuid X n) = new_uuid X n" for n
    using env_okD(4) [OF assms] uuid_plain by (simp_all add: library_ok_def)
  have g: "\<forall>gt \<in> set (elems (rq_GrantTypes req)). supported_grant gt"
    using None by (simp add: check_grant_types_None)
  have ok: "client_ok (client_stored X w \<lparr>cl_ID = new_uuid X n, cl_Name = rq_Name req,
      cl_ClientSecretHash = h, cl_RedirectURIs = rq_RedirectURIs req, cl_Scopes = rq_Scopes req,
      cl_GrantTypes = rq_GrantTypes req, cl_IsFirstParty = rq_IsFirstParty req, cl_CreatedAt = zero_time\<rparr>)"
    if "h = [] \<or> length h = 60" for w h n
    using that g check_grants_valid [OF g]
    by (auto simp: client_ok_def client_stored_def i intro: supported_valid)
  have gs: "set (elems (valid_slice (rq_GrantTypes req))) \<subseteq> {''authorization_code'', ''refresh_token''}"
    using g check_grants_valid [OF g] by (auto simp: supported_grant_iff)
  show ?thesis
    unfolding RegisterClient_thread_def None option.case
  proof (rule secret_guarded [OF assms], goal_cases)
    case (1 r w1)
    show ?case
    proof (cases r)
      case (Inr rh)
      obtain raw h where rh: "rh = (raw, h)" by fastforce
      with 1(2) [of raw h] Inr have h: "h = [] \<longleftrightarrow> rq_IsPublic req" "h = [] \<or> length h = 60" by auto
      show ?thesis
        unfolding Inr rh sum.case prod.case
      proof (intro perform_draw perform_client_create [where ?w0.0 = w] guarded_Done, goal_cases)
        case (3 w2 n)
        show ?case by (rule ok [OF h(2), of w])
      next
        case (4 w2 n r w3)
        show ?case
        proof (cases r)
          case (Inr x)
          let ?c = "\<lparr>cl_ID = new_uuid X n, cl_Name = rq_Name req, cl_ClientSecretHash = h,
            cl_RedirectURIs = rq_RedirectURIs req, cl_Scopes = rq_Scopes req, cl_GrantTypes = rq_GrantTypes req,
            cl_IsFirstParty = rq_IsFirstParty req, cl_CreatedAt = zero_time\<rparr>"
          from 4(3) [unfolded Inr, simplified] obtain w4 where
            c: "client_stored X w4 ?c \<in> clients_of (tables_of X w3)" ..
          have "cl_ID (client_stored X w4 ?c) = new_uuid X n" "cl_Name (client_stored X w4 ?c) = rq_Name req"
            "cl_GrantTypes (client_stored X w4 ?c) = valid_slice (rq_GrantTypes req)"
            "cl_ClientSecretHash (client_stored X w4 ?c) = h"
            by (simp_all add: client_stored_def i)
          then show ?thesis
            unfolding Inr kept.simps sum.case register_client_response.select_convs
            by (intro bexI [OF _ c] conjI) (simp_all only: gs h(1))
        qed simp
      qed (simp_all add: assms i)
    qed (simp add: guarded_Done)
  qed
qed

text \<open>A code that is stored says what its client registered, whatever happened since the lookup.\<close>

lemma code_entry_ok:
  assumes "env_ok X" "c \<in> clients_of T" "client_ok c" "uri \<in> set (elems (cl_RedirectURIs c))"
    and "scope_granted c sc" "d = \<lparr>ac_ClientID = cl_ID c, ac_UserID = u, ac_RedirectURI = uri,
      ac_Scope = Some (Fields sc), ac_CodeChallenge = ch, ac_CodeChallengeMethod = m, ac_Nonce = n,
      ac_CreatedAt = t\<rparr>"
    and "marshal_auth_code (time_text X) d = Some p"
  shows "entry_ok X T (authCodeKeyPrefix @ k) p"
proof -
  have v: "to_valid (cl_ID c) = cl_ID c" "to_valid uri = uri" "map to_valid (Fields sc) = Fields sc"
    using assms(3-5) valid_strings [of "elems (cl_Scopes c)" "Fields sc"]
    by (auto simp: client_ok_def uuid_plain to_valid_ascii scope_granted_def intro: to_valid_id)
  have "code_ok T (valid_code d)"
    using assms(2,4,5) by (auto simp: code_ok_def valid_code_def assms(6) v scope_granted_def dest: fields_tokens)
  then show ?thesis
    using auth_code_roundtrip [OF _ assms(7)] env_okD(4) [OF assms(1)]
    by (auto simp: entry_ok_def library_ok_def)
qed

definition promised :: "('r, 'd) ext \<Rightarrow> request \<Rightarrow> ('a \<Rightarrow> answer) \<Rightarrow> ('r, 'd) world \<Rightarrow> 'a \<Rightarrow> bool" where
  "promised X req f w r \<longleftrightarrow> kept X (tables_of X w) req (f r)"

lemma code_create_guarded:
  assumes "env_ok X" "grows X w0 w" "c \<in> clients_of (tables_of X w0)" "client_ok c"
    and "uri \<in> set (elems (cl_RedirectURIs c))" "scope_granted c sc"
  shows "guards X (\<lambda>w' _. grows X w0 w') w (AuthCode_Create_thread X \<lparr>ac_ClientID = cl_ID c,
      ac_UserID = u, ac_RedirectURI = uri, ac_Scope = Some (Fields sc), ac_CodeChallenge = ch,
      ac_CodeChallengeMethod = m, ac_Nonce = n, ac_CreatedAt = zero_time\<rparr>)"
proof -
  have tr: "grows X w0 w'" if "grows X w0 w1" "grows X w1 w'" for w1 w'
    using transpD [OF grows_trans that] .
  have e: "entry_ok X (tables_of X w') (authCodeKeyPrefix @ k) p"
    if "grows X w0 w'" "marshal_auth_code (time_text X) \<lparr>ac_ClientID = cl_ID c, ac_UserID = u,
      ac_RedirectURI = uri, ac_Scope = Some (Fields sc), ac_CodeChallenge = ch,
      ac_CodeChallengeMethod = m, ac_Nonce = n, ac_CreatedAt = t\<rparr> = Some p" for w' k p t
    by (rule code_entry_ok [OF assms(1) growsD(3) [OF that(1) assms(3)] assms(4-6) refl that(2)])
  show ?thesis
    unfolding AuthCode_Create_thread_def
  proof (rule perform_draw)
    fix w1 b assume g: "grows X w w1"
    note g1 = tr [OF assms(2) g]
    show "guards X (\<lambda>w' _. grows X w0 w') w1 (case rand32 X b of
        None \<Rightarrow> Done (Inl (wrap ''AuthCodeRepository.Create random'' (ErrNew ''rand'')))
      | Some bytes \<Rightarrow> perform time_Now (\<lambda>created. case marshal_auth_code (time_text X) (\<lparr>ac_ClientID = cl_ID c,
            ac_UserID = u, ac_RedirectURI = uri, ac_Scope = Some (Fields sc), ac_CodeChallenge = ch,
            ac_CodeChallengeMethod = m, ac_Nonce = n, ac_CreatedAt = zero_time\<rparr>\<lparr>ac_CreatedAt := created\<rparr>) of
          None \<Rightarrow> Done (Inl (wrap ''AuthCodeRepository.Create marshal'' (ErrNew ''json'')))
        | Some payload \<Rightarrow> perform (Cache_Set X (authCodeKeyPrefix @ base64_raw_url bytes) payload authCodeTTL)
            (\<lambda>r. Done (case r of Inl e \<Rightarrow> Inl (wrap ''AuthCodeRepository.Create'' e)
              | Inr _ \<Rightarrow> Inr (base64_raw_url bytes)))))"
      using tr [OF g1] transpD [OF grows_trans, of X w1]
      by (auto intro!: perform_now perform_set guarded_Done assms(1) e simp: g1 in_time_def
          split: option.split)
  qed
qed

lemma authorize_guarded:
  assumes "env_ok X"
  shows "guards X (promised X (AuthorizeRequest req i) Authorized) w (Authorize_thread X req i)"
  unfolding Authorize_thread_def
proof (rule perform_client [OF assms], goal_cases)
  case (1 found w1)
  let ?P = "promised X (AuthorizeRequest req i) Authorized"
  consider "\<And>c. found \<noteq> Inr (Some c)" | c where "found = Inr (Some c)" by (cases found) (metis option.exhaust)+
  then show ?case
  proof cases
    case 1
    then show ?thesis
      by (auto intro!: guarded_Done simp: promised_def plain_result_def split: sum.split option.split)
  next
    case (2 c)
    with 1(2) have c: "c \<in> clients_of (tables_of X w1)" "sql_eq X (cl_ID c) (aq_ClientID req)" "client_ok c"
      by auto
    have err: "guards X ?P w' (Done (Inr (errorToClient req e)))"
      if "grows X w1 w'" "aq_RedirectURI req \<in> set (elems (cl_RedirectURIs c))" for w' e
      using growsD(3) [OF that(1) c(1)] c(2) that(2)
      by (intro guarded_Done) (auto simp: promised_def errorToClient_def plain_result_def)
    have code: "guards X ?P w' (andthen (AuthCode_Create_thread X \<lparr>ac_ClientID = cl_ID c,
        ac_UserID = u, ac_RedirectURI = aq_RedirectURI req, ac_Scope = Some (Fields (aq_Scope req)),
        ac_CodeChallenge = aq_CodeChallenge req, ac_CodeChallengeMethod = aq_CodeChallengeMethod req,
        ac_Nonce = aq_Nonce req, ac_CreatedAt = zero_time\<rparr>) (\<lambda>r. Done (case r of
          Inl e \<Rightarrow> Inl (wrap ''AuthService.Authorize'' e)
        | Inr code \<Rightarrow> Inr ((plain_result ActionIssueCode)\<lparr>az_RedirectURI := aq_RedirectURI req,
            az_State := aq_State req, az_Code := code\<rparr>))))"
      if g: "grows X w1 w'" and uri: "aq_RedirectURI req \<in> set (elems (cl_RedirectURIs c))"
        and sc: "scope_granted c (aq_Scope req)" for w' u
    proof (rule guarded_andthen)
      show "guards X (\<lambda>w _. grows X w1 w) w' (AuthCode_Create_thread X \<lparr>ac_ClientID = cl_ID c,
        ac_UserID = u, ac_RedirectURI = aq_RedirectURI req, ac_Scope = Some (Fields (aq_Scope req)),
        ac_CodeChallenge = aq_CodeChallenge req, ac_CodeChallengeMethod = aq_CodeChallengeMethod req,
        ac_Nonce = aq_Nonce req, ac_CreatedAt = zero_time\<rparr>)"
        by (rule code_create_guarded [OF assms g c(1,3) uri sc])
      fix w2 r assume "grows X w1 w2"
      from growsD(3) [OF this c(1)] c(2) uri sc
      show "guards X ?P w2 (Done (case r of
          Inl e \<Rightarrow> Inl (wrap ''AuthService.Authorize'' e)
        | Inr code \<Rightarrow> Inr ((plain_result ActionIssueCode)\<lparr>az_RedirectURI := aq_RedirectURI req,
            az_State := aq_State req, az_Code := code\<rparr>)))"
        by (intro guarded_Done) (auto simp: promised_def scope_granted_def plain_result_def split: sum.split)
    qed
    have sc: "scope_granted c (aq_Scope req)"
      if "Fields (aq_Scope req) \<noteq> []" "ContainsAll (elems (cl_Scopes c)) (Fields (aq_Scope req))"
      using that by (simp add: scope_granted_def ContainsAll_iff)
    have w1: "grows X w1 w1" by (rule grows_refl [OF growsD(1) [OF 1(1)]])
    note D = 2 sum.case option.case Let_def
    show ?thesis
    proof (cases "aq_RedirectURI req \<in> set (elems (cl_RedirectURIs c))")
      case False
      show ?thesis
        unfolding D if_P [OF False] by (rule guarded_Done) (simp add: promised_def plain_result_def)
    next
      case uri: True
      then have nuri: "\<not> aq_RedirectURI req \<notin> set (elems (cl_RedirectURIs c))" by blast
      show ?thesis
        unfolding D if_not_P [OF nuri]
      proof (split if_split, intro conjI impI)
        show "guards X ?P w1 (Done (Inr (errorToClient req ''invalid_scope'')))" by (rule err [OF w1 uri])
        assume "\<not> (Fields (aq_Scope req) = [] \<or> \<not> ContainsAll (elems (cl_Scopes c)) (Fields (aq_Scope req)))"
        then have sc: "scope_granted c (aq_Scope req)" using sc by blast
        show "guards X ?P w1 (if ''none'' \<in> set (Fields (aq_Prompt req)) \<and> length (Fields (aq_Prompt req)) > 1
          then Done (Inr (errorToClient req ''invalid_request''))
          else perform (SessionByID X i) (\<lambda>sess. case sess of
              Inl e \<Rightarrow> Done (Inl (wrap ''AuthService.Authorize'' e))
            | Inr None \<Rightarrow> if ''none'' \<in> set (Fields (aq_Prompt req))
                then Done (Inr (errorToClient req ''login_required''))
                else Done (Inr (plain_result ActionRequireLogin))
            | Inr (Some s) \<Rightarrow> andthen (AuthCode_Create_thread X \<lparr>ac_ClientID = cl_ID c,
                ac_UserID = se_UserID s, ac_RedirectURI = aq_RedirectURI req,
                ac_Scope = Some (Fields (aq_Scope req)), ac_CodeChallenge = aq_CodeChallenge req,
                ac_CodeChallengeMethod = aq_CodeChallengeMethod req, ac_Nonce = aq_Nonce req,
                ac_CreatedAt = zero_time\<rparr>) (\<lambda>r. Done (case r of
                Inl e \<Rightarrow> Inl (wrap ''AuthService.Authorize'' e)
              | Inr code \<Rightarrow> Inr ((plain_result ActionIssueCode)\<lparr>az_RedirectURI := aq_RedirectURI req,
                  az_State := aq_State req, az_Code := code\<rparr>)))))"
          by (auto intro!: err [OF _ uri] code [OF _ uri sc] w1 perform_session assms split: option.split sum.split)
            (auto intro!: guarded_Done simp: promised_def plain_result_def)
      qed
    qed
  qed
qed

lemma mint_guarded:
  assumes "env_ok X" "grows X w0 w" "c \<in> clients_of (tables_of X w0)" "uuid_text (us_ID u)"
    and "elems (ac_Scope a) \<noteq> []" "set (elems (ac_Scope a)) \<subseteq> set (elems (cl_Scopes c))"
  shows "guards X (\<lambda>w' r. grows X w0 w' \<and> (\<forall>resp. r = Inr resp \<longrightarrow> tr_Scope resp = join (elems (ac_Scope a)) '' ''))
    w (mint_pair_thread X u c a)"
proof -
  note tr = transpD [OF grows_trans]
  let ?P = "\<lambda>w' r. grows X w0 w' \<and> (\<forall>resp. r = Inr resp \<longrightarrow> tr_Scope resp = join (elems (ac_Scope a)) '' '')"
  have store: "guards X ?P w2 (perform (Token_Create X \<lparr>rt_ID = i, rt_UserID = us_ID u, rt_ClientID = cl_ID c,
           rt_Scope = ac_Scope a, rt_TokenHash = hashToken raw, rt_ExpiresAt = t + 7 * 24 * 3600 * second,
           rt_RevokedAt = None, rt_CreatedAt = zero_time\<rparr>) (\<lambda>r.
         Done (case r of Inl e \<Rightarrow> Inl (wrap ''TokenGrantService.authorizationCodeGrant'' e)
           | Inr _ \<Rightarrow> Inr \<lparr>tr_AccessToken = at_AccessTokenString at, tr_TokenType = ''Bearer'',
               tr_ExpiresIn = at_AccessTokenExpiresIn at, tr_Scope = join (elems (ac_Scope a)) '' '',
               tr_RefreshToken = raw\<rparr>)))"
    if "grows X w0 w2" "t \<le> now w2" for w2 i raw t at
    using growsD(3) [OF that(1) assms(3)] that(2) assms(1,4-6) tr [OF that(1)]
    by (intro perform_token_create [where c = c] guarded_Done)
      (simp_all add: token_in_order_def exI [of _ raw] split: sum.split)
  show ?thesis
    unfolding mint_pair_thread_def Let_def
  proof (rule guarded_andthen [OF access_token_guarded [where P = "\<lambda>w' _. grows X w0 w'"]])
    show "grows X w w' \<Longrightarrow> grows X w0 w'" for w' using assms(2) by (rule tr)
    fix w1 r assume g: "grows X w0 w1"
    show "guards X ?P w1 (case r of
        Inl e \<Rightarrow> Done (Inl (wrap ''TokenGrantService.authorizationCodeGrant'' e))
      | Inr accessToken \<Rightarrow>
         perform time_Now (\<lambda>t.
         perform (draw (new_uuid X)) (\<lambda>refreshTokenRaw.
         perform (draw (new_uuid X)) (\<lambda>i.
         perform (Token_Create X \<lparr>rt_ID = i, rt_UserID = us_ID u, rt_ClientID = cl_ID c,
           rt_Scope = ac_Scope a, rt_TokenHash = hashToken refreshTokenRaw,
           rt_ExpiresAt = t + 7 * 24 * 3600 * second, rt_RevokedAt = None,
           rt_CreatedAt = zero_time\<rparr>) (\<lambda>r.
         Done (case r of
           Inl e \<Rightarrow> Inl (wrap ''TokenGrantService.authorizationCodeGrant'' e)
         | Inr _ \<Rightarrow> Inr \<lparr>tr_AccessToken = at_AccessTokenString accessToken,
             tr_TokenType = ''Bearer'', tr_ExpiresIn = at_AccessTokenExpiresIn accessToken,
             tr_Scope = join (elems (ac_Scope a)) '' '', tr_RefreshToken = refreshTokenRaw\<rparr>))))))"
    proof (cases r)
      case (Inr accessToken)
      show ?thesis
        unfolding Inr sum.case
      proof (intro perform_now perform_draw store, goal_cases)
        case (1 w2 w3 n w4 m)
        show ?case by (rule tr [OF tr [OF tr [OF g 1(1)] 1(2)] 1(3)])
      next
        case (2 w2 w3 n w4 m)
        then show ?case using growsD(2) by (metis order_trans)
      qed
    qed (auto intro: guarded_Done g)
  qed
qed

lemma guarded_if:
  "(b \<Longrightarrow> guarded R Q s p) \<Longrightarrow> (\<not> b \<Longrightarrow> guarded R Q s q) \<Longrightarrow> guarded R Q s (if b then p else q)"
  by simp

lemma exchange_guarded:
  assumes "env_ok X"
  shows "guards X (promised X (TokenRequest req) Exchanged) w (Exchange_thread X req)"
proof -
  note tr = transpD [OF grows_trans]
  let ?P = "promised X (TokenRequest req) Exchanged"
  have failed: "guards X ?P w' (Done (Inl e))" for w' e
    by (rule guarded_Done) (simp add: promised_def)
  have mint: "guards X ?P w2 (mint_pair_thread X u c a)"
    if "sound X w1" "c \<in> clients_of (tables_of X w1)" "sql_eq X (cl_ID c) (tq_ClientID req)"
      "code_ok (tables_of X w1) a" "ac_ClientID a = tq_ClientID req" "ac_RedirectURI a = tq_RedirectURI req"
      "grows X w1 w2" "uuid_text (us_ID u)" for w1 w2 c a u
  proof -
    note S = same_client [OF assms that(1-5)]
    show ?thesis
    proof (rule guarded_weaken [OF mint_guarded [OF assms that(7,2,8) S(4,3)]])
      fix w' and r :: "goerr + token_response"
      assume r: "grows X w1 w' \<and> (\<forall>resp. r = Inr resp \<longrightarrow> tr_Scope resp = join (elems (ac_Scope a)) '' '')"
      show "?P w' r"
      proof (cases r)
        case (Inr resp)
        have f: "Fields (tr_Scope resp) = elems (ac_Scope a)"
          using r Inr fields_join [OF S(5)] by simp
        have c: "c \<in> clients_of (tables_of X w')" using growsD(3) [OF conjunct1 [OF r] that(2)] .
        show ?thesis
          unfolding promised_def Inr kept.simps f
          by (intro bexI [OF _ c] conjI S(1,3,4)) (use S(2) that(6) in simp)
      qed (simp add: promised_def)
    qed
  qed
  have "guards X ?P w (authorizationCodeGrant_thread X req)"
    unfolding authorizationCodeGrant_thread_def
  proof (rule perform_client [OF assms], goal_cases)
    case (1 found w1)
    consider e where "found = Inl e" | "found = Inr None" | c where "found = Inr (Some c)"
      by (cases found) (metis option.exhaust)+
    then show ?case
    proof cases
      case (3 c)
      with 1(2) have c: "c \<in> clients_of (tables_of X w1)" "sql_eq X (cl_ID c) (tq_ClientID req)" by auto
      show ?thesis
        unfolding 3 sum.case option.case
      proof (rule guarded_if, rule failed, rule perform_consume [OF assms], goal_cases)
        case (1 r w2)
        show ?case
        proof (cases r)
          case (Inr a)
          show ?thesis
            unfolding Inr sum.case
          proof (rule guarded_if, rule failed, rule guarded_if, rule failed, rule perform_user(1) [OF assms], goal_cases)
            case o: (1 owner w3)
            note m = mint [OF growsD(1) [OF 1(2)] growsD(3) [OF 1(2) c(1)] c(2) 1(3) [OF Inr] _ _ o(3)]
            show ?case
              using o(1,4) m by (auto intro: failed split: sum.split option.split)
          qed
        qed (simp add: failed)
      qed
    qed (simp_all add: failed)
  qed
  moreover have "guards X ?P w (atomic (refreshTokenGrant X req))"
    by (rule guarded_atomic) (auto simp: refreshTokenGrant_def promised_def intro: grows_refl growsD)
  ultimately show ?thesis
    unfolding Exchange_thread_def using failed by simp
qed

lemma serve_guarded:
  assumes "env_ok X"
  shows "guards X (\<lambda>w. kept X (tables_of X w) req) w (serve X req)"
proof -
  show ?thesis
  proof (cases req)
    case (RegisterClientRequest r)
    show ?thesis unfolding RegisterClientRequest serve.simps
      by (rule guarded_andthen [OF register_client_guarded [OF assms]]) (auto intro!: guarded_Done)
  next
    case (AuthorizeRequest r i)
    show ?thesis unfolding AuthorizeRequest serve.simps
      by (rule guarded_andthen [OF authorize_guarded [OF assms]]) (auto intro!: guarded_Done simp only: promised_def)
  next
    case (TokenRequest r)
    show ?thesis unfolding TokenRequest serve.simps
      by (rule guarded_andthen [OF exchange_guarded [OF assms]]) (auto intro!: guarded_Done simp only: promised_def)
  qed (auto intro!: guarded_andthen [OF users_guarded(1) [OF assms]] guarded_andthen [OF users_guarded(2) [OF assms]]
      guarded_andthen [OF users_guarded(3) [OF assms]] guarded_andthen [OF users_guarded(4) [OF assms]] guarded_Done)
qed

section \<open>The world outside\<close>

lemma exec_grows:
  assumes "env_ok X" "sound X w"
    and "run (do { r \<leftarrow> sql_call (sql_exec X s);
                   ret (case r of Inl e \<Rightarrow> Inl (wrap m e) | Inr _ \<Rightarrow> Inr ()) }) w = (r, w')"
    and "\<And>T. tables_wf X T \<Longrightarrow> tables_wf X (snd (sem_exec X s (now w) T))
      \<and> t_clients (snd (sem_exec X s (now w) T)) = t_clients T"
    and "\<And>T. rows_timely X (now w) T \<Longrightarrow> rows_timely X (now w) (snd (sem_exec X s (now w) T))"
  shows "grows X w w'"
proof -
  have f: "now w' = now w" "store X w' = store X w"
    using assms(3) by (auto simp: store_def run_simps split: prod.splits)
  have i: "inv X w" "tables_wf X (tables_of X w)" "rows_timely X (now w) (tables_of X w)"
    using assms(2) by (simp_all add: sound_def inv_def)
  consider "tables_of X w' = tables_of X w"
    | "tables_of X w' = snd (sem_exec X s (now w) (tables_of X w))"
    using exec_tables(2) [OF env_okD(2) [OF assms(1)] assms(3)] by blast
  then show ?thesis
  proof cases
    case 1
    with assms(2) f show ?thesis by (intro grows_same) simp_all
  next
    case 2
    then show ?thesis
      using assms(4) [OF i(2)] assms(5) [OF i(3)]
      by (intro grows_tables [OF assms(2) f]) (simp_all add: clients_of_def)
  qed
qed

lemma rows_timely_delete:
  assumes "rows_timely X t T"
  shows "rows_timely X t (snd (sem_exec X (DeleteUser i) t T))"
  using assms unfolding rows_timely_def sem_exec.simps snd_conv
  by (simp add: Ball_def) blast

lemma outside_grows:
  assumes "outside X w w'" "env_ok X" "sound X w"
  shows "grows X w w'"
proof -
  note ex = exec_grows [OF assms(2,3)]
  show ?thesis
    using assms(1)
  proof cases
    case (tick d)
    with assms(3) show ?thesis by (intro grows_same) (simp_all add: store_def tables_of_def)
  next
    case (evict r)
    with assms(3) show ?thesis by (intro grows_submap) (simp_all add: store_def tables_of_def)
  next
    case (delete_user i rd)
    show ?thesis
      by (rule ex [OF delete_user [unfolded User_Delete_def] _ rows_timely_delete]) (auto intro: tables_wf_users)
  next
    case (revoke i rv)
    show ?thesis
      by (rule ex [OF revoke [unfolded Token_Revoke_def]]) (auto simp: tables_wf_revoke rows_timely_def)
  next
    case (revoke_all i rv)
    show ?thesis
      by (rule ex [OF revoke_all [unfolded Token_RevokeAllForUser_def]]) (auto simp: tables_wf_revoke rows_timely_def)
  next
    case (delete_expired rv)
    show ?thesis
      by (rule ex [OF delete_expired [unfolded Token_DeleteExpired_def]])
        (auto intro: tables_wf_users [where P = "\<lambda>_. True"] simp: rows_timely_def)
  qed
qed

section \<open>Every interleaving\<close>

definition pool_sound :: "('r, 'd) ext \<Rightarrow> ('r, 'd) in_progress \<times> ('r, 'd) world \<Rightarrow> bool" where
  "pool_sound X s \<longleftrightarrow> sound X (snd s)
     \<and> (\<forall>req p. (req, p) \<in> set (fst s) \<longrightarrow> guards X (\<lambda>w. kept X (tables_of X w) req) (snd s) p)"

lemma guards_later:
  "guards X (\<lambda>w. kept X (tables_of X w) req) w p \<Longrightarrow> grows X w w'
    \<Longrightarrow> guards X (\<lambda>w. kept X (tables_of X w) req) w' p"
  by (erule guarded_rely [OF _ _ grows_trans]) (auto simp: grows_def elim: kept_later)

lemma move_sound:
  assumes "move X s s'" "env_ok X" "pool_sound X s"
  shows "pool_sound X s'"
  using assms(1)
proof cases
  case (arrive ts w req)
  with assms(3) serve_guarded [OF assms(2)] show ?thesis by (auto simp: pool_sound_def)
next
  case (turn f w p w' ts req us)
  have a: "guards X (\<lambda>w. kept X (tables_of X w) req) w (Act f)" "sound X w"
    using assms(3) by (auto simp: pool_sound_def turn)
  note S = guarded_step [OF a(1) grows_refl [OF a(2)] turn(3)]
  show ?thesis
    using assms(3) S guards_later [OF _ S(1)] growsD(1) [OF S(1)] by (auto simp: pool_sound_def turn)
next
  case (other w w' ts)
  have g: "grows X w w'"
    using assms(3) by (intro outside_grows [OF other(3) assms(2)]) (simp add: pool_sound_def other)
  with assms(3) guards_later [OF _ g] growsD(1) [OF g] show ?thesis by (auto simp: pool_sound_def other)
qed

lemma interleaved_sound:
  assumes "interleaved X s" "env_ok X"
  shows "pool_sound X s"
  using assms(1)
proof induction
  case (start w)
  then show ?case by (simp add: pool_sound_def initial_sound)
qed (rule move_sound [OF _ assms(2)])

end
