(* ===== verification/InterleavedProperties.thy ===== *)
theory InterleavedProperties
  imports Interference SystemProperties
begin

text \<open>
  What holds of the service however its requests are interleaved: the invariants of the stored
  data, the promise of every answer, and the bounds on lifetimes.
\<close>

text \<open>C8: In every state of the interleaved service each grant stays within what its client registered:
  every stored client has only supported grant types and either no secret hash or one of bcrypt's
  length; every refresh token row has 64 hexadecimal digits in place of the token, and a scope that
  is not empty and lies within the scopes of a stored client with that identifier; every code that
  can be redeemed is bound to a stored client, to a redirect URI that it registered, and to such a
  scope, although other requests acted between the check of the client and the storing of the code.\<close>

theorem interleaved_grants:
  assumes "env_ok X" "interleaved X (ts, w)"
  shows "(\<forall>c \<in> stored_clients X w. set (elems (cl_GrantTypes c)) \<subseteq> {''authorization_code'', ''refresh_token''}
      \<and> length (cl_ClientSecretHash c) \<in> {0, 60})
    \<and> (\<forall>t \<in> stored_tokens X w. lower_hex (rt_TokenHash t) \<and> length (rt_TokenHash t) = 64
        \<and> elems (rt_Scope t) \<noteq> []
        \<and> (\<exists>c \<in> stored_clients X w. cl_ID c = rt_ClientID t
            \<and> set (elems (rt_Scope t)) \<subseteq> set (elems (cl_Scopes c))))
    \<and> (\<forall>k a. code_at X w k = Some a \<longrightarrow> elems (ac_Scope a) \<noteq> []
        \<and> (\<exists>c \<in> stored_clients X w. cl_ID c = ac_ClientID a
            \<and> ac_RedirectURI a \<in> set (elems (cl_RedirectURIs c))
            \<and> set (elems (ac_Scope a)) \<subseteq> set (elems (cl_Scopes c))))"
  using interleaved_sound [OF assms(2,1)] by (intro inv_grants) (simp add: pool_sound_def sound_def)

theorem interleaved_grants_witness:
  "\<exists>ts w k a. interleaved ref_ext (ts, w) \<and> code_at ref_ext w k = Some a
    \<and> (\<exists>c. c \<in> stored_clients ref_ext w \<and> cl_ID c = ac_ClientID a)"
proof -
  obtain w k a where w: "reachable ref_ext w" "code_at ref_ext w k = Some a"
    by (rule ref_code_stored)
  obtain ts where ts: "interleaved ref_ext (ts, w)" using reachable_interleaved [OF w(1)] ..
  from interleaved_grants [OF ref_env ts] w(2) ts show ?thesis by blast
qed

lemma clients_stored: "clients_of (tables_of X w) = stored_clients X w"
  by (simp add: clients_of_def stored_clients_def)

text \<open>Every answer keeps its promise (\<open>kept\<close>) in every later state, whatever the other requests did while it
  was worked out.  A client that a registration reported is stored under the new identifier, with
  only supported grant types, and with a secret hash unless it is public.  An authorization sends
  the browser only to a URI that a stored client of that identifier registered, and with a code only
  for scopes it registered.  Tokens are only for the client whose identifier the request presents,
  byte for byte, for a redirect URI and a non-empty scope that this client registered.\<close>

theorem interleaved_answers:
  assumes "env_ok X" "interleaved X (ts, w)" "(req, Done a) \<in> set ts"
  shows "kept X (tables_of X w) req a"
proof -
  have "guards X (\<lambda>w. kept X (tables_of X w) req) w (Done a)"
    using interleaved_sound [OF assms(2,1)] assms(3) by (auto simp: pool_sound_def)
  then show ?thesis by (rule guarded_DoneE)
qed

theorem interleaved_answers_witness:
  "\<exists>ts w q resp c. interleaved ref_ext (ts, w) \<and> (TokenRequest q, Done (Exchanged (Inr resp))) \<in> set ts
    \<and> c \<in> stored_clients ref_ext w \<and> cl_ID c = tq_ClientID q"
proof -
  obtain w q resp w' where w: "reachable ref_ext w" "run (Exchange ref_ext q) w = (Inr resp, w')"
    by (rule ref_exchanged)
  obtain ts where ts: "interleaved ref_ext (ts, w)" using reachable_interleaved [OF w(1)] ..
  have i: "interleaved ref_ext (ts @ [(TokenRequest q, Done (Exchanged (Inr resp)))], w')"
    by (rule interleaved_serve [OF ts]) (simp add: w(2))
  from interleaved_answers [OF ref_env i, of "TokenRequest q" "Exchanged (Inr resp)"] i show ?thesis
    by (intro exI [of _ "ts @ [(TokenRequest q, Done (Exchanged (Inr resp)))]"]) (fastforce simp: clients_stored)
qed

text \<open>C13: Nothing that grants access outlives its bound, counted from any moment in any interleaving: a
  code expires within sixty seconds and a session within thirty days, nothing in Redis is without
  expiry, and a refresh token expires within seven days and half a second (the rounding of its
  column) and belongs to a stored user.  What the service stores in place of a password is the
  sixty characters of a bcrypt hash.\<close>

theorem lifetimes_bounded:
  assumes "env_ok X" "interleaved X (ts, w)"
  shows "(\<forall>k v e. store X w k = Some (v, e) \<longrightarrow> (\<exists>t. e = Some t
        \<and> ((\<exists>c. k = ''authcode:'' @ c) \<and> t \<le> now w + 60 * second
          \<or> (\<exists>i. k = ''session:'' @ i) \<and> t \<le> now w + 30 * 24 * 3600 * second)))
    \<and> (\<forall>t \<in> stored_tokens X w. 2 * (rt_ExpiresAt t - (now w + 7 * 24 * 3600 * second)) \<le> second
        \<and> (\<exists>u \<in> stored_users X w. sql_eq X (us_ID u) (rt_UserID t)))
    \<and> (\<forall>u \<in> stored_users X w. length (us_PasswordHash u) = 60)"
proof -
  have s: "store_ok X (tables_of X w) (store X w)" "store_timely (now w) (store X w)"
    "rows_timely X (now w) (tables_of X w)"
    using interleaved_sound [OF assms(2,1)] by (simp_all add: pool_sound_def sound_def inv_def)
  have time: "(\<exists>c. k = ''authcode:'' @ c) \<and> t \<le> now w + 60 * second
      \<or> (\<exists>i. k = ''session:'' @ i) \<and> t \<le> now w + 30 * 24 * 3600 * second" if "in_time (now w) k t" for k t
    using that unfolding in_time_def authCodeKeyPrefix_def sessionKeyPrefix_def authCodeTTL_def sessionTTL_def
    by blast
  have "\<exists>t. e = Some t \<and> in_time (now w) k t" if "store X w k = Some (v, e)" for k v e
    using s(1,2) that unfolding store_ok_def store_timely_def by (cases e) auto
  with time have a: "\<forall>k v e. store X w k = Some (v, e) \<longrightarrow> (\<exists>t. e = Some t
        \<and> ((\<exists>c. k = ''authcode:'' @ c) \<and> t \<le> now w + 60 * second
          \<or> (\<exists>i. k = ''session:'' @ i) \<and> t \<le> now w + 30 * 24 * 3600 * second))"
    by blast
  have b: "\<forall>t \<in> stored_tokens X w. 2 * (rt_ExpiresAt t - (now w + 7 * 24 * 3600 * second)) \<le> second
        \<and> (\<exists>u \<in> stored_users X w. sql_eq X (us_ID u) (rt_UserID t))"
    using s(3) scan_token_fields unfolding rows_timely_def stored_tokens_def stored_users_def by fastforce
  have c: "\<forall>u \<in> stored_users X w. length (us_PasswordHash u) = 60"
    using s(3) unfolding rows_timely_def stored_users_def by blast
  from a b c show ?thesis by (intro conjI)
qed

theorem lifetimes_bounded_witness:
  "\<exists>ts w c v t. interleaved ref_ext (ts, w) \<and> store ref_ext w (''authcode:'' @ c) = Some (v, Some t)
    \<and> t \<le> now w + 60 * second"
proof -
  obtain w k a where w: "reachable ref_ext w" "code_at ref_ext w k = Some a"
    by (rule ref_code_stored)
  obtain ts where ts: "interleaved ref_ext (ts, w)" using reachable_interleaved [OF w(1)] ..
  obtain v e where v: "store ref_ext w (''authcode:'' @ k) = Some (v, e)"
    using w(2) by (auto simp: code_at_def cached_def live_def authCodeKeyPrefix_def bind_eq_Some_conv
        split: option.splits)
  with lifetimes_bounded [OF ref_env ts] ts show ?thesis by fastforce
qed

lemma sem_insert_user_error:
  "fst (sem_exec X (InsertUser i e h) t T) = Inl err \<Longrightarrow> \<exists>m. err = Infra m"
  by (auto simp: refused_def split: if_splits)

lemma User_Create_error:
  assumes "mysql_spec up X" and "run (User_Create X u) w = (Inl e, w')"
  shows "\<exists>m n. e = wrap n (Infra m)"
proof -
  let ?s = "InsertUser (us_ID u) (us_Email u) (us_PasswordHash u)"
  obtain e' where s: "run (sql_call (sql_exec X ?s)) w = (Inl e', w')"
    and e: "e = wrap ''UserRepository.Create'' e'"
    using assms(2) by (auto simp: User_Create_def split: prod.splits sum.splits)
  from run_sql_tables [OF mysql_specD(1) [OF assms(1)] s] have "\<exists>m. e' = Infra m"
    by (metis fst_conv infraE sem_insert_user_error sum.inject(1))
  with e show ?thesis by blast
qed

lemma User_Create_duplicate:
  assumes "mysql_spec up X" and "run (User_Create X u) w = (r, w')"
    and "v \<in> set (t_users (tables_of X w))" "sql_eq X (us_Email v) (us_Email u)"
  shows "r \<noteq> Inr ()"
  using exec_tables(1) [OF assms(1) assms(2) [unfolded User_Create_def]] assms(3,4)
  by (auto simp: refused_def split: if_splits)

text \<open>C25: Registration checks and stores in two steps, and only the check knows \<open>ErrEmailTaken\<close>.  With the
  servers up, a registration that found the email free, while another one with an equal email is
  stored before its own insert, is refused by the unique key: it answers an error, as it must, but
  not \<open>ErrEmailTaken\<close>, whatever happens between its turns.\<close>

theorem registration_race:
  assumes "mysql_spec True X" "user_by_email X (ws 0) (ri_Email inp) = None"
    and "v \<in> set (t_users (tables_of X (ws 3)))" "sql_eq X (us_Email v) (ri_Email inp)"
  shows "\<exists>e. after_turns ws 4 (Register_thread X inp) = Done (Inl e) \<and> \<not> err_is e ErrEmailTaken"
proof -
  obtain found w1 where f: "run (User_GetByEmail X (ri_Email inp)) (ws 0) = (found, w1)" by fastforce
  have found: "found = Inr None"
    using User_GetByEmail_cases(3) [OF assms(1) f TrueI] assms(2) by (simp add: user_by_email_def)
  have refused: "\<exists>e. r = Inl e \<and> \<not> err_is e ErrEmailTaken"
    if "run (User_Create X u) (ws 3) = (r, w')" "us_Email u = ri_Email inp" for u r w'
    using User_Create_duplicate [OF assms(1) that(1) assms(3)] assms(4) that
    by (cases r) (auto dest!: User_Create_error [OF assms(1)])
  show ?thesis
    by (auto simp: numeral_eq_Suc Register_thread_def atomic_def f found Let_def split: prod.split option.split
        sum.split dest!: refused [unfolded numeral_eq_Suc, simplified])
qed

theorem registration_race_witness:
  "\<exists>e. after_turns (\<lambda>n. if n = 0 then ref_world else user_world) 4
      (Register_thread ref_ext \<lparr>ri_Email = ''a@b.c'', ri_Password = ''x''\<rparr>) = Done (Inl e)
    \<and> \<not> err_is e ErrEmailTaken"
  by (rule registration_race [OF ref_ok(2), where v = sample_user])
    (simp_all add: user_by_email_def tables_of_def ref_tables_def sample_user_def user_world_def)

end
