(* ===== verification/Gateway.thy ===== *)
theory Gateway
  imports Endpoints InterleavedProperties
begin

text \<open>
  The routes of \<open>cmd/api/main.go\<close> with requests in progress: every handler of
  \<open>internal/handler/auth.go\<close> and \<open>token.go\<close> under \<open>Recoverer\<close>, as a thread that calls the threads of
  the services.
\<close>

section \<open>The handlers as threads\<close>

text \<open>A call of a service and what is done with its result; \<open>Recoverer\<close> answers a panic.\<close>

definition call_thread ::
  "('s, goerr + 'a) thread \<Rightarrow> (goerr + 'a \<Rightarrow> http_response) \<Rightarrow> ('s, http_response) thread" where
  "call_thread p k = finish (\<lambda>r. case r of Inl (Panic msg) \<Rightarrow> WriteHeader 500 new_response | _ \<Rightarrow> k r) p"

type_synonym ('r, 'd) endpoint_thread = "http_request \<Rightarrow> (('r, 'd) world, http_response) thread"

definition LoginHandler_thread ::
  "('r, 'd) ext \<Rightarrow> web \<Rightarrow> ('r, 'd) auth_handler \<Rightarrow> ('r, 'd) endpoint_thread" where
  "LoginHandler_thread X H h r = (case decode_login (hr_Body r) of
     None \<Rightarrow> Done (WriteError 400 ''invalid request body'' new_response)
   | Some req \<Rightarrow>
       if lq_Email req = [] \<or> lq_Password req = []
       then Done (WriteError 400 ''email and password are required'' new_response)
       else call_thread (Login_thread X req)
         (login_answer X (safeNext H (vals_get (url_query r) ''next'')) (ah_secureCookies h)))"

definition LogoutHandler_thread ::
  "('r, 'd) ext \<Rightarrow> ('r, 'd) auth_handler \<Rightarrow> ('r, 'd) endpoint_thread" where
  "LogoutHandler_thread X h r = (case map_of (hr_Cookies r) SessionCookieName of
     None \<Rightarrow> Done (logged_out (ah_secureCookies h))
   | Some value \<Rightarrow> call_thread (atomic (Logout X value)) (\<lambda>res. case res of
       Inl err \<Rightarrow> internal_error
     | Inr _ \<Rightarrow> logged_out (ah_secureCookies h)))"

definition RefreshHandler_thread :: "('r, 'd) ext \<Rightarrow> ('r, 'd) endpoint_thread" where
  "RefreshHandler_thread X r = (case decode_refresh (hr_Body r) of
     None \<Rightarrow> Done (WriteError 400 ''invalid request body'' new_response)
   | Some rawToken \<Rightarrow>
       if rawToken = [] then Done (WriteError 400 ''refresh token is required'' new_response)
       else call_thread (RefreshToken_thread X rawToken) (\<lambda>res. case res of
         Inl err \<Rightarrow> internal_error
       | Inr v \<Rightarrow> WriteJSON 200 (Some (refresh_response_json v)) new_response))"

definition RegisterClientHandler_thread :: "('r, 'd) ext \<Rightarrow> ('r, 'd) endpoint_thread" where
  "RegisterClientHandler_thread X r = (case decode_register_client (hr_Body r) of
     None \<Rightarrow> Done (WriteError 400 ''invalid request body'' new_response)
   | Some req \<Rightarrow>
       if rq_Name req = [] then Done (WriteError 400 ''name is required'' new_response)
       else if elems (rq_RedirectURIs req) = []
       then Done (WriteError 400 ''at least one redirect_uri is required'' new_response)
       else if elems (rq_GrantTypes req) = []
       then Done (WriteError 400 ''at least one grant_type is required'' new_response)
       else call_thread (RegisterClient_thread X req) (\<lambda>res. case res of
         Inl err \<Rightarrow>
           if err_is err ErrUnsupportedGrantType \<or> err_is err ErrPublicClientCredentialsGrant
           then WriteError 400 (err_text err) new_response
           else internal_error
       | Inr v \<Rightarrow> WriteJSON 201 (Some (register_client_json v)) new_response))"

definition AuthorizeHandler_thread ::
  "('r, 'd) ext \<Rightarrow> web \<Rightarrow> ('r, 'd) auth_handler \<Rightarrow> ('r, 'd) endpoint_thread" where
  "AuthorizeHandler_thread X H h r =
    (let req = ParseAuthorizeRequest (url_query r) in
     case Authorize_Validate H req of
       Some errs \<Rightarrow> Done (writeValidationError errs new_response)
     | None \<Rightarrow> call_thread (Authorize_thread X req (CookieValue r SessionCookieName)) (\<lambda>res. case res of
         Inl err \<Rightarrow> internal_error
       | Inr res \<Rightarrow> answer_authorize H (ah_loginURL h) r res))"

definition TokenHandler_thread :: "('r, 'd) ext \<Rightarrow> web \<Rightarrow> ('r, 'd) endpoint_thread" where
  "TokenHandler_thread X H r = (case hr_PostForm r of
     None \<Rightarrow> Done (writeTokenError 400 ''invalid_request'' ''malformed form body'' new_response)
   | Some form \<Rightarrow>
       (let dto = ParseTokenRequest form in
        case resolveClient r dto of
          Inl oauthErr \<Rightarrow>
            Done (if oauthErr = ''invalid_client''
              then writeTokenError 401 oauthErr [] (challenge new_response)
              else writeTokenError 400 oauthErr [] new_response)
        | Inr (i, secret) \<Rightarrow>
            (let req = dto\<lparr>tq_ClientID := i, tq_ClientSecret := secret\<rparr> in
             case Token_Validate H req of
               Some errs \<Rightarrow> Done (writeValidationError errs (noStore new_response))
             | None \<Rightarrow> call_thread (Exchange_thread X req) (\<lambda>res. case res of
                 Inl err \<Rightarrow> writeTokenExchangeError err new_response
               | Inr resp \<Rightarrow> WriteJSON 200 (Some (token_response_json resp)) (noStore new_response)))))"

definition JWKSHandler_thread :: "('r, 'd) auth_handler \<Rightarrow> ('r, 'd) endpoint_thread" where
  "JWKSHandler_thread h r = Done (WriteJSON 200 (Some (jwks_json (ah_JWKS h)))
     (set_header ''Cache-Control'' ''public, max-age=300'' new_response))"

definition http_routes ::
  "('r, 'd) ext \<Rightarrow> web \<Rightarrow> ('r, 'd) auth_handler
    \<Rightarrow> ((gostring \<times> gostring) \<times> ('r, 'd) endpoint_thread) list" where
  "http_routes X H h =
    [((''GET'', ''/.well-known/jwks.json''), JWKSHandler_thread h),
     ((''POST'', ''/login''), LoginHandler_thread X H h),
     ((''POST'', ''/logout''), LogoutHandler_thread X h),
     ((''POST'', ''/refresh''), RefreshHandler_thread X),
     ((''GET'', ''/oauth/authorize''), AuthorizeHandler_thread X H h),
     ((''POST'', ''/oauth/token''), TokenHandler_thread X H),
     ((''POST'', ''/admin/clients''), RegisterClientHandler_thread X)]"

section \<open>A request that nobody interrupts\<close>

lemma run_Recoverer: "run (Recoverer m) w = (case run m w of (r, w') \<Rightarrow>
    (case r of Inl e \<Rightarrow> WriteHeader 500 new_response | Inr resp \<Rightarrow> resp, w'))"
  by (simp add: Recoverer_def split: prod.split)

lemma call_thread_alone:
  "(\<And>w. run (alone p) w = run m w) \<Longrightarrow> run (alone (call_thread p k)) w = run (Recoverer (call m k)) w"
  by (simp add: call_thread_def run_Recoverer run_call split: prod.split sum.split goerr.split)

lemma Recoverer_ret [simp]: "run (Recoverer (ret (Inr resp))) w = (resp, w)"
  by (simp add: Recoverer_def)

lemmas handler_threads = LoginHandler_thread_def LogoutHandler_thread_def RefreshHandler_thread_def
  RegisterClientHandler_thread_def AuthorizeHandler_thread_def TokenHandler_thread_def JWKSHandler_thread_def

lemma handlers_alone:
  assumes h: "h = NewAuthHandler X key_N key_E secure url"
  shows "run (alone (LoginHandler_thread X H h r)) w = run (Recoverer (LoginHandler X H h r)) w"
    "run (alone (LogoutHandler_thread X h r)) w = run (Recoverer (LogoutHandler h r)) w"
    "run (alone (RefreshHandler_thread X r)) w = run (Recoverer (RefreshHandler h r)) w"
    "run (alone (RegisterClientHandler_thread X r)) w = run (Recoverer (RegisterClientHandler h r)) w"
    "run (alone (AuthorizeHandler_thread X H h r)) w = run (Recoverer (AuthorizeHandler H h r)) w"
    "run (alone (TokenHandler_thread X H r)) w = run (Recoverer (TokenHandler H h r)) w"
    "run (alone (JWKSHandler_thread h r)) w = run (Recoverer (JWKSHandler h r)) w"
  unfolding h NewAuthHandler_def auth_handler.simps handler_threads LoginHandler_def LogoutHandler_def
    RefreshHandler_def RegisterClientHandler_def AuthorizeHandler_def TokenHandler_def JWKSHandler_def Let_def
  by (auto simp: call_thread_alone operations_alone split: option.split sum.split prod.split)

text \<open>The routes with requests in progress are the routes of the server: the same methods and paths in
  the same order, and a request whose thread nobody interrupts gets the answer, and has the effect,
  of its handler run at once under \<open>Recoverer\<close>.\<close>

lemma http_alone:
  "list_all2 (\<lambda>(route, t) (route', h'). route = route'
       \<and> (\<forall>r w. run (alone (t r)) w = run (Recoverer (h' r)) w))
     (http_routes X H (NewAuthHandler X key_N key_E secure url))
     (routes X H (NewAuthHandler X key_N key_E secure url))"
  by (simp add: http_routes_def routes_def handlers_alone [OF refl])

section \<open>Every request is answered\<close>

text \<open>What a thread may answer, whatever the others do between its actions.\<close>

abbreviation results :: "('a \<Rightarrow> bool) \<Rightarrow> ('s, 'a) thread \<Rightarrow> bool" where
  "results Q \<equiv> promises (\<lambda>s s'. True) Q"

lemma after_turns_results: "results Q p \<Longrightarrow> results Q (after_turns ws n p)"
  by (induction n) (auto simp: promises_Act split: thread.split)

lemma promises_call:
  assumes "promises R (\<lambda>r. \<forall>msg. r \<noteq> Inl (Panic msg)) p \<or> Q (WriteHeader 500 new_response)" and "\<And>r. Q (k r)"
  shows "promises R Q (call_thread p k)"
  unfolding call_thread_def
  using assms by (auto split: sum.split goerr.split intro: promises_andthen [where p = p] promises_then)

lemma Exchange_no_panic: "results (\<lambda>r. \<forall>msg. r \<noteq> Inl (Panic msg)) (Exchange_thread X req)"
  unfolding Exchange_thread_def authorizationCodeGrant_thread_def mint_pair_thread_def Let_def
  by (auto simp: refreshTokenGrant_def split: option.split sum.split prod.split
      intro!: promises_then promises_atomic)

text \<open>The status codes of a route.\<close>

fun statuses :: "gostring \<Rightarrow> nat set" where
  "statuses path = (if path = ''/.well-known/jwks.json'' then {200}
     else if path = ''/login'' then {200, 400, 401, 500}
     else if path = ''/logout'' then {204, 500}
     else if path = ''/refresh'' then {200, 400, 500}
     else if path = ''/oauth/authorize'' then {302, 400, 500}
     else if path = ''/oauth/token'' then {200, 400, 401}
     else if path = ''/admin/clients'' then {201, 400, 500} else {})"

lemma statuses_route:
  "statuses ''/.well-known/jwks.json'' = {200}" "statuses ''/login'' = {200, 400, 401, 500}"
  "statuses ''/logout'' = {204, 500}" "statuses ''/refresh'' = {200, 400, 500}"
  "statuses ''/oauth/authorize'' = {302, 400, 500}" "statuses ''/oauth/token'' = {200, 400, 401}"
  "statuses ''/admin/clients'' = {201, 400, 500}"
  by simp_all

declare statuses.simps [simp del]

lemma RedirectWith_status: "\<exists>st \<in> {302, 500}. hp_Status (RedirectWith ip r base kv new_response) = Some st"
  by (auto simp: RedirectWith_def Let_def Redirect_headers split: option.split)

lemma noStore_status [simp]: "hp_Status (noStore w) = hp_Status w" "hp_Status (challenge w) = hp_Status w"
  by (simp_all add: noStore_def challenge_def)

lemma writeTokenError_status [simp]:
  "hp_Status w = None \<Longrightarrow> hp_Status (writeTokenError st code d w) = Some st"
  by (simp add: writeTokenError_def)

lemma WriteJSON_status [simp]: "hp_Status w = None \<Longrightarrow> hp_Status (WriteJSON st v w) = Some st"
  by (simp add: WriteJSON_def Let_def WriteHeader_def write_body_def split: option.split)

lemma answer_authorize_status:
  "\<exists>st \<in> {302, 400, 500}. hp_Status (answer_authorize H url r res) = Some st"
  using RedirectWith_status by (fastforce simp: answer_authorize_def split: authorize_action.split)

definition answered :: "nat set \<Rightarrow> http_response \<Rightarrow> bool" where
  "answered S resp \<longleftrightarrow> (\<exists>st \<in> S. hp_Status resp = Some st)"

lemma answeredI: "hp_Status resp = Some st \<Longrightarrow> st \<in> S \<Longrightarrow> answered S resp"
  by (auto simp: answered_def)

lemma within_call: "within 10 p \<Longrightarrow> within 10 (call_thread p k)"
  unfolding call_thread_def by (rule within_then [of 10]) (simp_all add: within.finished)

lemma within_10:
  "within 10 (Login_thread X lreq)" "within 10 (RefreshToken_thread X raw)" "within 10 (RegisterClient_thread X rreq)"
  "within 10 (Authorize_thread X areq i)" "within 10 (Exchange_thread X treq)" "within 10 (atomic m)"
  using within_atomic [of 9 m] by (auto intro: within_mono within_operations)

text \<open>A handler ends within ten actions, and what it then answers.\<close>

lemma ends_with:
  "results Q p \<Longrightarrow> within 10 p \<Longrightarrow> \<exists>resp. after_turns ws 10 p = Done resp \<and> Q resp"
  using after_turns_within [of 10 0 p ws] after_turns_results [of Q p ws 10]
  by (auto elim: within.cases)

lemma handlers_within:
  "(route, t) \<in> set (http_routes X H h) \<Longrightarrow> within 10 (t r)"
  unfolding http_routes_def
  by (auto simp: handler_threads Let_def intro!: within_call within_10 within.finished
      split: option.split sum.split prod.split)

lemma handlers_answered:
  "results (answered {200}) (JWKSHandler_thread h r)"
  "results (answered {200, 400, 401, 500}) (LoginHandler_thread X H h r)"
  "results (answered {204, 500}) (LogoutHandler_thread X h r)"
  "results (answered {200, 400, 500}) (RefreshHandler_thread X r)"
  "results (answered {302, 400, 500}) (AuthorizeHandler_thread X H h r)"
  "results (answered {200, 400, 401}) (TokenHandler_thread X H r)"
  "results (answered {201, 400, 500}) (RegisterClientHandler_thread X r)"
proof -
  have a: "answered {302, 400, 500} (answer_authorize H url r res)" for url res
    unfolding answered_def by (rule answer_authorize_status)
  note auto = answered_def writeTokenExchangeError_def login_answer_def logged_out_def writeValidationError_def
  show "results (answered {200, 400, 401, 500}) (LoginHandler_thread X H h r)"
    "results (answered {204, 500}) (LogoutHandler_thread X h r)"
    "results (answered {200, 400, 500}) (RefreshHandler_thread X r)"
    "results (answered {201, 400, 500}) (RegisterClientHandler_thread X r)"
    unfolding handler_threads
    by (auto simp: auto WriteHeader_def intro!: promises_call split: option.split sum.split)
  show "results (answered {302, 400, 500}) (AuthorizeHandler_thread X H h r)"
    unfolding AuthorizeHandler_thread_def Let_def
    by (auto simp: a intro!: promises_call split: option.split sum.split)
      (simp_all add: answered_def writeValidationError_def WriteHeader_def)
  show "results (answered {200, 400, 401}) (TokenHandler_thread X H r)"
    unfolding TokenHandler_thread_def Let_def
    by (auto simp: auto intro!: promises_call [OF disjI1, OF Exchange_no_panic] split: option.split sum.split)
qed (simp add: JWKSHandler_thread_def answered_def)

lemma routes_answered:
  assumes "((meth, path), t) \<in> set (http_routes X H h)"
  shows "results (answered (statuses path)) (t r)"
  using assms [unfolded http_routes_def set_simps insert_iff empty_iff simp_thms prod.inject]
  by (elim disjE conjE; hypsubst) (simp_all only: statuses_route handlers_answered)

section \<open>Requests in progress as calls of the services\<close>

text \<open>What an HTTP answer says about the stored data: tokens are for a stored client whose identifier
  the request presents, for a redirect URI and a scope it registered; a reported registration
  names a client, a redirect URI and a grant type, and its client is stored; a browser is sent to the login page or to a URI
  that a stored client of the requested identifier registered.\<close>

definition honoured ::
  "('r, 'd) ext \<Rightarrow> web \<Rightarrow> gostring \<Rightarrow> tables \<Rightarrow> gostring \<Rightarrow> http_request \<Rightarrow> http_response \<Rightarrow> bool" where
  "honoured X H url T path r resp \<longleftrightarrow>
     (path = ''/oauth/token'' \<and> hp_Status resp = Some 200 \<longrightarrow>
        (\<exists>form i secret v. hr_PostForm r = Some form
           \<and> resolveClient r (ParseTokenRequest form) = Inr (i, secret)
           \<and> resp = WriteJSON 200 (Some (token_response_json v)) (noStore new_response)
           \<and> (\<exists>c \<in> clients_of T. cl_ID c = i
                \<and> tq_RedirectURI (ParseTokenRequest form) \<in> set (elems (cl_RedirectURIs c))
                \<and> Fields (tr_Scope v) \<noteq> [] \<and> set (Fields (tr_Scope v)) \<subseteq> set (elems (cl_Scopes c)))))
   \<and> (path = ''/admin/clients'' \<and> hp_Status resp = Some 201 \<longrightarrow>
        (\<exists>req v. decode_register_client (hr_Body r) = Some req \<and> rq_Name req \<noteq> []
           \<and> elems (rq_RedirectURIs req) \<noteq> [] \<and> elems (rq_GrantTypes req) \<noteq> []
           \<and> resp = WriteJSON 201 (Some (register_client_json v)) new_response
           \<and> (\<exists>c \<in> clients_of T. cl_ID c = rp_ClientID v \<and> cl_Name c = rq_Name req
                \<and> set (elems (cl_GrantTypes c)) \<subseteq> {''authorization_code'', ''refresh_token''}
                \<and> (cl_ClientSecretHash c = [] \<longleftrightarrow> rq_IsPublic req))))
   \<and> (path = ''/oauth/authorize'' \<and> hp_Status resp = Some 302 \<longrightarrow>
        (\<exists>base kv. resp = RedirectWith (ip_literal H) r base kv new_response
           \<and> (base = url \<and> kv = [''next'', RequestURI (hr_URL r)]
              \<or> base = aq_RedirectURI (ParseAuthorizeRequest (url_query r))
                \<and> (\<exists>c \<in> clients_of T. base \<in> set (elems (cl_RedirectURIs c))
                     \<and> sql_eq X (cl_ID c) (aq_ClientID (ParseAuthorizeRequest (url_query r)))))))"

definition asks ::
  "('r, 'd) ext \<Rightarrow> web \<Rightarrow> gostring \<Rightarrow> gostring \<Rightarrow> http_request \<Rightarrow> request \<Rightarrow> (answer \<Rightarrow> http_response) \<Rightarrow> bool"
where
  "asks X H url path r req g \<longleftrightarrow> (\<forall>T a. kept X T req a \<longrightarrow> honoured X H url T path r (g a))"

definition forwards ::
  "('r, 'd) ext \<Rightarrow> web \<Rightarrow> gostring \<Rightarrow> gostring \<Rightarrow> http_request \<Rightarrow> (('r, 'd) world, http_response) thread \<Rightarrow> bool"
where
  "forwards X H url path r q \<longleftrightarrow> (\<exists>resp. q = Done resp \<and> (\<forall>T. honoured X H url T path r resp))
     \<or> (\<exists>req g. q = finish g (serve X req) \<and> asks X H url path r req g)"

text \<open>The part of a response that depends on the result of the service.\<close>

definition recovered :: "(goerr + 'a \<Rightarrow> http_response) \<Rightarrow> goerr + 'a \<Rightarrow> http_response" where
  "recovered k r = (case r of Inl (Panic msg) \<Rightarrow> WriteHeader 500 new_response | _ \<Rightarrow> k r)"

lemma andthen_assoc: "andthen (andthen p f) g = andthen p (\<lambda>x. andthen (f x) g)"
proof (induction p)
  case (Act h)
  have "map_prod (\<lambda>p. andthen (andthen p f) g) id (h s) = map_prod (\<lambda>p. andthen p (\<lambda>x. andthen (f x) g)) id (h s)" for s
    using Act.IH [OF rangeI, of "fst (h s)" s] by (simp add: prod_set_defs map_prod_def case_prod_beta)
  then show ?case by (simp add: prod.map_comp comp_def id_def)
qed simp

lemma call_thread_serve:
  "call_thread (Login_thread X lreq) k
     = finish (\<lambda>a. case a of LoggedIn r \<Rightarrow> recovered k r | _ \<Rightarrow> new_response) (serve X (LoginRequest lreq))"
  "call_thread (atomic (Logout X i)) kout
     = finish (\<lambda>a. case a of LoggedOut r \<Rightarrow> recovered kout r | _ \<Rightarrow> new_response) (serve X (LogoutRequest i))"
  "call_thread (RefreshToken_thread X raw) kref
     = finish (\<lambda>a. case a of Refreshed r \<Rightarrow> recovered kref r | _ \<Rightarrow> new_response) (serve X (RefreshRequest raw))"
  "call_thread (RegisterClient_thread X rreq) kreg
     = finish (\<lambda>a. case a of ClientRegistered r \<Rightarrow> recovered kreg r | _ \<Rightarrow> new_response)
         (serve X (RegisterClientRequest rreq))"
  "call_thread (Authorize_thread X areq i) kaut
     = finish (\<lambda>a. case a of Authorized r \<Rightarrow> recovered kaut r | _ \<Rightarrow> new_response)
         (serve X (AuthorizeRequest areq i))"
  "call_thread (Exchange_thread X treq) ktok
     = finish (\<lambda>a. case a of Exchanged r \<Rightarrow> recovered ktok r | _ \<Rightarrow> new_response)
         (serve X (TokenRequest treq))"
  by (simp_all add: call_thread_def recovered_def [abs_def] andthen_assoc)

declare serve.simps [simp del]

lemma forwards_Done: "(\<And>T. honoured X H url T path r resp) \<Longrightarrow> forwards X H url path r (Done resp)"
  by (simp add: forwards_def)

lemma forwards_serve: "asks X H url path r req g \<Longrightarrow> forwards X H url path r (finish g (serve X req))"
  by (auto simp: forwards_def)

lemma honoured_otherwise [simp]:
  "honoured X H url T ''/login'' r resp" "honoured X H url T ''/logout'' r resp"
  "honoured X H url T ''/refresh'' r resp" "honoured X H url T ''/.well-known/jwks.json'' r resp"
  "hp_Status resp \<noteq> Some 200 \<Longrightarrow> honoured X H url T ''/oauth/token'' r resp"
  "hp_Status resp \<noteq> Some 201 \<Longrightarrow> honoured X H url T ''/admin/clients'' r resp"
  "hp_Status resp \<noteq> Some 302 \<Longrightarrow> honoured X H url T ''/oauth/authorize'' r resp"
  by (simp_all add: honoured_def)

lemma recovered_simps [simp]:
  "recovered k (Inr v) = k (Inr v)" "hp_Status (recovered k (Inl e)) \<in> {Some 500, hp_Status (k (Inl e))}"
  by (auto simp: recovered_def WriteHeader_def split: goerr.split)

lemma simple_handlers_forward:
  "forwards X H url ''/login'' r (LoginHandler_thread X H h r)"
  "forwards X H url ''/logout'' r (LogoutHandler_thread X h r)"
  "forwards X H url ''/refresh'' r (RefreshHandler_thread X r)"
  "forwards X H url ''/.well-known/jwks.json'' r (JWKSHandler_thread h r)"
  unfolding handler_threads call_thread_serve
  by (auto simp: asks_def intro!: forwards_Done forwards_serve split: option.split)

lemma token_answer_honoured:
  assumes "hr_PostForm r = Some form" "resolveClient r (ParseTokenRequest form) = Inr (i, secret)"
    and "kept X T (TokenRequest ((ParseTokenRequest form)\<lparr>tq_ClientID := i, tq_ClientSecret := secret\<rparr>))
      (Exchanged (Inr v))"
  shows "honoured X H url T ''/oauth/token'' r
    (WriteJSON 200 (Some (token_response_json v)) (noStore new_response))"
  using assms by (auto simp: honoured_def)

lemma writeTokenExchangeError_status [simp]:
  "hp_Status (writeTokenExchangeError e new_response) \<noteq> Some 200"
  by (simp add: writeTokenExchangeError_def)

lemma recovered_honoured:
  assumes "\<And>v. res = Inr v \<Longrightarrow> honoured X H url T path r (k (Inr v))"
    and "\<And>e. honoured X H url T path r (k (Inl e))"
    and "honoured X H url T path r (WriteHeader 500 new_response)"
  shows "honoured X H url T path r (recovered k res)"
  using assms by (cases res) (auto simp: recovered_def split: goerr.split)

lemma asks_token:
  "(\<And>T res. kept X T (TokenRequest req) (Exchanged res) \<Longrightarrow> honoured X H url T path r (recovered k res))
    \<Longrightarrow> (\<And>T. honoured X H url T path r new_response)
    \<Longrightarrow> asks X H url path r (TokenRequest req) (\<lambda>a. case a of Exchanged r \<Rightarrow> recovered k r | _ \<Rightarrow> new_response)"
  unfolding asks_def by (auto simp del: kept.simps split: answer.split)

lemma asks_register_client:
  "(\<And>T res. kept X T (RegisterClientRequest req) (ClientRegistered res) \<Longrightarrow> honoured X H url T path r (recovered k res))
    \<Longrightarrow> (\<And>T. honoured X H url T path r new_response)
    \<Longrightarrow> asks X H url path r (RegisterClientRequest req)
          (\<lambda>a. case a of ClientRegistered r \<Rightarrow> recovered k r | _ \<Rightarrow> new_response)"
  unfolding asks_def by (auto simp del: kept.simps split: answer.split)

lemma asks_authorize:
  "(\<And>T res. kept X T (AuthorizeRequest req i) (Authorized res) \<Longrightarrow> honoured X H url T path r (recovered k res))
    \<Longrightarrow> (\<And>T. honoured X H url T path r new_response)
    \<Longrightarrow> asks X H url path r (AuthorizeRequest req i)
          (\<lambda>a. case a of Authorized r \<Rightarrow> recovered k r | _ \<Rightarrow> new_response)"
  unfolding asks_def by (auto simp del: kept.simps split: answer.split)

lemma no_status [simp]: "hp_Status new_response = None" "hp_Status (WriteHeader 500 new_response) = Some 500"
  by (simp_all add: WriteHeader_def)

lemma token_handler_forwards: "forwards X H url ''/oauth/token'' r (TokenHandler_thread X H r)"
proof (cases "hr_PostForm r")
  case (Some form)
  let ?dto = "ParseTokenRequest form"
  show ?thesis
  proof (cases "resolveClient r ?dto")
    case (Inr cred)
    obtain i secret where c: "cred = (i, secret)" by fastforce
    let ?req = "?dto\<lparr>tq_ClientID := i, tq_ClientSecret := secret\<rparr>"
    have "asks X H url ''/oauth/token'' r (TokenRequest ?req)
        (\<lambda>a. case a of Exchanged r \<Rightarrow> recovered (\<lambda>res. case res of
            Inl err \<Rightarrow> writeTokenExchangeError err new_response
          | Inr resp \<Rightarrow> WriteJSON 200 (Some (token_response_json resp)) (noStore new_response)) r
         | _ \<Rightarrow> new_response)"
      by (rule asks_token, rule recovered_honoured)
        (simp_all add: token_answer_honoured [OF Some Inr [unfolded c]] del: kept.simps)
    with Some Inr c show ?thesis
      by (auto simp: TokenHandler_thread_def Let_def call_thread_serve writeValidationError_def
          intro!: forwards_Done forwards_serve split: option.split)
  qed (use Some in \<open>auto simp: TokenHandler_thread_def Let_def intro!: forwards_Done\<close>)
qed (simp add: TokenHandler_thread_def forwards_Done)

lemma register_client_answer_honoured:
  assumes "decode_register_client (hr_Body r) = Some req" "rq_Name req \<noteq> []"
    and "elems (rq_RedirectURIs req) \<noteq> []" "elems (rq_GrantTypes req) \<noteq> []"
    and "kept X T (RegisterClientRequest req) (ClientRegistered (Inr v))"
  shows "honoured X H url T ''/admin/clients'' r (WriteJSON 201 (Some (register_client_json v)) new_response)"
  using assms by (auto simp: honoured_def)

lemma register_client_refusal [simp]:
  "hp_Status (if b then WriteError 400 msg new_response else internal_error) \<noteq> Some 201"
  by (simp add: internal_error_def)

lemma register_client_handler_forwards:
  "forwards X H url ''/admin/clients'' r (RegisterClientHandler_thread X r)"
proof (cases "decode_register_client (hr_Body r)")
  case (Some req)
  have "asks X H url ''/admin/clients'' r (RegisterClientRequest req)
      (\<lambda>a. case a of ClientRegistered r \<Rightarrow> recovered (\<lambda>res. case res of
          Inl err \<Rightarrow> if err_is err ErrUnsupportedGrantType \<or> err_is err ErrPublicClientCredentialsGrant
            then WriteError 400 (err_text err) new_response else internal_error
        | Inr v \<Rightarrow> WriteJSON 201 (Some (register_client_json v)) new_response) r
       | _ \<Rightarrow> new_response)"
    if "rq_Name req \<noteq> []" "elems (rq_RedirectURIs req) \<noteq> []" "elems (rq_GrantTypes req) \<noteq> []"
    by (rule asks_register_client, rule recovered_honoured)
      (simp_all add: register_client_answer_honoured [OF Some that] del: kept.simps)
  with Some show ?thesis
    by (auto simp: RegisterClientHandler_thread_def call_thread_serve intro!: forwards_Done forwards_serve)
qed (simp add: RegisterClientHandler_thread_def forwards_Done)

lemma authorize_answer_honoured:
  assumes "kept X T (AuthorizeRequest (ParseAuthorizeRequest (url_query r)) i) (Authorized (Inr res))"
  shows "honoured X H url T ''/oauth/authorize'' r (answer_authorize H url r res)"
  using assms by (cases "az_Action res") (auto simp: answer_authorize_def honoured_def)

lemma authorize_handler_forwards:
  "forwards X H (ah_loginURL h) ''/oauth/authorize'' r (AuthorizeHandler_thread X H h r)"
proof -
  have "asks X H (ah_loginURL h) ''/oauth/authorize'' r
      (AuthorizeRequest (ParseAuthorizeRequest (url_query r)) (CookieValue r SessionCookieName))
      (\<lambda>a. case a of Authorized r' \<Rightarrow> recovered (\<lambda>res. case res of
          Inl err \<Rightarrow> internal_error
        | Inr res \<Rightarrow> answer_authorize H (ah_loginURL h) r res) r'
       | _ \<Rightarrow> new_response)"
    by (rule asks_authorize, rule recovered_honoured)
      (simp_all add: authorize_answer_honoured internal_error_def del: kept.simps)
  then show ?thesis
    by (auto simp: AuthorizeHandler_thread_def Let_def call_thread_serve writeValidationError_def
        intro!: forwards_Done forwards_serve split: option.split)
qed

text \<open>A request in progress is a call of a service in progress, or was answered without one.\<close>

lemma routes_forward:
  assumes "((meth, path), t) \<in> set (http_routes X H h)"
  shows "forwards X H (ah_loginURL h) path r (t r)"
  using assms [unfolded http_routes_def set_simps insert_iff empty_iff simp_thms prod.inject]
  by (elim disjE conjE; hypsubst)
    (simp_all only: simple_handlers_forward token_handler_forwards register_client_handler_forwards
      authorize_handler_forwards)

end
