(* ===== verification/Server.thy ===== *)
theory Server
  imports App Gateway
begin

text \<open>
  \<open>cmd/api/main.go\<close>: the life of the process, from the configuration over the requests in
  progress to its end, graceful or not.
\<close>

section \<open>The process\<close>

datatype phase =
    Booting
  | Serving app
  | Draining app gotime \<comment> \<open>and when the signal came\<close>
  | Exited nat

text \<open>A request that the server has read, with its route and what is left of its handler.\<close>

type_synonym ('r, 'd) conn = "(gostring \<times> gostring) \<times> http_request \<times> (('r, 'd) world, http_response) thread"

text \<open>
  \<open>pr_Open\<close> counts the connections on which no request is in progress: new ones, and those kept
  alive after a response.  \<open>pr_Conns\<close> holds the requests read since start-up, the answered ones
  too.
\<close>

record ('r, 'd) process =
  pr_Phase :: phase
  pr_Pools :: "App.pool list"
  pr_Open :: nat
  pr_Conns :: "('r, 'd) conn list"
  pr_World :: "('r, 'd) world"

definition main_handler :: "('r, 'd) ext \<Rightarrow> app \<Rightarrow> ('r, 'd) auth_handler" where
  "main_handler X a = NewAuthHandler X (pk_N (app_publicKey a)) (pk_E (app_publicKey a))
     (cf_CookieSecure (app_Cfg a)) (cf_LoginURL (app_Cfg a))"

definition shutdown_timeout :: int where
  "shutdown_timeout = 15 * second"

primrec alive :: "phase \<Rightarrow> bool" where
  "alive Booting = True"
| "alive (Serving a) = True"
| "alive (Draining a t) = True"
| "alive (Exited n) = False"

text \<open>The application of a process that serves requests.\<close>

primrec in_service :: "phase \<Rightarrow> app option" where
  "in_service Booting = None"
| "in_service (Serving a) = Some a"
| "in_service (Draining a t) = Some a"
| "in_service (Exited n) = None"

definition conn_done :: "('r, 'd) conn \<Rightarrow> bool" where
  "conn_done c = (case snd (snd c) of Done resp \<Rightarrow> True | Act f \<Rightarrow> False)"

text \<open>
  \<open>log.Fatalf\<close> in a process that serves requests: it exits where it stands, no deferred call
  runs, and what was not answered never is.
\<close>

definition fatal :: "('r, 'd) process \<Rightarrow> ('r, 'd) process" where
  "fatal p = p\<lparr>pr_Phase := Exited 1, pr_Open := 0, pr_Conns := filter conn_done (pr_Conns p)\<rparr>"

text \<open>Start-up: \<open>log.Fatalf\<close> ends the process with status 1, otherwise it serves.\<close>

definition start_process :: "host \<Rightarrow> pool list \<Rightarrow> phase \<times> pool list" where
  "start_process os ps = (case run (New os (Load os)) ps of
     (Inl err, ps') \<Rightarrow> (Exited 1, ps')
   | (Inr a, ps') \<Rightarrow> (Serving a, ps'))"

text \<open>
  One step of the process.  While it serves, connections come and become free again, and each may
  send a request or be closed by either side.  \<open>Shutdown\<close> closes the listener and the idle
  connections, lets no answered one become free again, and polls until there is no connection: one
  that has not sent its first request still can, and is closed after five seconds of silence.
  \<open>Shutdown\<close> fails when its context expires first, or in the end when a listener did not
  close.  Otherwise \<open>main\<close> returns, and its deferred \<open>Close\<close> runs.
\<close>

inductive process_step ::
  "('r, 'd) ext \<Rightarrow> web \<Rightarrow> host \<Rightarrow> ('r, 'd) process \<Rightarrow> ('r, 'd) process \<Rightarrow> bool" for X H os where
  boot: "pr_Phase p = Booting \<Longrightarrow> start_process os (pr_Pools p) = (ph, ps)
    \<Longrightarrow> process_step X H os p (p\<lparr>pr_Phase := ph, pr_Pools := ps\<rparr>)"
| connect: "pr_Phase p = Serving a \<Longrightarrow> process_step X H os p (p\<lparr>pr_Open := Suc (pr_Open p)\<rparr>)"
| hang_up: "alive (pr_Phase p) \<Longrightarrow> pr_Open p = Suc n \<Longrightarrow> process_step X H os p (p\<lparr>pr_Open := n\<rparr>)"
| accept: "in_service (pr_Phase p) = Some a \<Longrightarrow> pr_Open p = Suc n
    \<Longrightarrow> (route, t) \<in> set (http_routes X H (main_handler X a)) \<Longrightarrow> route = (hr_Method r, u_Path (hr_URL r))
    \<Longrightarrow> process_step X H os p (p\<lparr>pr_Open := n, pr_Conns := pr_Conns p @ [(route, r, t r)]\<rparr>)"
| turn: "alive (pr_Phase p) \<Longrightarrow> pr_Conns p = cs @ (route, r, Act f) # ds \<Longrightarrow> f (pr_World p) = (q, w)
    \<Longrightarrow> process_step X H os p (p\<lparr>pr_Conns := cs @ (route, r, q) # ds, pr_World := w\<rparr>)"
| listen_fails: "pr_Phase p = Serving a \<Longrightarrow> process_step X H os p (fatal p)"
| signal: "pr_Phase p = Serving a
    \<Longrightarrow> process_step X H os p (p\<lparr>pr_Phase := Draining a (now (pr_World p))\<rparr>)"
| shutdown_expires: "pr_Phase p = Draining a t \<Longrightarrow> t + shutdown_timeout \<le> now (pr_World p)
    \<Longrightarrow> process_step X H os p (fatal p)"
| shutdown_fails: "pr_Phase p = Draining a t \<Longrightarrow> pr_Open p = 0 \<Longrightarrow> \<forall>c \<in> set (pr_Conns p). conn_done c
    \<Longrightarrow> process_step X H os p (fatal p)"
| stopped: "pr_Phase p = Draining a t \<Longrightarrow> pr_Open p = 0 \<Longrightarrow> \<forall>c \<in> set (pr_Conns p). conn_done c
    \<Longrightarrow> run Close (pr_Pools p) = (u, ps)
    \<Longrightarrow> process_step X H os p (p\<lparr>pr_Phase := Exited 0, pr_Pools := ps\<rparr>)"

text \<open>A step of the process, or of its surroundings.\<close>

inductive main_step ::
  "('r, 'd) ext \<Rightarrow> web \<Rightarrow> host \<Rightarrow> ('r, 'd) process \<Rightarrow> ('r, 'd) process \<Rightarrow> bool" for X H os where
  own: "process_step X H os p p' \<Longrightarrow> main_step X H os p p'"
| other: "outside X (pr_World p) w \<Longrightarrow> main_step X H os p (p\<lparr>pr_World := w\<rparr>)"

lemmas main_accept = main_step.own [OF process_step.accept]
lemmas main_turn = main_step.own [OF process_step.turn]
lemmas main_signal = main_step.own [OF process_step.signal]

lemma in_service_alive: "in_service ph = Some a \<Longrightarrow> alive ph"
  by (cases ph) simp_all

lemma conn_done_simps [simp]:
  "conn_done (route, r, Done resp)" "\<not> conn_done (route, r, Act f)"
  by (simp_all add: conn_done_def)

lemma fatal_simps [simp]:
  "pr_Phase (fatal p) = Exited 1" "pr_Pools (fatal p) = pr_Pools p" "pr_Open (fatal p) = 0"
  "pr_Conns (fatal p) = filter conn_done (pr_Conns p)" "pr_World (fatal p) = pr_World p"
  by (simp_all add: fatal_def)

text \<open>A process may start in any state that the service can have left: also after a crash that
  dropped requests in progress.\<close>

inductive running :: "('r, 'd) ext \<Rightarrow> web \<Rightarrow> host \<Rightarrow> ('r, 'd) process \<Rightarrow> bool" for X H os where
  start: "interleaved X (ts, w)
    \<Longrightarrow> running X H os \<lparr>pr_Phase = Booting, pr_Pools = [], pr_Open = 0, pr_Conns = [], pr_World = w\<rparr>"
| go: "running X H os p \<Longrightarrow> main_step X H os p p' \<Longrightarrow> running X H os p'"

section \<open>The server is an interleaving of the service\<close>

text \<open>The requests in progress, less those answered without a call, as calls of the services.\<close>

inductive tracks :: "('r, 'd) ext \<Rightarrow> web \<Rightarrow> gostring \<Rightarrow> ('r, 'd) conn list \<Rightarrow> ('r, 'd) in_progress \<Rightarrow> bool"
  for X H url where
  none: "tracks X H url [] []"
| answered_at_once: "(\<And>T. honoured X H url T path r resp) \<Longrightarrow> tracks X H url cs ts
    \<Longrightarrow> tracks X H url (((meth, path), r, Done resp) # cs) ts"
| calls: "asks X H url path r req g \<Longrightarrow> tracks X H url cs ts
    \<Longrightarrow> tracks X H url (((meth, path), r, finish g q) # cs) ((req, q) # ts)"

inductive_cases tracks_NilE: "tracks X H url [] ts"
inductive_cases tracks_ConsE: "tracks X H url (c # cs) ts"

lemma tracks_append: "tracks X H url cs ts \<Longrightarrow> tracks X H url ds us \<Longrightarrow> tracks X H url (cs @ ds) (ts @ us)"
  by (induction rule: tracks.induct) (auto intro: tracks.intros)

lemma tracks_split:
  "tracks X H url (cs @ ds) us \<Longrightarrow> \<exists>ts ts'. us = ts @ ts' \<and> tracks X H url cs ts \<and> tracks X H url ds ts'"
proof (induction cs arbitrary: us)
  case Nil
  then show ?case using tracks.none by fastforce
next
  case (Cons c cs)
  from Cons.prems [simplified] show ?case
  proof (cases rule: tracks.cases)
    case (answered_at_once path r resp meth)
    with Cons.IH show ?thesis by (metis tracks.answered_at_once)
  next
    case (calls path r req g ts meth q)
    with Cons.IH obtain ts1 ts' where "ts = ts1 @ ts'" "tracks X H url cs ts1" "tracks X H url ds ts'" by blast
    with calls show ?thesis by (intro exI [of _ "(req, q) # ts1"] exI [of _ ts']) (auto intro: tracks.calls)
  qed
qed

lemma tracks_route:
  assumes "((meth, path), t) \<in> set (http_routes X H h)"
  shows "\<exists>ts. tracks X H (ah_loginURL h) [((meth, path), r, t r)] ts \<and> (move X)\<^sup>*\<^sup>* (us, w) (us @ ts, w)"
  using routes_forward [OF assms, of r] unfolding forwards_def
proof (elim disjE exE conjE)
  fix resp assume "t r = Done resp" "\<forall>T. honoured X H (ah_loginURL h) T path r resp"
  then show ?thesis by (intro exI [of _ "[]"]) (auto intro: tracks.intros)
next
  fix req g assume "t r = finish g (serve X req)" "asks X H (ah_loginURL h) path r req g"
  then show ?thesis
    by (intro exI [of _ "[(req, serve X req)]"]) (auto intro: tracks.intros move.arrive)
qed

lemma tracks_turn:
  assumes "tracks X H url (cs @ (route, r, Act f) # ds) us" "f w = (q, w')"
  shows "\<exists>us'. tracks X H url (cs @ (route, r, q) # ds) us' \<and> move X (old @ us, w) (old @ us', w')"
proof -
  obtain ts ts' where us: "us = ts @ ts'" and t: "tracks X H url cs ts"
    "tracks X H url ((route, r, Act f) # ds) ts'"
    using tracks_split [OF assms(1)] by blast
  from t(2) obtain path req g p ts'' meth where p: "route = (meth, path)" "asks X H url path r req g"
    "Act f = finish g p" "ts' = (req, p) # ts''" "tracks X H url ds ts''"
    by (auto elim: tracks_ConsE)
  then obtain f' where f': "p = Act f'" "f = (\<lambda>s. map_prod (finish g) id (f' s))"
    by (cases p) auto
  then obtain p' where p': "f' w = (p', w')" "q = finish g p'"
    using assms(2) by (cases "f' w") auto
  have "tracks X H url (cs @ (route, r, q) # ds) (ts @ (req, p') # ts'')"
    unfolding p(1) p'(2) by (intro tracks_append t(1) tracks.calls p)
  moreover have "move X (old @ us, w) (old @ ts @ (req, p') # ts'', w')"
    using move.turn [where f = f' and ts = "old @ ts" and us = ts'', OF p'(1)] by (simp add: us p(4) f'(1))
  ultimately show ?thesis by blast
qed

text \<open>The order of the calls in progress does not matter, so those of dropped requests can be put aside.\<close>

lemma interleaved_insert:
  "interleaved X s \<Longrightarrow> s = (ts @ us, w) \<Longrightarrow> interleaved X (ts @ (req, serve X req) # us, w)"
proof (induction arbitrary: ts us w rule: interleaved.induct)
  case (start w0)
  then show ?case using interleaved.go [OF interleaved.start move.arrive, of X w0 req] by simp
next
  case (go s s')
  note new = interleaved.go [OF go.IH]
  from go.hyps(2) show ?case
  proof (cases rule: move.cases)
    case (arrive vs w0 req')
    show ?thesis
    proof (cases us rule: rev_cases)
      case Nil
      have "interleaved X (ts @ us, w)" using interleaved.go [OF go.hyps] go.prems by simp
      from interleaved.go [OF this move.arrive] Nil show ?thesis by simp
    next
      case (snoc us' x)
      with arrive go.prems new [OF _ move.arrive, of ts us' w req'] show ?thesis by simp
    qed
  next
    case (turn f w0 p w1 as req' bs)
    with go.prems have "ts @ us = as @ (req', p) # bs" "w1 = w" by simp_all
    then consider as' where "as = ts @ as'" "us = as' @ (req', p) # bs"
      | ts' where "ts = as @ (req', p) # ts'" "bs = ts' @ us"
      by (auto simp: append_eq_append_conv2 append_eq_Cons_conv)
    then show ?thesis
    proof cases
      case 1
      have "interleaved X (ts @ (req, serve X req) # as' @ (req', Act f) # bs, w0)"
        using go.IH [of ts "as' @ (req', Act f) # bs" w0] turn 1 by simp
      from interleaved.go [OF this] move.turn [where ts = "ts @ (req, serve X req) # as'" and f = f, OF turn(3)]
      show ?thesis using 1 \<open>w1 = w\<close> by simp
    next
      case 2
      have "interleaved X (as @ (req', Act f) # ts' @ (req, serve X req) # us, w0)"
        using go.IH [of "as @ (req', Act f) # ts'" us w0] turn 2 by simp
      from interleaved.go [OF this] move.turn [where us = "ts' @ (req, serve X req) # us" and f = f, OF turn(3)]
      show ?thesis using 2 \<open>w1 = w\<close> by simp
    qed
  next
    case (other w0 w1 vs)
    with go.prems new [OF _ move.other, of ts us w0 w] show ?thesis by simp
  qed
qed

lemma mset_middle:
  assumes "mset ts' = mset (as @ x # bs)"
  obtains as' bs' where "ts' = as' @ x # bs'" "mset (as' @ bs') = mset (as @ bs)"
proof -
  have "x \<in> set ts'" using assms by (metis in_set_conv_decomp set_mset_mset)
  then obtain as' bs' where "ts' = as' @ x # bs'" by (meson split_list)
  with assms that show thesis by simp
qed

lemma interleaved_perm:
  "interleaved X s \<Longrightarrow> s = (ts, w) \<Longrightarrow> mset ts' = mset ts \<Longrightarrow> interleaved X (ts', w)"
proof (induction arbitrary: ts ts' w rule: interleaved.induct)
  case (start w0)
  then show ?case by (simp add: interleaved.start)
next
  case (go s s')
  from go.hyps(2) show ?case
  proof (cases rule: move.cases)
    case (arrive vs w0 req)
    with go.prems have "mset ts' = mset (vs @ (req, serve X req) # [])" by simp
    then obtain as bs where ts': "ts' = as @ (req, serve X req) # bs" "mset (as @ bs) = mset (vs @ [])"
      by (rule mset_middle)
    with go.IH [OF arrive(1), of "as @ bs"] interleaved_insert [OF _ refl] arrive go.prems(1)
    show ?thesis by simp
  next
    case (turn f w0 p w1 vs req us)
    with go.prems have "mset ts' = mset (vs @ (req, p) # us)" by simp
    then obtain as bs where ts': "ts' = as @ (req, p) # bs" "mset (as @ bs) = mset (vs @ us)"
      by (rule mset_middle)
    then have "interleaved X (as @ (req, Act f) # bs, w0)" by (intro go.IH [OF turn(1)]) simp
    with interleaved.go [OF _ move.turn [where f = f, OF turn(3)]] turn go.prems(1) ts'(1) show ?thesis by simp
  next
    case (other w0 w1 vs)
    with interleaved.go [OF go.IH [OF other(1)] move.other] go.prems show ?thesis by simp
  qed
qed

lemma tracks_done:
  "tracks X H url cs ts \<Longrightarrow>
    \<exists>rest ts'. mset (rest @ ts') = mset ts \<and> tracks X H url (filter conn_done cs) ts'"
proof (induction rule: tracks.induct)
  case none
  then show ?case using tracks.none by fastforce
next
  case (answered_at_once path r resp cs ts meth)
  then show ?case using tracks.answered_at_once by (fastforce simp: conn_done_def)
next
  case (calls path r req g cs ts meth q)
  then obtain rest ts' where ts': "mset (rest @ ts') = mset ts" "tracks X H url (filter conn_done cs) ts'"
    by blast
  show ?case
  proof (cases q)
    case (Done x)
    with ts' tracks.calls [OF calls(1) ts'(2), of meth q] show ?thesis
      by (intro exI [of _ rest] exI [of _ "(req, q) # ts'"]) simp
  next
    case (Act f)
    with ts' show ?thesis by (intro exI [of _ "(req, q) # rest"] exI [of _ ts']) simp
  qed
qed

section \<open>What start-up leaves\<close>

lemma New_started:
  "run (New os cfg) [] = (Inr a, ps) \<Longrightarrow>
    ps = [RedisPool, SqlPool] \<and> app_Cfg a = cfg \<and> sk_PublicKey (app_privateKey a) = app_publicKey a"
  by (auto simp: New_def Connect_def NewRedisClient_def Let_def dest: loadRSAKeys_match
      split: option.splits sum.splits prod.splits)

lemma New_failed: "run (New os cfg) [] = (Inl err, ps) \<Longrightarrow> length ps \<le> 1"
  by (auto simp: New_def Connect_def NewRedisClient_def Let_def
      split: option.splits sum.splits prod.splits)

lemma run_Close [simp]: "run Close [RedisPool, SqlPool] = ((), [])"
  by (simp add: Close_def)

text \<open>The invariant of the process.\<close>

definition up :: "host \<Rightarrow> app \<Rightarrow> pool list \<Rightarrow> bool" where
  "up os a ps \<longleftrightarrow> ps = [RedisPool, SqlPool] \<and> app_Cfg a = Load os
     \<and> sk_PublicKey (app_privateKey a) = app_publicKey a"

definition all_answered :: "('r, 'd) conn list \<Rightarrow> bool" where
  "all_answered cs \<longleftrightarrow> (\<forall>c \<in> set cs. conn_done c)"

lemma all_answered_iff: "all_answered cs \<longleftrightarrow> (\<forall>(route, r, q) \<in> set cs. \<exists>resp. q = Done resp)"
  unfolding all_answered_def conn_done_def by (rule ball_cong) (auto split: thread.split)

definition conn_ok :: "('r, 'd) conn \<Rightarrow> bool" where
  "conn_ok c \<longleftrightarrow> (case c of (route, r, q) \<Rightarrow> results (answered (statuses (snd route))) q \<and> within 10 q)"

definition served_by :: "('r, 'd) ext \<Rightarrow> web \<Rightarrow> gostring \<Rightarrow> ('r, 'd) process \<Rightarrow> bool" where
  "served_by X H url p \<longleftrightarrow>
     (\<exists>old ts. interleaved X (old @ ts, pr_World p) \<and> tracks X H url (pr_Conns p) ts)"

fun phase_ok :: "host \<Rightarrow> phase \<Rightarrow> pool list \<Rightarrow> ('r, 'd) conn list \<Rightarrow> bool" where
  "phase_ok os Booting ps cs \<longleftrightarrow> ps = [] \<and> cs = []"
| "phase_ok os (Serving a) ps cs \<longleftrightarrow> up os a ps"
| "phase_ok os (Draining a t) ps cs \<longleftrightarrow> up os a ps"
| "phase_ok os (Exited n) ps cs \<longleftrightarrow> all_answered cs
     \<and> (n = 0 \<and> ps = [] \<or> n = 1 \<and> (cs = [] \<and> length ps \<le> 1 \<or> ps = [RedisPool, SqlPool]))"

definition process_ok :: "('r, 'd) ext \<Rightarrow> web \<Rightarrow> host \<Rightarrow> ('r, 'd) process \<Rightarrow> bool" where
  "process_ok X H os p \<longleftrightarrow> (\<forall>c \<in> set (pr_Conns p). conn_ok c)
     \<and> served_by X H (cf_LoginURL (Load os)) p \<and> phase_ok os (pr_Phase p) (pr_Pools p) (pr_Conns p)"

lemma conn_route:
  assumes "(route, t) \<in> set (http_routes X H h)"
  shows "conn_ok (route, r, t r)"
  using assms handlers_within [OF assms] by (cases route) (simp add: conn_ok_def routes_answered)

lemma conn_turn: "conn_ok (route, r, Act f) \<Longrightarrow> f w = (q, w') \<Longrightarrow> conn_ok (route, r, q)"
  by (auto simp: conn_ok_def promises_Act elim!: within_ActE dest!: spec [of _ w] meta_spec [of _ w]
      intro: within_mono)

lemma served_accept:
  assumes "served_by X H url p" "(route, t) \<in> set (http_routes X H h)" "ah_loginURL h = url"
  shows "served_by X H url (p\<lparr>pr_Open := n, pr_Conns := pr_Conns p @ [(route, r, t r)]\<rparr>)"
proof -
  obtain old ts where ts: "interleaved X (old @ ts, pr_World p)" "tracks X H url (pr_Conns p) ts"
    using assms(1) unfolding served_by_def by blast
  obtain meth path where route: "route = (meth, path)" by fastforce
  obtain us where us: "tracks X H url [(route, r, t r)] us"
    "(move X)\<^sup>*\<^sup>* (old @ ts, pr_World p) (old @ ts @ us, pr_World p)"
    using tracks_route [OF assms(2) [unfolded route], of r "old @ ts" "pr_World p"] assms(3) route by auto
  show ?thesis
    unfolding served_by_def using moves_interleaved [OF us(2) ts(1)] tracks_append [OF ts(2) us(1)]
    by (intro exI [of _ old] exI [of _ "ts @ us"]) simp
qed

lemma served_turn:
  assumes "served_by X H url p" "pr_Conns p = cs @ (route, r, Act f) # ds" "f (pr_World p) = (q, w)"
  shows "served_by X H url (p\<lparr>pr_Conns := cs @ (route, r, q) # ds, pr_World := w\<rparr>)"
proof -
  obtain old ts where ts: "interleaved X (old @ ts, pr_World p)" "tracks X H url (pr_Conns p) ts"
    using assms(1) unfolding served_by_def by blast
  from tracks_turn [OF ts(2) [unfolded assms(2)] assms(3)] obtain us where
    "tracks X H url (cs @ (route, r, q) # ds) us" "move X (old @ ts, pr_World p) (old @ us, w)" by blast
  with interleaved.go [OF ts(1)] show ?thesis unfolding served_by_def by auto
qed

lemma served_other:
  assumes "served_by X H url p" "outside X (pr_World p) w"
  shows "served_by X H url (p\<lparr>pr_World := w\<rparr>)"
proof -
  obtain old ts where "interleaved X (old @ ts, pr_World p)" "tracks X H url (pr_Conns p) ts"
    using assms(1) unfolding served_by_def by blast
  with interleaved.go [OF _ move.other [OF assms(2)]] show ?thesis unfolding served_by_def by auto
qed

lemma served_cong:
  "pr_Conns p' = pr_Conns p \<Longrightarrow> pr_World p' = pr_World p \<Longrightarrow> served_by X H url p \<Longrightarrow> served_by X H url p'"
  by (simp add: served_by_def)

lemma served_fatal:
  assumes "served_by X H url p"
  shows "served_by X H url (fatal p)"
proof -
  obtain old ts where ts: "interleaved X (old @ ts, pr_World p)" "tracks X H url (pr_Conns p) ts"
    using assms unfolding served_by_def by blast
  obtain rest ts' where "mset (rest @ ts') = mset ts" "tracks X H url (filter conn_done (pr_Conns p)) ts'"
    using tracks_done [OF ts(2)] by blast
  with interleaved_perm [OF ts(1) refl, of "(old @ rest) @ ts'"] show ?thesis
    unfolding served_by_def by (intro exI [of _ "old @ rest"] exI [of _ ts']) simp
qed

lemma in_service_up:
  "in_service ph = Some a \<Longrightarrow> phase_ok os ph ps cs \<Longrightarrow> up os a ps"
  by (cases ph) auto

lemma step_phase:
  assumes "process_step X H os p p'" "phase_ok os (pr_Phase p) (pr_Pools p) (pr_Conns p)"
  shows "phase_ok os (pr_Phase p') (pr_Pools p') (pr_Conns p')"
  using assms(1)
proof (cases rule: process_step.cases)
  case (boot ph ps)
  with assms(2) New_started New_failed show ?thesis
    by (auto simp: up_def start_process_def all_answered_def split: prod.splits sum.splits)
next
  case (accept a n route t r)
  with assms(2) show ?thesis by (cases "pr_Phase p") auto
next
  case (turn cs route r f ds q w)
  with assms(2) show ?thesis by (cases "pr_Phase p") auto
qed (use assms(2) in \<open>auto simp: up_def all_answered_def\<close>)

lemma step_served:
  assumes "process_step X H os p p'" "phase_ok os (pr_Phase p) (pr_Pools p) (pr_Conns p)"
    and "served_by X H (cf_LoginURL (Load os)) p"
  shows "served_by X H (cf_LoginURL (Load os)) p'"
  using assms(1)
proof (cases rule: process_step.cases)
  case (accept a n route t r)
  have "ah_loginURL (main_handler X a) = cf_LoginURL (Load os)"
    using in_service_up [OF accept(2) assms(2)] by (simp add: main_handler_def NewAuthHandler_def up_def)
  with accept served_accept [OF assms(3)] show ?thesis by blast
next
  case (turn cs route r f ds q w)
  with served_turn [OF assms(3)] show ?thesis by blast
qed (use assms(3) served_fatal in \<open>auto intro: served_cong\<close>)

lemma step_conns:
  assumes "process_step X H os p p'" "\<forall>c \<in> set (pr_Conns p). conn_ok c"
  shows "\<forall>c \<in> set (pr_Conns p'). conn_ok c"
  using assms(1)
proof (cases rule: process_step.cases)
  case (turn cs route r f ds q w)
  with assms(2) conn_turn [of route r f, OF _ turn(4)] show ?thesis by auto
qed (use assms(2) conn_route in auto)

lemma running_ok: "running X H os p \<Longrightarrow> process_ok X H os p"
proof (induction rule: running.induct)
  case (start ts w)
  then have "served_by X H (cf_LoginURL (Load os))
      \<lparr>pr_Phase = Booting, pr_Pools = [], pr_Open = 0, pr_Conns = [], pr_World = w\<rparr>"
    unfolding served_by_def by (intro exI [of _ ts] exI [of _ "[]"]) (simp add: tracks.none)
  then show ?case by (simp add: process_ok_def)
next
  case (go p p')
  from go(2) show ?case
  proof (cases rule: main_step.cases)
    case own
    with go(3) show ?thesis unfolding process_ok_def using step_phase step_served step_conns by blast
  next
    case (other w)
    with go(3) served_other show ?thesis by (auto simp: process_ok_def)
  qed
qed

section \<open>Shutdown\<close>

abbreviation requests_of :: "('r, 'd) conn list \<Rightarrow> ((gostring \<times> gostring) \<times> http_request) list" where
  "requests_of cs \<equiv> map (\<lambda>(route, r, q). (route, r)) cs"

text \<open>Steps of the process, counted, with anything of its surroundings in between.\<close>

inductive own_steps ::
  "('r, 'd) ext \<Rightarrow> web \<Rightarrow> host \<Rightarrow> ('r, 'd) process \<Rightarrow> nat \<Rightarrow> ('r, 'd) process \<Rightarrow> bool"
  for X H os p where
  stay: "own_steps X H os p 0 p"
| own: "own_steps X H os p k p' \<Longrightarrow> process_step X H os p' p'' \<Longrightarrow> own_steps X H os p (Suc k) p''"
| other: "own_steps X H os p k p' \<Longrightarrow> outside X (pr_World p') w
    \<Longrightarrow> own_steps X H os p k (p'\<lparr>pr_World := w\<rparr>)"

lemma own_steps_running: "own_steps X H os p k p' \<Longrightarrow> running X H os p \<Longrightarrow> running X H os p'"
  by (induction rule: own_steps.induct) (auto intro: running.go main_step.intros)

lemma outside_now: "outside X w w' \<Longrightarrow> now w \<le> now w'"
  by (cases rule: outside.cases) (auto dest!: keeps_field_runD [where f = now, rotated] intro: frame)

text \<open>The turns that the requests in progress may still need.\<close>

definition turns_left :: "nat list \<Rightarrow> ('r, 'd) conn list \<Rightarrow> bool" where
  "turns_left ns cs \<longleftrightarrow> list_all2 (\<lambda>n c. within n (snd (snd c))) ns cs"

abbreviation unanswered :: "('r, 'd) conn list \<Rightarrow> nat" where
  "unanswered cs \<equiv> length (filter (\<lambda>c. \<not> conn_done c) cs)"

lemma turns_left_start:
  "\<forall>c \<in> set cs. conn_ok c \<Longrightarrow> \<exists>ns. turns_left ns cs \<and> sum_list ns = 10 * unanswered cs"
proof (induction cs)
  case Nil
  then show ?case by (simp add: turns_left_def)
next
  case (Cons c cs)
  then obtain ns where "turns_left ns cs" "sum_list ns = 10 * unanswered cs" by auto
  with Cons.prems show ?case
    by (cases c, cases "snd (snd c)")
      (auto simp: turns_left_def conn_ok_def within.finished
        intro!: exI [of _ "(if conn_done c then 0 else 10) # ns"])
qed

lemma turns_left_accept:
  "turns_left ns cs \<Longrightarrow> (route, t) \<in> set (http_routes X H h) \<Longrightarrow> turns_left (ns @ [10]) (cs @ [(route, r, t r)])"
  unfolding turns_left_def by (auto intro!: list_all2_appendI handlers_within)

lemma turns_left_turn:
  assumes "turns_left ns (cs @ (route, r, Act f) # ds)" "f w = (q, w')"
  shows "\<exists>ms. sum_list ns = Suc (sum_list ms) \<and> turns_left ms (cs @ (route, r, q) # ds)"
proof -
  obtain ns1 n ns2 where ns: "ns = ns1 @ n # ns2" "list_all2 (\<lambda>n c. within n (snd (snd c))) ns1 cs"
    "within n (Act f)" "list_all2 (\<lambda>n c. within n (snd (snd c))) ns2 ds"
    using assms(1) by (auto simp: turns_left_def list_all2_append2 list_all2_Cons2)
  from ns(3) obtain m where m: "n = Suc m" "within m (fst (f w))" by (auto elim!: within_ActE)
  with ns assms(2) show ?thesis
    by (intro exI [of _ "ns1 @ m # ns2"]) (auto simp: turns_left_def intro: list_all2_appendI)
qed

text \<open>Where a shutdown from \<open>p\<close> stands after \<open>k\<close> steps, with \<open>b\<close> steps to do at the start.\<close>

definition keeps_requests :: "('r, 'd) process \<Rightarrow> ('r, 'd) process \<Rightarrow> bool" where
  "keeps_requests p p' \<longleftrightarrow> (\<exists>more. requests_of (pr_Conns p') = requests_of (pr_Conns p) @ more)"

definition shuts_down :: "app \<Rightarrow> gotime \<Rightarrow> nat \<Rightarrow> ('r, 'd) process \<Rightarrow> nat \<Rightarrow> ('r, 'd) process \<Rightarrow> bool" where
  "shuts_down a t b p k p' \<longleftrightarrow>
     pr_Phase p' = Draining a t \<and> keeps_requests p p'
       \<and> (\<exists>ns. turns_left ns (pr_Conns p') \<and> k + 11 * pr_Open p' + sum_list ns \<le> b)
   \<or> pr_Phase p' = Exited 0 \<and> keeps_requests p p' \<and> k \<le> Suc b
   \<or> pr_Phase p' = Exited 1 \<and> (t + shutdown_timeout \<le> now (pr_World p') \<or> keeps_requests p p') \<and> k \<le> Suc b"

lemma shuts_down_step:
  assumes "shuts_down a t b p k p'" "process_step X H os p' p''"
  shows "shuts_down a t b p (Suc k) p''"
proof -
  have "alive (pr_Phase p')" using assms(2) by (cases rule: process_step.cases) (auto dest: in_service_alive)
  with assms(1) obtain ns where d: "pr_Phase p' = Draining a t" "keeps_requests p p'"
    "turns_left ns (pr_Conns p')" "k + 11 * pr_Open p' + sum_list ns \<le> b"
    by (auto simp: shuts_down_def)
  from assms(2) show ?thesis
  proof (cases rule: process_step.cases)
    case (hang_up n)
    with d show ?thesis by (auto simp: shuts_down_def keeps_requests_def intro!: exI [of _ ns])
  next
    case (accept a' n route t' r)
    with d turns_left_accept [OF d(3) accept(4), of r] show ?thesis
      by (auto simp: shuts_down_def keeps_requests_def intro!: exI [of _ "ns @ [10]"])
  next
    case (turn cs route r f ds q w)
    then obtain ms where "sum_list ns = Suc (sum_list ms)" "turns_left ms (cs @ (route, r, q) # ds)"
      using turns_left_turn [where f = f, OF _ turn(4)] d(3) by metis
    with turn d show ?thesis by (auto simp: shuts_down_def keeps_requests_def intro!: exI [of _ ms])
  next
    case (shutdown_fails a' t')
    then have "filter conn_done (pr_Conns p') = pr_Conns p'" by (simp add: filter_id_conv)
    with shutdown_fails d show ?thesis by (simp add: shuts_down_def keeps_requests_def)
  qed (use d in \<open>auto simp: shuts_down_def keeps_requests_def\<close>)
qed

lemma own_steps_shut_down:
  assumes "own_steps X H os p k p'" "pr_Phase p = Draining a t" "\<forall>c \<in> set (pr_Conns p). conn_ok c"
  shows "shuts_down a t (11 * pr_Open p + 10 * unanswered (pr_Conns p)) p k p'"
  using assms(1)
proof (induction rule: own_steps.induct)
  case stay
  show ?case
    using assms(2) turns_left_start [OF assms(3)] by (auto simp: shuts_down_def keeps_requests_def)
next
  case (other k p' w)
  then show ?case using outside_now [OF other(2)] by (fastforce simp: shuts_down_def keeps_requests_def)
qed (rule shuts_down_step)

lemma draining_steps:
  assumes "process_ok X H os p" "pr_Phase p = Draining a t"
  shows "\<exists>p'. process_step X H os p p'"
proof (cases "\<exists>c \<in> set (pr_Conns p). \<not> conn_done c")
  case True
  then obtain cs route r q ds where c: "pr_Conns p = cs @ (route, r, q) # ds" "\<not> conn_done (route, r, q)"
    by (metis prod_cases3 split_list)
  then obtain f where "q = Act f" by (cases q) auto
  with c(1) process_step.turn [of p cs route r f ds] assms(2) show ?thesis
    by (metis alive.simps(3) surj_pair)
next
  case False
  then have settled: "\<forall>c \<in> set (pr_Conns p). conn_done c" by blast
  obtain ps where close: "run Close (pr_Pools p) = ((), ps)" by (metis old.unit.exhaust surj_pair)
  show ?thesis
  proof (cases "pr_Open p")
    case 0
    show ?thesis using process_step.stopped [OF assms(2) 0 settled close] by blast
  next
    case (Suc n)
    show ?thesis using process_step.hang_up [OF _ Suc] assms(2) by (metis alive.simps(3))
  qed
qed

lemma running_steps: "(main_step X H os)\<^sup>*\<^sup>* p p' \<Longrightarrow> running X H os p \<Longrightarrow> running X H os p'"
  by (induction rule: rtranclp_induct) (auto intro: running.go)

section \<open>A server at work\<close>

text \<open>A host where everything is in place.\<close>

definition ref_host :: host where
  "ref_host = \<lparr>os_Getenv = (\<lambda>_. []), os_ReadFile = (\<lambda>_. Inr []), is_not_exist = (\<lambda>_. False),
     host_quote = id, pem_Decode = Some,
     ParsePKCS1PrivateKey = (\<lambda>_. Inr \<lparr>sk_PublicKey = \<lparr>pk_N = 15, pk_E = 3\<rparr>, sk_bytes = []\<rparr>),
     ParsePKCS8PrivateKey = (\<lambda>_. Inl (ErrNew [])), ParsePKIXPublicKey = (\<lambda>_. Inr (RsaPublic \<lparr>pk_N = 15, pk_E = 3\<rparr>)),
     sqlx_Open = (\<lambda>_. None), sql_Ping = (\<lambda>_. None), redis_Ping = (\<lambda>_. None)\<rparr>"

lemma ref_host_starts: "\<exists>a. run (New ref_host (Load ref_host)) [] = (Inr a, [RedisPool, SqlPool])"
  by (simp add: ref_host_def New_def Connect_def NewRedisClient_def loadRSAKeys_def read_pem_def
      private_key_def public_key_def Let_def)

text \<open>A request that is served without interruption.\<close>

lemma served_alone:
  "run (alone q) (pr_World p) = (resp, w) \<Longrightarrow> alive (pr_Phase p) \<Longrightarrow> pr_Conns p = cs @ (route, r, q) # ds
    \<Longrightarrow> running X H os p \<Longrightarrow> running X H os (p\<lparr>pr_Conns := cs @ (route, r, Done resp) # ds, pr_World := w\<rparr>)"
proof (induction q arbitrary: p)
  case (Done x)
  then have "p\<lparr>pr_Conns := cs @ (route, r, Done resp) # ds, pr_World := w\<rparr> = p" by simp
  with Done.prems(4) show ?case by simp
next
  case (Act f)
  obtain q w1 where f: "f (pr_World p) = (q, w1)" by fastforce
  let ?p = "p\<lparr>pr_Conns := cs @ (route, r, q) # ds, pr_World := w1\<rparr>"
  have "running X H os ?p" by (rule running.go [OF Act.prems(4) main_turn [OF Act.prems(2,3) f]])
  moreover have q: "q \<in> Basic_BNFs.fsts (f (pr_World p))" by (simp add: f prod_set_defs)
  ultimately show ?case using Act.IH [OF rangeI q, of ?p] Act.prems(1,2) f by simp
qed

lemma ref_served:
  obtains p resp where "running ref_ext ref_web ref_host p" "alive (pr_Phase p)"
    "\<exists>a. pr_Phase p = Serving a" "pr_Open p = 0" "hp_Status resp = Some 201"
    "pr_Conns p = [((''POST'', ''/admin/clients''), register_post, Done resp)]"
proof -
  obtain a where a: "run (New ref_host (Load ref_host)) [] = (Inr a, [RedisPool, SqlPool])"
    using ref_host_starts by blast
  let ?p0 = "\<lparr>pr_Phase = Booting, pr_Pools = [], pr_Open = 0, pr_Conns = [], pr_World = ref_world\<rparr>"
  let ?p1 = "?p0\<lparr>pr_Phase := Serving a, pr_Pools := [RedisPool, SqlPool]\<rparr>"
  let ?p2 = "?p1\<lparr>pr_Open := Suc (pr_Open ?p1)\<rparr>"
  let ?route = "(''POST'', ''/admin/clients'')"
  let ?t = "RegisterClientHandler_thread ref_ext register_post"
  let ?p3 = "?p1\<lparr>pr_Conns := [(?route, register_post, ?t)]\<rparr>"
  have "interleaved ref_ext ([], ref_world)"
    by (rule interleaved.start) (simp add: initial_def store_def tables_of_def ref_tables_def)
  then have p0: "running ref_ext ref_web ref_host ?p0" by (rule running.start)
  have p1: "running ref_ext ref_web ref_host ?p1"
    by (rule running.go [OF p0 main_step.own [OF process_step.boot]]) (simp_all add: a start_process_def)
  have p2: "running ref_ext ref_web ref_host ?p2"
    by (rule running.go [OF p1 main_step.own [OF process_step.connect]]) simp
  have "main_step ref_ext ref_web ref_host ?p2
      (?p2\<lparr>pr_Open := 0, pr_Conns := pr_Conns ?p2 @ [(?route, register_post, ?t)]\<rparr>)"
    by (rule main_accept [where a = a]) (simp_all add: http_routes_def register_post_def)
  then have p3: "running ref_ext ref_web ref_host ?p3" using running.go [OF p2] by simp
  obtain v w where v: "run (RegisterClient ref_ext public_request) ref_world = (Inr v, w)"
    using ref_register_client by blast
  let ?resp = "WriteJSON 201 (Some (register_client_json v)) new_response"
  have "run (alone ?t) ref_world = (?resp, w)"
    by (simp add: handlers_alone(4) [where X = ref_ext and key_N = 15 and key_E = 3 and secure = True
          and url = "''/login''", OF refl] run_Recoverer
        RegisterClientHandler_def NewAuthHandler_def decode_register_post run_call v)
      (simp add: public_request_def)
  then have "running ref_ext ref_web ref_host (?p3\<lparr>pr_Conns := [] @ (?route, register_post, Done ?resp) # [], pr_World := w\<rparr>)"
    by (intro served_alone [OF _ _ _ p3]) simp_all
  then show thesis by (rule that) simp_all
qed

section \<open>What holds of the server\<close>

text \<open>C9: Every state of the data that the process works on is one that the interleaved service reaches,
  whatever the process goes through: boot, requests accepted and cut at any call, a listener that
  fails, a signal, a shutdown that expires, a start after a crash.  Its requests in progress, less
  those answered without calling a service, are calls in progress of that interleaving, so
  every invariant of the interleaved service holds behind the server.\<close>

theorem server_refines_service:
  assumes "running X H os p"
  shows "\<exists>old ts. interleaved X (old @ ts, pr_World p)
    \<and> tracks X H (cf_LoginURL (Load os)) (pr_Conns p) ts"
  using running_ok [OF assms] by (simp add: process_ok_def served_by_def)

theorem server_refines_service_witness:
  "\<exists>p old ts. running ref_ext ref_web ref_host p \<and> pr_Conns p \<noteq> []
    \<and> interleaved ref_ext (old @ ts, pr_World p)
    \<and> tracks ref_ext ref_web (cf_LoginURL (Load ref_host)) (pr_Conns p) ts"
proof -
  obtain p resp where p: "running ref_ext ref_web ref_host p"
    "pr_Conns p = [((''POST'', ''/admin/clients''), register_post, Done resp)]"
    by (rule ref_served)
  from server_refines_service [OF p(1)] p show ?thesis by (intro exI [of _ p]) simp
qed

lemma tracks_answer:
  assumes "tracks X H url cs ts" "((meth, path), r, Done resp) \<in> set cs"
  shows "honoured X H url T path r resp
    \<or> (\<exists>req g a. (req, Done a) \<in> set ts \<and> resp = g a \<and> asks X H url path r req g)"
  using assms
proof (induction rule: tracks.induct)
  case (calls path' r' req g cs ts meth' q)
  then show ?case by (cases q) fastforce+
qed auto

text \<open>C7: What the server answers is true of the stored data, in the state of the answer and in every later
  one, whatever the other requests did meanwhile.  A token response (200 at \<open>/oauth/token\<close>) is for
  the stored client whose identifier the request presents, for a redirect URI and a non-empty scope
  it registered; a registration reported with 201 is stored under the identifier in the response,
  with supported grant types only, and has a secret hash unless it is public; a redirect of the
  authorization endpoint goes to the configured login page, with the URI of the request, or to a URI
  that a stored client of the requested identifier registered.\<close>

theorem server_answers_honoured:
  assumes "env_ok X" "running X H os p" "((meth, path), r, Done resp) \<in> set (pr_Conns p)"
  shows "honoured X H (cf_LoginURL (Load os)) (tables_of X (pr_World p)) path r resp"
proof -
  obtain old ts where ts: "interleaved X (old @ ts, pr_World p)"
    "tracks X H (cf_LoginURL (Load os)) (pr_Conns p) ts"
    using running_ok [OF assms(2)] unfolding process_ok_def served_by_def by blast
  have "kept X (tables_of X (pr_World p)) req a" if "(req, Done a) \<in> set ts" for req a
    by (rule interleaved_answers [OF assms(1) ts(1)]) (simp add: that)
  with tracks_answer [OF ts(2) assms(3)] show ?thesis unfolding asks_def by blast
qed

theorem server_answers_honoured_witness:
  "\<exists>p v c. running ref_ext ref_web ref_host p
    \<and> ((''POST'', ''/admin/clients''), register_post,
        Done (WriteJSON 201 (Some (register_client_json v)) new_response)) \<in> set (pr_Conns p)
    \<and> c \<in> stored_clients ref_ext (pr_World p) \<and> cl_ID c = rp_ClientID v"
proof -
  obtain p resp where p: "running ref_ext ref_web ref_host p" "hp_Status resp = Some 201"
    "pr_Conns p = [((''POST'', ''/admin/clients''), register_post, Done resp)]"
    by (rule ref_served)
  from server_answers_honoured [OF ref_env p(1), of "''POST''" "''/admin/clients''" register_post resp] p
  obtain v c where "resp = WriteJSON 201 (Some (register_client_json v)) new_response"
    "c \<in> clients_of (tables_of ref_ext (pr_World p))" "cl_ID c = rp_ClientID v"
    unfolding honoured_def by auto
  with p show ?thesis by (intro exI [of _ p] exI [of _ v] exI [of _ c]) (simp add: clients_stored)
qed

text \<open>C34: The life of the process.  Before start-up is over nothing is open and nothing is served.  While it
  serves, and while it drains, both pools are open, the configuration is the environment's and the
  two keys match.  A status of 0 means that every request it ever accepted was answered and both
  pools are closed.  A status of 1 means a failed start-up, with nothing served and at most one pool
  open, or that \<open>log.Fatalf\<close> ended a serving process, which leaves both pools open: \<open>Close\<close> is
  deferred, and deferred calls do not run then.\<close>

theorem main_lifecycle:
  assumes "running X H os p"
  shows "case pr_Phase p of
      Booting \<Rightarrow> pr_Pools p = [] \<and> pr_Conns p = []
    | Serving a \<Rightarrow> pr_Pools p = [RedisPool, SqlPool] \<and> app_Cfg a = Load os
        \<and> sk_PublicKey (app_privateKey a) = app_publicKey a
    | Draining a t \<Rightarrow> pr_Pools p = [RedisPool, SqlPool] \<and> app_Cfg a = Load os
        \<and> sk_PublicKey (app_privateKey a) = app_publicKey a
    | Exited n \<Rightarrow> n = 0 \<and> pr_Pools p = [] \<and> (\<forall>(route, r, q) \<in> set (pr_Conns p). \<exists>resp. q = Done resp)
        \<or> n = 1 \<and> (pr_Conns p = [] \<and> length (pr_Pools p) \<le> 1 \<or> pr_Pools p = [RedisPool, SqlPool])"
  using running_ok [OF assms] unfolding process_ok_def
  by (cases "pr_Phase p") (auto simp: up_def all_answered_iff)

theorem main_lifecycle_witness:
  "\<exists>p a. running ref_ext ref_web ref_host p \<and> pr_Phase p = Serving a
    \<and> pr_Pools p = [RedisPool, SqlPool] \<and> pr_Conns p \<noteq> []"
proof -
  obtain p a resp where p: "running ref_ext ref_web ref_host p" "pr_Phase p = Serving a"
    "pr_Conns p = [((''POST'', ''/admin/clients''), register_post, Done resp)]"
    by (rule ref_served) blast
  from main_lifecycle [OF p(1)] p show ?thesis by (intro exI [of _ p] exI [of _ a]) simp
qed

text \<open>C10: A shutdown terminates.  From the signal on the process takes at most ten steps for each request
  in progress, eleven for each connection that has sent none yet, and one more, whatever happens
  around it and in whatever order; and as long as it has not ended it can take a step.  It ends with
  status 0 or 1.  With 0, every request it ever accepted, the late ones too, has been answered with
  a status of its route, and both pools are closed.  A request is dropped only when the fifteen
  seconds are over: an exit before that leaves none without its answer.\<close>

theorem shutdown_terminates:
  assumes "running X H os p" "pr_Phase p = Draining a t" "own_steps X H os p k p'"
  shows "k \<le> 11 * pr_Open p + 10 * unanswered (pr_Conns p) + 1
    \<and> pr_Phase p' \<in> {Draining a t, Exited 0, Exited 1}
    \<and> (pr_Phase p' = Draining a t \<longrightarrow> (\<exists>p''. process_step X H os p' p''))
    \<and> (pr_Phase p' = Exited 0 \<longrightarrow> pr_Pools p' = [])
    \<and> (pr_Phase p' = Exited 0 \<or> pr_Phase p' = Exited 1 \<and> now (pr_World p') < t + shutdown_timeout
        \<longrightarrow> (\<exists>more. requests_of (pr_Conns p') = requests_of (pr_Conns p) @ more)
          \<and> (\<forall>((meth, path), r, q) \<in> set (pr_Conns p').
               \<exists>resp. q = Done resp \<and> (\<exists>st \<in> statuses path. hp_Status resp = Some st)))"
proof -
  have ok: "process_ok X H os p'" by (rule running_ok [OF own_steps_running [OF assms(3,1)]])
  have s: "shuts_down a t (11 * pr_Open p + 10 * unanswered (pr_Conns p)) p k p'"
    by (rule own_steps_shut_down [OF assms(3,2)]) (use running_ok [OF assms(1)] in \<open>simp add: process_ok_def\<close>)
  have "\<forall>((meth, path), r, q) \<in> set (pr_Conns p').
      \<exists>resp. q = Done resp \<and> (\<exists>st \<in> statuses path. hp_Status resp = Some st)"
    if "pr_Phase p' = Exited n" for n
    using ok that by (fastforce simp: process_ok_def all_answered_iff conn_ok_def answered_def)
  with ok s draining_steps [OF ok] show ?thesis
    unfolding shuts_down_def by (auto simp: keeps_requests_def process_ok_def)
qed

theorem shutdown_terminates_witness:
  "\<exists>p a t p'. running ref_ext ref_web ref_host p \<and> pr_Phase p = Draining a t \<and> pr_Conns p \<noteq> []
    \<and> own_steps ref_ext ref_web ref_host p 2 p' \<and> pr_Phase p' = Exited 0 \<and> pr_Pools p' = []
    \<and> (\<exists>more. requests_of (pr_Conns p') = requests_of (pr_Conns p) @ more)"
proof -
  obtain p a resp where p: "running ref_ext ref_web ref_host p" "pr_Phase p = Serving a"
    "pr_Conns p = [((''POST'', ''/admin/clients''), register_post, Done resp)]" "pr_Open p = 0"
    by (rule ref_served) blast
  have pools: "run Close (pr_Pools p) = ((), [])"
    using running_ok [OF p(1)] p(2) by (simp add: process_ok_def up_def)
  let ?c = "p\<lparr>pr_Open := Suc (pr_Open p)\<rparr>"
  let ?d = "?c\<lparr>pr_Phase := Draining a (now (pr_World ?c))\<rparr>"
  let ?h = "?d\<lparr>pr_Open := 0\<rparr>" let ?e = "?h\<lparr>pr_Phase := Exited 0, pr_Pools := []\<rparr>"
  have "running ref_ext ref_web ref_host ?c"
    by (rule running.go [OF p(1) main_step.own [OF process_step.connect [OF p(2)]]])
  then have d: "running ref_ext ref_web ref_host ?d" by (rule running.go [OF _ main_signal]) (simp add: p(2))
  have "own_steps ref_ext ref_web ref_host ?d (Suc 0) ?h"
    by (rule own_steps.own [OF own_steps.stay process_step.hang_up]) (simp_all add: p)
  moreover have "process_step ref_ext ref_web ref_host ?h ?e"
    by (rule process_step.stopped) (simp_all add: p pools)
  ultimately have steps: "own_steps ref_ext ref_web ref_host ?d 2 ?e"
    unfolding numeral_2_eq_2 by (rule own_steps.own)
  from shutdown_terminates [OF d _ steps, of a "now (pr_World p)"] d steps p show ?thesis
    by (intro exI [of _ ?d] exI [of _ a] exI [of _ "now (pr_World p)"] exI [of _ ?e]) simp
qed

end
