(* ===== verification/CodeOnce.thy ===== *)
theory CodeOnce
  imports Server
begin

text \<open>
  One code, one token response, for the server with any number of requests in progress.  A thread
  \<open>redeems\<close> when it cannot succeed without an action that takes the code out of Redis.
\<close>

section \<open>Threads that have to redeem\<close>

definition code_slot :: "('r, 'd) ext \<Rightarrow> gostring \<Rightarrow> ('r, 'd) world \<Rightarrow> (gostring \<times> gotime option) option" where
  "code_slot X k w = store X w (authCodeKeyPrefix @ k)"

definition takes :: "('r, 'd) ext \<Rightarrow> gostring \<Rightarrow> ('r, 'd) world \<Rightarrow> ('r, 'd) world \<Rightarrow> bool" where
  "takes X k w w' \<longleftrightarrow> code_slot X k w \<noteq> None \<and> code_slot X k w' = None"

abbreviation redeems ::
  "('r, 'd) ext \<Rightarrow> gostring \<Rightarrow> ('a \<Rightarrow> bool) \<Rightarrow> (('r, 'd) world, 'a) thread \<Rightarrow> bool" where
  "redeems X k Q \<equiv> promises (\<lambda>w w'. \<not> takes X k w w') (\<lambda>x. \<not> Q x)"

lemma Consume_takes:
  assumes "redis_ok X" "run (AuthCode_Consume X k) w = (Inr a, w')"
  shows "takes X k w w'"
proof -
  from AuthCode_Consume_cases(1) [OF assms(1) assms(2)] have "code_at X w k = Some a"
    "store X w' = (store X w)(authCodeKeyPrefix @ k := None)" by auto
  then show ?thesis
    by (auto simp: takes_def code_slot_def code_at_def cached_def live_def split: option.splits)
qed

lemma grant_redeems:
  assumes "redis_ok X"
  shows "redeems X (tq_Code req) (\<lambda>r. \<exists>v. r = Inr v) (authorizationCodeGrant_thread X req)"
  unfolding authorizationCodeGrant_thread_def
  by (rule promises_perform)
    (auto split: option.split sum.split intro!: promises_perform dest: Consume_takes [OF assms])

lemma Exchange_redeems:
  assumes "redis_ok X"
  shows "redeems X (tq_Code req) (\<lambda>r. \<exists>v. r = Inr v) (Exchange_thread X req)"
  unfolding Exchange_thread_def
  using grant_redeems [OF assms] by (auto simp: refreshTokenGrant_def intro!: promises_atomic)

definition presents :: "gostring \<Rightarrow> http_request \<Rightarrow> bool" where
  "presents k r \<longleftrightarrow> (\<exists>form. hr_PostForm r = Some form \<and> tq_Code (ParseTokenRequest form) = k)"

lemma token_handler_redeems:
  assumes "redis_ok X" "presents k r"
  shows "redeems X k (\<lambda>resp. hp_Status resp = Some 200) (TokenHandler_thread X H r)"
proof -
  have e: "redeems X (tq_Code req) (\<lambda>resp. hp_Status resp = Some 200)
      (call_thread (Exchange_thread X req) (\<lambda>res. case res of
          Inl err \<Rightarrow> writeTokenExchangeError err new_response
        | Inr resp \<Rightarrow> WriteJSON 200 (Some (token_response_json resp)) (noStore new_response)))" for req
    unfolding call_thread_def
    by (rule promises_andthen [OF Exchange_redeems [OF assms(1)]]) (auto split: sum.split goerr.split)
  have "redeems X k (\<lambda>resp. hp_Status resp = Some 200)
      (call_thread (Exchange_thread X (req\<lparr>tq_ClientID := i, tq_ClientSecret := s\<rparr>)) (\<lambda>res. case res of
          Inl err \<Rightarrow> writeTokenExchangeError err new_response
        | Inr resp \<Rightarrow> WriteJSON 200 (Some (token_response_json resp)) (noStore new_response)))"
    if "tq_Code req = k" for req :: token_request and i s
    using e [of "req\<lparr>tq_ClientID := i, tq_ClientSecret := s\<rparr>"] that by simp
  with assms(2) show ?thesis
    by (auto simp: presents_def TokenHandler_thread_def Let_def writeValidationError_def
        split: option.split sum.split)
qed

section \<open>One holder\<close>

definition at_token :: "gostring \<Rightarrow> ('r, 'd) conn \<Rightarrow> bool" where
  "at_token k c \<longleftrightarrow> snd (fst c) = ''/oauth/token'' \<and> presents k (fst (snd c))"

text \<open>A request that presents the code and can succeed without taking it out of Redis.\<close>

definition holds :: "('r, 'd) ext \<Rightarrow> gostring \<Rightarrow> ('r, 'd) conn \<Rightarrow> nat" where
  "holds X k c = (if at_token k c \<and> \<not> redeems X k (\<lambda>resp. hp_Status resp = Some 200) (snd (snd c))
     then 1 else 0)"

abbreviation holders :: "('r, 'd) ext \<Rightarrow> gostring \<Rightarrow> ('r, 'd) conn list \<Rightarrow> nat" where
  "holders X k cs \<equiv> sum_list (map (holds X k) cs)"

definition one_token :: "('r, 'd) ext \<Rightarrow> gostring \<Rightarrow> ('r, 'd) process \<Rightarrow> bool" where
  "one_token X k p \<longleftrightarrow> holders X k (pr_Conns p) + (if code_slot X k (pr_World p) = None then 0 else 1) \<le> 1"

text \<open>A step that does not store the code anew.\<close>

definition quiet_step ::
  "('r, 'd) ext \<Rightarrow> web \<Rightarrow> host \<Rightarrow> gostring \<Rightarrow> ('r, 'd) process \<Rightarrow> ('r, 'd) process \<Rightarrow> bool" where
  "quiet_step X H os k p p' \<longleftrightarrow> main_step X H os p p'
     \<and> (code_slot X k (pr_World p') = None \<or> code_slot X k (pr_World p') = code_slot X k (pr_World p))"

lemma holds_route:
  assumes "redis_ok X" "(route, t) \<in> set (http_routes X H h)"
  shows "holds X k (route, r, t r) = 0"
proof -
  have "t = TokenHandler_thread X H" if "snd route = ''/oauth/token''"
    using assms(2) that by (auto simp: http_routes_def)
  with token_handler_redeems [OF assms(1)] show ?thesis by (auto simp: holds_def at_token_def)
qed

lemma holds_turn:
  assumes "f w = (q, w')" "\<not> takes X k w w'"
  shows "holds X k (route, r, q) \<le> holds X k (route, r, Act f)"
  using assms by (auto simp: holds_def at_token_def promises_Act intro!: exI [of _ w])

lemma holders_filter: "holders X k (filter P cs) \<le> holders X k cs"
  by (induction cs) auto

lemma quiet_step_one:
  assumes "redis_ok X" "quiet_step X H os k p p'" "one_token X k p"
  shows "one_token X k p'"
proof -
  have s: "main_step X H os p p'" "code_slot X k (pr_World p') = None
      \<or> code_slot X k (pr_World p') = code_slot X k (pr_World p)"
    using assms(2) by (auto simp: quiet_step_def)
  have fatal: "one_token X k (fatal p)"
    using assms(3) holders_filter [of X k conn_done "pr_Conns p"] by (auto simp: one_token_def)
  show ?thesis
    using s(1)
  proof (cases rule: main_step.cases)
    case own
    then show ?thesis
    proof (cases rule: process_step.cases)
      case (accept a n route t r)
      with assms(3) holds_route [OF assms(1) accept(4), of k r] show ?thesis by (simp add: one_token_def)
    next
      case (turn cs route r f ds q w)
      have "holds X k (route, r, q) \<le> 1" by (simp add: holds_def)
      moreover have "takes X k (pr_World p) w \<or> holds X k (route, r, q) \<le> holds X k (route, r, Act f)"
        using holds_turn [where f = f and w = "pr_World p", OF turn(4)] by blast
      ultimately show ?thesis
        using assms(3) s(2) turn
        by (auto simp: one_token_def takes_def simp del: sum_list_eq_0_iff split: if_splits)
    qed (use assms(3) fatal in \<open>simp_all add: one_token_def\<close>)
  next
    case (other w)
    with assms(3) s(2) show ?thesis by (auto simp: one_token_def split: if_splits)
  qed
qed

text \<open>C6: One code, one token response.  However the requests of the server are interleaved, and whatever
  else it goes through, of all token requests that present a code which is not stored anew in the
  meantime at most one is answered with 200, that is with tokens; this holds from any state with
  no request in progress, a restart included.\<close>

theorem one_token_response:
  assumes "redis_ok X" "(quiet_step X H os k)\<^sup>*\<^sup>* p p'" "pr_Conns p = []"
  shows "length (filter (\<lambda>((meth, path), r, q). path = ''/oauth/token'' \<and> presents k r
      \<and> (\<exists>resp. q = Done resp \<and> hp_Status resp = Some 200)) (pr_Conns p')) \<le> 1"
proof -
  have "one_token X k p'"
    using assms(2)
  proof (induction rule: rtranclp_induct)
    case base
    show ?case using assms(3) by (simp add: one_token_def)
  qed (rule quiet_step_one [OF assms(1)])
  moreover have "length (filter (\<lambda>((meth, path), r, q). path = ''/oauth/token'' \<and> presents k r
      \<and> (\<exists>resp. q = Done resp \<and> hp_Status resp = Some 200)) cs) \<le> holders X k cs" for cs
    by (induction cs) (auto simp: holds_def at_token_def)
  ultimately show ?thesis unfolding one_token_def by (meson add_leD1 le_trans)
qed

text \<open>Two requests with the same code, both in progress.\<close>

definition code_post :: "gostring \<Rightarrow> http_request" where
  "code_post k = \<lparr>hr_Method = ''POST'', hr_URL = zero_url\<lparr>u_Path := ''/oauth/token''\<rparr>,
     hr_Authorization = [], hr_Cookies = [], hr_Body = [],
     hr_PostForm = Some [(''grant_type'', [''authorization_code'']), (''code'', [k]),
       (''redirect_uri'', [''https://a/cb'']), (''client_id'', [''c1''])]\<rparr>"

theorem one_token_response_witness:
  "\<exists>p p'. (quiet_step ref_ext ref_web ref_host ''k'')\<^sup>*\<^sup>* p p' \<and> pr_Conns p = []
    \<and> requests_of (pr_Conns p') = replicate 2 ((''POST'', ''/oauth/token''), code_post ''k'')
    \<and> presents ''k'' (code_post ''k'')
    \<and> length (filter (\<lambda>((meth, path), r, q). path = ''/oauth/token'' \<and> presents ''k'' r
        \<and> (\<exists>resp. q = Done resp \<and> hp_Status resp = Some 200)) (pr_Conns p')) \<le> 1"
proof -
  obtain a where "run (New ref_host (Load ref_host)) [] = (Inr a, [RedisPool, SqlPool])"
    using ref_host_starts by blast
  let ?c = "((''POST'', ''/oauth/token''), code_post ''k'', TokenHandler_thread ref_ext ref_web (code_post ''k''))"
  let ?p = "\<lambda>n cs. \<lparr>pr_Phase = Serving a, pr_Pools = [RedisPool, SqlPool], pr_Open = n, pr_Conns = cs,
    pr_World = service_world\<rparr>"
  have step: "quiet_step ref_ext ref_web ref_host ''k'' (?p (Suc n) cs) (?p n (cs @ [?c]))" for n cs
  proof -
    have "main_step ref_ext ref_web ref_host (?p (Suc n) cs)
        ((?p (Suc n) cs)\<lparr>pr_Open := n, pr_Conns := pr_Conns (?p (Suc n) cs) @ [?c]\<rparr>)"
    proof (rule main_accept)
      show "in_service (pr_Phase (?p (Suc n) cs)) = Some a" "pr_Open (?p (Suc n) cs) = Suc n" by simp_all
      show "((''POST'', ''/oauth/token''), TokenHandler_thread ref_ext ref_web)
          \<in> set (http_routes ref_ext ref_web (main_handler ref_ext a))" by (simp add: http_routes_def)
      show "(''POST'', ''/oauth/token'') = (hr_Method (code_post ''k''), u_Path (hr_URL (code_post ''k'')))"
        by (simp add: code_post_def)
    qed
    then show ?thesis by (simp only: quiet_step_def process.simps simp_thms)
  qed
  have "quiet_step ref_ext ref_web ref_host ''k'' (?p 2 []) (?p 1 [?c])"
    "quiet_step ref_ext ref_web ref_host ''k'' (?p 1 [?c]) (?p 0 [?c, ?c])"
    using step [of 1 "[]"] step [of 0 "[?c]"] by (simp_all only: append.simps numeral_2_eq_2 One_nat_def)
  then have steps: "(quiet_step ref_ext ref_web ref_host ''k'')\<^sup>*\<^sup>* (?p 2 []) (?p 0 [?c, ?c])"
    by (rule rtranclp.rtrancl_into_rtrancl [OF r_into_rtranclp])
  have k: "presents ''k'' (code_post ''k'')"
    by (simp add: presents_def code_post_def ParseTokenRequest_def vals_get_def)
  have two: "requests_of (pr_Conns (?p 0 [?c, ?c])) = replicate 2 ((''POST'', ''/oauth/token''), code_post ''k'')"
    by (simp only: process.select_convs list.map prod.case numeral_2_eq_2 replicate.simps)
  have "pr_Conns (?p 2 []) = []" by simp
  with steps two k one_token_response [OF ref_ok(1) steps this] show ?thesis by blast
qed

end
