(* ===== verification/Concurrent.thy ===== *)
theory Concurrent
  imports TokenProperties
begin

text \<open>
  Requests to the token endpoint side by side.  A code grant in progress is cut at its calls of
  MySQL and Redis, each of which is atomic at its server; between two of them any other request may
  act.  \<open>grant_step\<close> is the code of \<open>authorizationCodeGrant\<close> from one call to the next, and
  \<open>grant_steps_run\<close> shows that four steps without interruption are the whole of it.
\<close>

section \<open>A grant in steps\<close>

datatype phase =
    Lookup \<comment> \<open>before the client is loaded\<close>
  | Redeem client \<comment> \<open>the client has authenticated\<close>
  | Owner client auth_code \<comment> \<open>the code is consumed and matches\<close>
  | Mint client auth_code user \<comment> \<open>the user is loaded\<close>
  | Finished "goerr + token_response"

definition after_lookup ::
  "('r, 'd) ext \<Rightarrow> token_request \<Rightarrow> goerr + client option \<Rightarrow> phase" where
  "after_lookup X req found = (case found of
     Inl e \<Rightarrow> Finished (Inl (wrap ''TokenGrantService.authorizationCodeGrant'' e))
   | Inr None \<Rightarrow> Finished (Inl ErrInvalidClient)
   | Inr (Some client) \<Rightarrow>
       if cl_ClientSecretHash client \<noteq> []
          \<and> \<not> bcrypt_matches X (cl_ClientSecretHash client) (tq_ClientSecret req)
       then Finished (Inl ErrInvalidClient) else Redeem client)"

definition after_redeem :: "token_request \<Rightarrow> client \<Rightarrow> goerr + auth_code \<Rightarrow> phase" where
  "after_redeem req client consumed = (case consumed of
     Inl e \<Rightarrow> Finished (if err_is e ErrAuthCodeNotFound then Inl ErrInvalidGrant
                        else Inl (wrap ''TokenGrantService.authorizationCodeGrant'' e))
   | Inr authCode \<Rightarrow>
       if ac_ClientID authCode \<noteq> tq_ClientID req \<or> ac_RedirectURI authCode \<noteq> tq_RedirectURI req
          \<or> \<not> pkce_ok authCode (tq_CodeVerifier req)
       then Finished (Inl ErrInvalidGrant) else Owner client authCode)"

definition after_owner :: "client \<Rightarrow> auth_code \<Rightarrow> goerr + user option \<Rightarrow> phase" where
  "after_owner client authCode owner = (case owner of
     Inl e \<Rightarrow> Finished (Inl (wrap ''TokenGrantService.authorizationCodeGrant'' e))
   | Inr None \<Rightarrow> Finished (Inl ErrInvalidGrant)
   | Inr (Some u) \<Rightarrow> Mint client authCode u)"

fun grant_step :: "('r, 'd) ext \<Rightarrow> token_request \<Rightarrow> phase \<Rightarrow> (('r, 'd) world, phase) state" where
  "grant_step X req Lookup = do {
     found \<leftarrow> Client_GetByID X (tq_ClientID req);
     ret (after_lookup X req found)
   }"
| "grant_step X req (Redeem client) = do {
     consumed \<leftarrow> AuthCode_Consume X (tq_Code req);
     ret (after_redeem req client consumed)
   }"
| "grant_step X req (Owner client authCode) = do {
     owner \<leftarrow> User_GetByID X (ac_UserID authCode);
     ret (after_owner client authCode owner)
   }"
| "grant_step X req (Mint client authCode u) = do {
     r \<leftarrow> mint_pair X u client authCode;
     ret (Finished r)
   }"
| "grant_step X req (Finished r) = ret (Finished r)"

fun grant_steps :: "nat \<Rightarrow> ('r, 'd) ext \<Rightarrow> token_request \<Rightarrow> phase \<Rightarrow> (('r, 'd) world, phase) state" where
  "grant_steps 0 X req p = ret p"
| "grant_steps (Suc n) X req p = do {
     p' \<leftarrow> grant_step X req p;
     grant_steps n X req p'
   }"

lemma grant_steps_Finished [simp]: "run (grant_steps n X req (Finished r)) w = (Finished r, w)"
  by (induction n) simp_all

lemma grant_steps_run:
  "run (grant_steps 4 X req Lookup) w = (case run (authorizationCodeGrant X req) w of (r, w') \<Rightarrow> (Finished r, w'))"
proof -
  have 4: "4 = Suc (Suc (Suc (Suc 0)))" by simp
  show ?thesis
    unfolding 4
    by (auto simp: authorizationCodeGrant_def after_lookup_def after_redeem_def after_owner_def
        split: prod.splits sum.splits option.splits)
qed

section \<open>Interleavings\<close>

text \<open>
  The requests in progress and the world they share.  A new request may arrive, one of them may
  take its next step, and anything else may happen in the world, except that the code \<open>k\<close> is
  issued a second time.
\<close>

type_synonym ('r, 'd) system = "(token_request \<times> phase) list \<times> ('r, 'd) world"

abbreviation slot :: "('r, 'd) ext \<Rightarrow> gostring \<Rightarrow> ('r, 'd) world \<Rightarrow> (gostring \<times> gotime option) option" where
  "slot X k w \<equiv> store X w (authCodeKeyPrefix @ k)"

inductive interleave :: "('r, 'd) ext \<Rightarrow> gostring \<Rightarrow> ('r, 'd) system \<Rightarrow> ('r, 'd) system \<Rightarrow> bool"
  for X k where
  arrive: "interleave X k (ts, w) (ts @ [(req, Lookup)], w)"
| advance: "run (grant_step X req p) w = (p', w')
    \<Longrightarrow> interleave X k (ts @ (req, p) # us, w) (ts @ (req, p') # us, w')"
| elsewhere: "slot X k w' = None \<or> slot X k w' = slot X k w \<Longrightarrow> interleave X k (ts, w) (ts, w')"

definition holds_code :: "gostring \<Rightarrow> token_request \<times> phase \<Rightarrow> bool" where
  "holds_code k t \<longleftrightarrow> tq_Code (fst t) = k \<and> (case snd t of
     Owner _ _ \<Rightarrow> True | Mint _ _ _ \<Rightarrow> True | Finished (Inr _) \<Rightarrow> True | _ \<Rightarrow> False)"

text \<open>The code is in Redis or in the hands of one request, never both.\<close>

definition one_holder :: "('r, 'd) ext \<Rightarrow> gostring \<Rightarrow> ('r, 'd) system \<Rightarrow> bool" where
  "one_holder X k s \<longleftrightarrow> length (filter (holds_code k) (fst s)) + (if slot X k (snd s) = None then 0 else 1)
     \<le> (1 :: nat)"

lemma grant_step_slot:
  assumes "redis_ok X" "run (grant_step X req p) w = (p', w')"
  shows "slot X k w' = None \<or> slot X k w' = slot X k w"
    and "holds_code k (req, p') \<Longrightarrow> holds_code k (req, p) \<or> slot X k w \<noteq> None \<and> slot X k w' = None"
proof -
  have sql: "slot X k w' = slot X k w" if "sql_only m" "run m w = (r, w')"
    for m :: "(('a, 'b) world, 'c) state" and r
    using keeps_field_runD [of "\<lambda>w. (now w, draws w, rds w)" m w r w'] that
    by (simp add: sql_only_def store_def)
  have "(slot X k w' = None \<or> slot X k w' = slot X k w) \<and> (holds_code k (req, p') \<longrightarrow>
      holds_code k (req, p) \<or> slot X k w \<noteq> None \<and> slot X k w' = None)"
  proof (cases p)
    case Lookup
    with assms(2) obtain found where "run (Client_GetByID X (tq_ClientID req)) w = (found, w')"
        "p' = after_lookup X req found"
      by (auto split: prod.splits)
    with sql [OF sql_only_ops(6)] show ?thesis
      by (auto simp: after_lookup_def holds_code_def split: sum.splits option.splits if_splits)
  next
    case (Redeem client)
    with assms(2) obtain r where c: "run (AuthCode_Consume X (tq_Code req)) w = (r, w')"
        "p' = after_redeem req client r"
      by (auto split: prod.splits)
    note C = AuthCode_Consume_cases(1,2) [OF assms(1) c(1)]
    show ?thesis
    proof (cases r)
      case (Inl e)
      then show ?thesis using C(2) by (auto simp: c(2) after_redeem_def holds_code_def)
    next
      case (Inr a)
      with C(1) have a: "code_at X w (tq_Code req) = Some a"
        "store X w' = (store X w)(authCodeKeyPrefix @ tq_Code req := None)" by auto
      have "slot X (tq_Code req) w \<noteq> None"
        using a(1) by (cases "slot X (tq_Code req) w") (auto simp: code_at_def cached_def live_def)
      with a(2) show ?thesis by (auto simp: holds_code_def)
    qed
  next
    case (Owner client authCode)
    with assms(2) obtain r where "run (User_GetByID X (ac_UserID authCode)) w = (r, w')"
      by (auto split: prod.splits)
    with sql [OF sql_only_ops(2)] show ?thesis by (auto simp: Owner holds_code_def)
  next
    case (Mint client authCode u)
    with assms(2) obtain r where "run (mint_pair X u client authCode) w = (r, w')"
      by (auto split: prod.splits)
    then have "rds w' = rds w" by (rule keeps_field_runD [OF mint_frame])
    then show ?thesis by (auto simp: Mint holds_code_def store_def)
  next
    case (Finished r)
    with assms(2) show ?thesis by simp
  qed
  then show "slot X k w' = None \<or> slot X k w' = slot X k w"
    and "holds_code k (req, p') \<Longrightarrow> holds_code k (req, p) \<or> slot X k w \<noteq> None \<and> slot X k w' = None"
    by blast+
qed

lemma one_holder_kept:
  assumes "redis_ok X" "interleave X k s s'" "one_holder X k s"
  shows "one_holder X k s'"
  using assms(2)
proof (cases rule: interleave.cases)
  case (arrive ts w req)
  with assms(3) show ?thesis by (simp add: one_holder_def holds_code_def)
next
  case (advance req p w p' w' ts us)
  note S = grant_step_slot [OF assms(1) advance(3), of k]
  show ?thesis
    using assms(3) S unfolding one_holder_def advance(1,2)
    by (auto split: if_splits)
next
  case (elsewhere w' w ts)
  with assms(3) show ?thesis by (auto simp: one_holder_def split: if_splits)
qed

text \<open>However token requests are interleaved, with each other and with everything else the service
  and its servers do, an authorization code that is not issued a second time gives tokens to at
  most one of them: of all requests that present it, at most one ends in success.\<close>

theorem code_gives_tokens_once_interleaved:
  assumes "redis_ok X" and "(interleave X k)\<^sup>*\<^sup>* ([], w) (ts, w')"
  shows "length (filter (\<lambda>(req, p). tq_Code req = k \<and> (\<exists>resp. p = Finished (Inr resp))) ts) \<le> 1"
proof -
  have "one_holder X k (ts, w')"
    using assms(2)
  proof (induction rule: rtranclp_induct)
    case base
    show ?case by (simp add: one_holder_def)
  next
    case (step s s')
    then show ?case using one_holder_kept [OF assms(1)] by blast
  qed
  moreover have "length (filter (\<lambda>(req, p). tq_Code req = k \<and> (\<exists>resp. p = Finished (Inr resp))) ts)
      \<le> length (filter (holds_code k) ts)"
    by (induction ts) (auto simp: holds_code_def)
  ultimately show ?thesis by (simp add: one_holder_def split: if_splits)
qed

text \<open>An interleaving in which both requests run to their end, the second one in vain.\<close>

lemma advance_steps:
  "run (grant_steps n X req p) w = (p', w')
    \<Longrightarrow> (interleave X k)\<^sup>*\<^sup>* (ts @ (req, p) # us, w) (ts @ (req, p') # us, w')"
proof (induction n arbitrary: p w)
  case (Suc n)
  obtain p1 w1 where s: "run (grant_step X req p) w = (p1, w1)" by fastforce
  with Suc.prems have "run (grant_steps n X req p1) w1 = (p', w')" by simp
  from converse_rtranclp_into_rtranclp [OF advance [OF s] Suc.IH [OF this]] show ?case .
qed simp

theorem code_gives_tokens_once_interleaved_witness:
  "\<exists>k w resp r w'. (interleave ref_ext k)\<^sup>*\<^sup>* ([], w)
      ([(sample_exchange k, Finished (Inr resp)), (sample_exchange k, Finished r)], w')
    \<and> (\<forall>resp'. r \<noteq> Inr resp')"
proof -
  obtain k w resp w1 where e: "run (Exchange ref_ext (sample_exchange k)) w = (Inr resp, w1)"
    by (rule sample_exchanged)
  let ?q = "sample_exchange k"
  have g: "run (authorizationCodeGrant ref_ext ?q) w = (Inr resp, w1)"
    using e by (simp add: Exchange_def)
  obtain r w2 where g2: "run (authorizationCodeGrant ref_ext ?q) w1 = (r, w2)" by fastforce
  have "(interleave ref_ext k)\<^sup>*\<^sup>* ([], w) ([] @ (?q, Lookup) # [(?q, Lookup)], w)"
    using arrive [of ref_ext k "[]" w ?q] arrive [of ref_ext k "[(?q, Lookup)]" w ?q] by simp
  also have "(interleave ref_ext k)\<^sup>*\<^sup>* ([] @ (?q, Lookup) # [(?q, Lookup)], w)
      ([(?q, Finished (Inr resp))] @ (?q, Lookup) # [], w1)"
    using advance_steps [of 4 ref_ext ?q Lookup w _ w1 k "[]" "[(?q, Lookup)]"]
    by (simp add: grant_steps_run g)
  also have "(interleave ref_ext k)\<^sup>*\<^sup>* ([(?q, Finished (Inr resp))] @ (?q, Lookup) # [], w1)
      ([(?q, Finished (Inr resp))] @ (?q, Finished r) # [], w2)"
    by (rule advance_steps [of 4]) (simp add: grant_steps_run g2)
  finally have run: "(interleave ref_ext k)\<^sup>*\<^sup>* ([], w)
      ([(?q, Finished (Inr resp)), (?q, Finished r)], w2)" by simp
  moreover have "\<forall>resp'. r \<noteq> Inr resp'"
    using code_gives_tokens_once_interleaved [OF ref_ok(1) run] by auto
  ultimately show ?thesis by blast
qed

end
