(* ===== verification/Conformance.thy ===== *)
theory Conformance
  imports Gateway
begin

text \<open>
  The interface the server offers, as types: for every route and status the shape of the JSON
  body, from the structures of \<open>internal/dtos\<close> and the error bodies of \<open>internal/httpx\<close> and
  \<open>internal/handler\<close>, and the proof that every response of every handler has it.
\<close>

section \<open>Shapes of JSON\<close>

text \<open>An object lists its members in the order of the structure; an optional one is \<open>omitempty\<close>.
  A dictionary is a map of strings, written sorted by key.\<close>

datatype shape =
    SString
  | SNumber
  | SDict
  | SArray shape
  | SObject "(gostring \<times> bool \<times> shape) list"

abbreviation required :: "gostring \<Rightarrow> shape \<Rightarrow> gostring \<times> bool \<times> shape" where
  "required k s \<equiv> (k, False, s)"

abbreviation omitempty :: "gostring \<Rightarrow> shape \<Rightarrow> gostring \<times> bool \<times> shape" where
  "omitempty k s \<equiv> (k, True, s)"

definition decimal :: "gostring \<Rightarrow> bool" where
  "decimal t \<longleftrightarrow> (let d = (if has_prefix t ''-'' then drop 1 t else t)
     in d \<noteq> [] \<and> list_all Strconv.is_digit d)"

definition dictionary :: "(gostring \<times> json) list \<Rightarrow> bool" where
  "dictionary kvs \<longleftrightarrow> sorted (map fst kvs)
     \<and> list_all (\<lambda>(k, v). case v of JStr s \<Rightarrow> True | _ \<Rightarrow> False) kvs"

function (sequential) has_shape :: "shape \<Rightarrow> json \<Rightarrow> bool"
  and has_members :: "(gostring \<times> bool \<times> shape) list \<Rightarrow> (gostring \<times> json) list \<Rightarrow> bool" where
  "has_shape SString (JStr s) = True"
| "has_shape SNumber (JNum t) = decimal t"
| "has_shape SDict (JObj kvs) = dictionary kvs"
| "has_shape (SArray s) (JArr vs) \<longleftrightarrow> (\<forall>v \<in> set vs. has_shape s v)"
| "has_shape (SObject fs) (JObj kvs) \<longleftrightarrow> has_members fs kvs"
| "has_shape s v = False"
| "has_members [] kvs \<longleftrightarrow> kvs = []"
| "has_members ((k, opt, s) # fs) [] \<longleftrightarrow> opt \<and> has_members fs []"
| "has_members ((k, opt, s) # fs) ((k', v) # kvs) \<longleftrightarrow>
     (if k' = k then has_shape s v \<and> has_members fs kvs else opt \<and> has_members fs ((k', v) # kvs))"
  by pat_completeness auto

termination by size_change

section \<open>The interface\<close>

definition error_shape :: shape where
  "error_shape = SObject [required ''error'' SString]"

definition oauth_error_shape :: shape where
  "oauth_error_shape = SObject [required ''error'' SString, omitempty ''error_description'' SString]"

definition validation_error_shape :: shape where
  "validation_error_shape = SObject [required ''error'' SString, required ''error_description'' SString,
     required ''fields'' SDict]"

definition login_shape :: shape where
  "login_shape = SObject [required ''next'' SString, required ''session_expires_at'' SString]"

definition refresh_shape :: shape where
  "refresh_shape = SObject [required ''access_token'' SString, required ''access_token_expiry'' SNumber]"

definition client_shape :: shape where
  "client_shape = SObject [required ''client_id'' SString, omitempty ''client_secret'' SString,
     required ''name'' SString]"

definition token_shape :: shape where
  "token_shape = SObject [required ''access_token'' SString, required ''token_type'' SString,
     required ''expires_in'' SNumber, required ''scope'' SString, omitempty ''refresh_token'' SString]"

definition jwks_shape :: shape where
  "jwks_shape = SObject [required ''keys'' (SArray (SObject [required ''kty'' SString,
     required ''use'' SString, required ''alg'' SString, required ''kid'' SString,
     required ''n'' SString, required ''e'' SString]))]"

text \<open>The body of a route with a status, where there is one.\<close>

definition body_shapes :: "gostring \<Rightarrow> nat \<Rightarrow> shape list" where
  "body_shapes path st =
    (if path = ''/.well-known/jwks.json'' then [jwks_shape]
     else if path = ''/oauth/token''
     then (if st = 200 then [token_shape] else [oauth_error_shape, validation_error_shape])
     else if path = ''/oauth/authorize'' then [error_shape, validation_error_shape]
     else if path = ''/login'' \<and> st = 200 then [login_shape]
     else if path = ''/refresh'' \<and> st = 200 then [refresh_shape]
     else if path = ''/admin/clients'' \<and> st = 201 then [client_shape]
     else [error_shape])"

text \<open>
  A response of a route: without a body when it only clears the cookie or recovers from a panic,
  a redirect with its target, or JSON of the shape that the route and the status give.  The body
  of a login is missing when the encoder refuses the instant the session ends.
\<close>

definition json_response :: "gostring \<Rightarrow> nat \<Rightarrow> http_response \<Rightarrow> bool" where
  "json_response path st resp \<longleftrightarrow> hp_Header resp ''Content-Type'' = Some ''application/json''
     \<and> hp_Header resp ''Location'' = None
     \<and> (path = ''/login'' \<and> st = 200 \<and> hp_Body resp = []
        \<or> (\<exists>v. hp_Body resp = json_text v @ [CHR 0x0A] \<and> (\<exists>s \<in> set (body_shapes path st). has_shape s v)))"

text \<open>The token endpoint forbids caching and challenges exactly with a 401; the key set may be cached.\<close>

definition route_headers :: "gostring \<Rightarrow> nat \<Rightarrow> (gostring \<rightharpoonup> gostring) \<Rightarrow> bool" where
  "route_headers path st hs =
    (if path = ''/oauth/token''
     then hs ''Cache-Control'' = Some ''no-store'' \<and> hs ''Pragma'' = Some ''no-cache''
       \<and> hs ''Www-Authenticate'' = (if st = 401 then Some ''Basic realm=\"oauth2\"'' else None)
     else if path = ''/.well-known/jwks.json'' then hs ''Cache-Control'' = Some ''public, max-age=300''
     else hs ''Cache-Control'' = None \<and> hs ''Www-Authenticate'' = None)"

definition route_cookies :: "gostring \<Rightarrow> nat \<Rightarrow> cookie list \<Rightarrow> bool" where
  "route_cookies path st cs =
    (if path = ''/login'' \<and> st = 200 \<or> path = ''/logout'' \<and> st = 204
     then (\<exists>c. cs = [c] \<and> ck_Name c = ''session_id'' \<and> ck_Path c = ''/'' \<and> ck_HttpOnly c
       \<and> ck_SameSite c = SameSiteLax \<and> (ck_MaxAge c < 0 \<longleftrightarrow> path = ''/logout''))
     else cs = [])"

definition conforms :: "gostring \<Rightarrow> http_response \<Rightarrow> bool" where
  "conforms path resp \<longleftrightarrow> (\<exists>st \<in> statuses path. hp_Status resp = Some st
     \<and> route_headers path st (hp_Header resp) \<and> route_cookies path st (hp_Cookies resp)
     \<and> (if st = 204 then hp_Body resp = []
        else if st = 302 then hp_Header resp ''Location'' \<noteq> None
        else json_response path st resp \<or> st = 500 \<and> hp_Body resp = []))"

section \<open>The bodies that the handlers write\<close>

lemma decimal_itoa [simp]: "decimal (itoa i)"
proof -
  have n: "nat_text n \<noteq> []" "list_all Strconv.is_digit (nat_text n)" "\<not> has_prefix (nat_text n) ''-''" for n
    using nat_text_reads [of n] nat_text_no_sign [of n] by (auto simp: has_prefix_def neq_Nil_conv)
  show ?thesis
    using n by (simp add: decimal_def itoa_def has_prefix_def)
qed

lemma dictionary_sorted: "dictionary (map (\<lambda>(k, m). (k, JStr m)) (sort_key fst errs))"
  by (simp add: dictionary_def list_all_iff comp_def case_prod_unfold)

lemmas shapes = error_shape_def oauth_error_shape_def validation_error_shape_def login_shape_def
  refresh_shape_def client_shape_def token_shape_def jwks_shape_def

lemma written_shapes:
  "has_shape error_shape (JObj [(''error'', JStr msg)])"
  "has_shape login_shape (login_response_json nxt expires)"
  "has_shape refresh_shape (refresh_response_json rv)"
  "has_shape client_shape (register_client_json cv)"
  "has_shape token_shape (token_response_json tv)"
  "has_shape oauth_error_shape (token_error_json code description)"
  "has_shape validation_error_shape (validation_error_json errs)"
  "has_shape jwks_shape (jwks_json ks)"
  by (auto simp: shapes login_response_json_def refresh_response_json_def register_client_json_def
      token_response_json_def token_error_json_def validation_error_json_def jwks_json_def jwk_json_def
      dictionary_sorted)

section \<open>The responses of the handlers\<close>

lemma WriteJSON_parts:
  assumes "hp_Status w = None"
  shows "hp_Header (WriteJSON st v w) = (hp_Header w)(''Content-Type'' \<mapsto> ''application/json'')"
    "hp_Cookies (WriteJSON st v w) = hp_Cookies w"
    "hp_Body (WriteJSON st v w) = hp_Body w @ (case v of None \<Rightarrow> [] | Some j \<Rightarrow> json_text j @ [CHR 0x0A])"
  using assms by (simp_all add: WriteJSON_def Let_def WriteHeader_def set_header_def write_body_def split: option.split)

lemma json_responseI:
  assumes "hp_Status w = None" "hp_Body w = []" "hp_Header w ''Location'' = None"
    and "has_shape s v" "s \<in> set (body_shapes path st)"
  shows "json_response path st (WriteJSON st (Some v) w)"
  using assms by (auto simp: json_response_def WriteJSON_parts)

lemma conforms_json:
  assumes "has_shape s v" "s \<in> set (body_shapes path st)" "st \<in> statuses path" "st \<notin> {204, 302}"
    and "hp_Status w = None" "hp_Body w = []" "hp_Header w ''Location'' = None"
    and "route_headers path st ((hp_Header w)(''Content-Type'' \<mapsto> ''application/json''))"
    and "route_cookies path st (hp_Cookies w)"
  shows "conforms path (WriteJSON st (Some v) w)"
  using assms json_responseI [OF assms(5-7,1,2)]
  by (auto simp: conforms_def WriteJSON_parts intro!: bexI [of _ st])


lemma conforms_error:
  assumes "error_shape \<in> set (body_shapes path st)" "st \<in> statuses path" "st \<notin> {204, 302}"
    and "route_headers path st [''Content-Type'' \<mapsto> ''application/json'']" "route_cookies path st []"
  shows "conforms path (WriteError st msg new_response)"
  unfolding WriteError_def
  by (rule conforms_json [OF written_shapes(1)]) (use assms in \<open>auto simp: new_response_def\<close>)

lemmas interface = body_shapes_def statuses_route route_headers_def route_cookies_def

lemma errors_conform [simp]:
  "conforms ''/login'' (WriteError 400 msg new_response)" "conforms ''/login'' (WriteError 401 msg new_response)"
  "conforms ''/login'' internal_error" "conforms ''/logout'' internal_error"
  "conforms ''/refresh'' (WriteError 400 msg new_response)" "conforms ''/refresh'' internal_error"
  "conforms ''/oauth/authorize'' (WriteError 400 msg new_response)" "conforms ''/oauth/authorize'' internal_error"
  "conforms ''/admin/clients'' (WriteError 400 msg new_response)" "conforms ''/admin/clients'' internal_error"
  unfolding internal_error_def by (rule conforms_error; simp add: interface)+

lemma panics_conform [simp]:
  "conforms ''/login'' (WriteHeader 500 new_response)" "conforms ''/logout'' (WriteHeader 500 new_response)"
  "conforms ''/refresh'' (WriteHeader 500 new_response)" "conforms ''/oauth/authorize'' (WriteHeader 500 new_response)"
  "conforms ''/admin/clients'' (WriteHeader 500 new_response)"
  by (simp_all add: conforms_def interface WriteHeader_def new_response_def)

lemma validation_conforms [simp]:
  "conforms ''/oauth/authorize'' (writeValidationError errs new_response)"
  "conforms ''/oauth/token'' (writeValidationError errs (noStore new_response))"
  unfolding writeValidationError_def
  by (rule conforms_json [OF written_shapes(7)];
      simp add: interface noStore_def set_header_def new_response_def)+

lemma token_errors_conform [simp]:
  "conforms ''/oauth/token'' (writeTokenError 400 code d new_response)"
  "conforms ''/oauth/token'' (writeTokenError 401 code d (challenge new_response))"
  unfolding writeTokenError_def
  by (rule conforms_json [OF written_shapes(6)];
      simp add: interface noStore_def challenge_def set_header_def new_response_def)+

lemma successes_conform [simp]:
  "conforms ''/.well-known/jwks.json'' (WriteJSON 200 (Some (jwks_json ks))
     (set_header ''Cache-Control'' ''public, max-age=300'' new_response))"
  "conforms ''/refresh'' (WriteJSON 200 (Some (refresh_response_json rv)) new_response)"
  "conforms ''/oauth/token'' (WriteJSON 200 (Some (token_response_json tv)) (noStore new_response))"
  "conforms ''/admin/clients'' (WriteJSON 201 (Some (register_client_json cv)) new_response)"
  by (rule conforms_json [OF written_shapes(8)] conforms_json [OF written_shapes(3)]
        conforms_json [OF written_shapes(5)] conforms_json [OF written_shapes(4)];
      simp add: interface noStore_def set_header_def new_response_def)+

lemma login_conforms [simp]: "conforms ''/login'' (login_answer X nxt secure (Inr result))"
  unfolding conforms_def login_answer_def
  by (rule bexI [of _ 200])
    (auto simp: interface json_response_def WriteJSON_parts SetCookie_def new_response_def login_cookie_def
        SessionCookieName_def written_shapes(2) split: option.split)

lemma logged_out_conforms [simp]: "conforms ''/logout'' (logged_out secure)"
  by (simp add: conforms_def interface logged_out_def cleared_cookie_def SessionCookieName_def
      WriteHeader_def SetCookie_def new_response_def)

lemma Redirect_other_headers:
  "k \<notin> {''Content-Type'', ''Location''} \<Longrightarrow> hp_Header (Redirect L r t new_response) k = None"
  by (simp add: Redirect_def new_response_def set_header_def WriteHeader_def write_body_def Let_def)

lemma redirect_conforms [simp]: "conforms ''/oauth/authorize'' (RedirectWith L r base kv new_response)"
proof (cases "parse_url L base")
  case None
  then show ?thesis using errors_conform(8) by (simp add: RedirectWith_def internal_error_def)
next
  case (Some u)
  then show ?thesis
    by (simp add: RedirectWith_def Let_def conforms_def interface Redirect_headers Redirect_other_headers)
qed

lemma refusals_conform [simp]:
  "conforms ''/login'' (login_answer X nxt secure (Inl err))"
  "conforms ''/oauth/token'' (writeTokenExchangeError err new_response)"
  "conforms ''/oauth/authorize'' (answer_authorize H url r res)"
  by (simp_all add: login_answer_def writeTokenExchangeError_def answer_authorize_def
      split: authorize_action.split)

lemma login_answer_conforms [simp]: "conforms ''/login'' (login_answer X nxt secure res)"
  by (cases res) simp_all

lemma handlers_conform:
  "results (conforms ''/.well-known/jwks.json'') (JWKSHandler_thread h r)"
  "results (conforms ''/login'') (LoginHandler_thread X H h r)"
  "results (conforms ''/logout'') (LogoutHandler_thread X h r)"
  "results (conforms ''/refresh'') (RefreshHandler_thread X r)"
  "results (conforms ''/oauth/authorize'') (AuthorizeHandler_thread X H h r)"
  "results (conforms ''/oauth/token'') (TokenHandler_thread X H r)"
  "results (conforms ''/admin/clients'') (RegisterClientHandler_thread X r)"
  unfolding handler_threads Let_def
  by (auto intro!: promises_call [OF disjI2] promises_call [OF disjI1, OF Exchange_no_panic]
      split: option.split sum.split)

lemma routes_conform:
  assumes "((meth, path), t) \<in> set (http_routes X H h)"
  shows "results (conforms path) (t r)"
  using assms [unfolded http_routes_def set_simps insert_iff empty_iff simp_thms prod.inject]
  by (elim disjE conjE; hypsubst) (simp_all only: handlers_conform)

text \<open>C11: Every response has the type its route and status promise, whatever the request and whatever
  happens in MySQL, Redis and the other requests meanwhile.  After at most ten actions there is a
  response; its JSON body has exactly the members of the structure of \<open>internal/dtos\<close> that the route
  and the status call for (optional ones only where the structure says \<open>omitempty\<close>), each a string, a
  decimal number, a map sorted by key or a list of keys; a redirect has a target.  Every answer of the token
  endpoint, errors included, forbids caching, and it challenges the client exactly with a 401.  Only a
  login and a logout set a cookie: one, for \<open>session_id\<close>, http-only and same-site.\<close>

theorem responses_conform:
  assumes "((meth, path), t) \<in> set (http_routes X H h)"
  shows "\<exists>resp. after_turns ws 10 (t r) = Done resp \<and> conforms path resp"
  by (rule ends_with [OF routes_conform [OF assms] handlers_within [OF assms]])

theorem responses_conform_witness:
  "\<exists>resp. after_turns (\<lambda>n. user_world) 10 (TokenHandler_thread ref_ext ref_web (login_post ''wrong'')) = Done resp
    \<and> conforms ''/oauth/token'' resp"
proof -
  let ?h = "NewAuthHandler ref_ext 15 3 True ''/login''"
  have "((''POST'', ''/oauth/token''), TokenHandler_thread ref_ext ref_web) \<in> set (http_routes ref_ext ref_web ?h)"
    by (simp add: http_routes_def)
  from responses_conform [OF this] show ?thesis .
qed

end
