(* ===== verification/Flow.thy ===== *)
theory Flow
  imports Gateway
begin

text \<open>
  Signing in as a browser and its client live through it: three HTTP requests, each made from what the
  response before it held, and the tokens at the end.
\<close>

section \<open>What the other side reads off a response\<close>

text \<open>The value of the one cookie that was set, and a parameter of the target of a redirect.\<close>

definition browser_cookie :: "http_response \<Rightarrow> gostring" where
  "browser_cookie resp = (case hp_Cookies resp of [c] \<Rightarrow> ck_Value c | _ \<Rightarrow> [])"

definition target_param :: "http_response \<Rightarrow> gostring \<Rightarrow> gostring" where
  "target_param resp k = (case hp_Header resp ''Location'' of
     None \<Rightarrow> []
   | Some loc \<Rightarrow> vals_get (parse_query (drop 1 (dropWhile (\<lambda>c. c \<noteq> CHR ''?'') loc))) k)"

lemma origin_text_no_query:
  assumes "parse_url L s = Some u" "u_Host u \<noteq> []"
  shows "CHR ''?'' \<notin> set (origin_text u)"
proof -
  have "\<not> scheme_char (CHR ''?'')" by (simp add: scheme_char_def alnum_def cont_def)
  then have s: "CHR ''?'' \<notin> set (u_Scheme u)" "u_Opaque u = []"
    using parse_url_shape [OF assms(1)] assms(2) by (auto simp: scheme_def)
  have e: "CHR ''?'' \<notin> set (url_escape EncodeHost t)" "CHR ''?'' \<notin> set (url_escape EncodeUserPassword t)" for t
    by (rule escape_avoids_query, simp add: should_escape_def alnum_def cont_def)+
  show ?thesis
    using s e by (auto simp: origin_text_def user_text_def split: option.splits)
qed

lemma redirect_params:
  assumes "validator_ok H" "Authorize_Validate H req = None"
    and "parse_url (ip_literal H) (aq_RedirectURI req) = Some u" "short_query u" "v \<noteq> []"
    and "k \<noteq> ''state''"
    and resp_def: "resp = RedirectWith (ip_literal H) r (aq_RedirectURI req) [k, v, ''state'', aq_State req] new_response"
  shows "hp_Status resp = Some 302" "target_param resp k = v" "target_param resp ''state'' = aq_State req"
proof -
  obtain u' where u': "parse_url (ip_literal H) (aq_RedirectURI req) = Some u'" "u_Host u' \<noteq> []"
    and base: "redirect_base (ip_literal H) (aq_RedirectURI req) u'" and st: "aq_State req \<noteq> []"
    by (rule valid_target [OF assms(1,2)])
  have uu: "u' = u" using u'(1) assms(3) by simp
  have fr: "fragment_text u = []"
    using assms(2,3) by (auto simp: authorize_valid_iff [OF assms(1)] validateRedirectURI_def fragment_text_def
        split: if_splits)
  let ?ps = "[(k, v), (''state'', aq_State req)]"
  have resp: "resp = RedirectWith (ip_literal H) r (aq_RedirectURI req) (flat ?ps) new_response"
    by (simp add: resp_def flat_def)
  note R = RedirectWith_extends [OF base [unfolded uu], of ?ps r, folded resp]
  show "hp_Status resp = Some 302" using R(1) assms(5,6) st by simp
  obtain loc where l: "hp_Header resp ''Location'' = Some loc" and x: "extends u ?ps loc"
    using R(3) assms(5,6) st by auto
  from x assms(4) obtain q where q: "loc = location u q"
    "\<And>k'. vals_of (parse_query q) k' = (case map_of ?ps k' of
        Some v \<Rightarrow> [v] | None \<Rightarrow> vals_of (parse_query (u_RawQuery u)) k')"
    unfolding extends_def by blast
  have "CHR ''?'' \<notin> set (origin_text u @ path_text u)"
    using origin_text_no_query [OF assms(3)] u'(2) uu path_text_no_query by simp
  then have "dropWhile (\<lambda>c. c \<noteq> CHR ''?'') ((origin_text u @ path_text u) @ CHR ''?'' # q) = CHR ''?'' # q"
    by (subst dropWhile_append2) auto
  then have p: "target_param resp k' = vals_get (parse_query q) k'" for k'
    by (simp add: target_param_def l q(1) location_def fr)
  show "target_param resp k = v" "target_param resp ''state'' = aq_State req"
    using q(2) [of k] q(2) [of "''state''"] assms(6) by (auto simp: p vals_get_of)
qed

section \<open>The three requests\<close>

lemma login_request:
  assumes "redis_spec True X" "mysql_spec True X" "library_ok X"
    and "decode_login (hr_Body r) = Some req" "lq_Email req \<noteq> []" "lq_Password req \<noteq> []"
    and "authenticates X w req u" "time_text X (now w) \<noteq> None"
    and "run (Recoverer (LoginHandler X H (NewAuthHandler X key_N key_E secure url) r)) w = (resp, w')"
  shows "\<exists>lr. run (Login X req) w = (Inr lr, w') \<and> browser_cookie resp = lr_SessionID lr
    \<and> hp_Status resp = Some 200"
proof -
  obtain res w1 where run: "run (Login X req) w = (res, w1)" by fastforce
  obtain lr where lr: "res = Inr lr"
    using Login_cases(4) [OF assms(1,2) run TrueI assms(7,8)] by blast
  from assms(9,4-6) run [unfolded lr] show ?thesis
    by (auto simp: LoginHandler_def Let_def NewAuthHandler_def run_Recoverer run_call login_answer_def
        browser_cookie_def login_cookie_def)
qed

lemma library_uuid: "library_ok X \<Longrightarrow> new_uuid X n \<noteq> []"
  by (auto simp: library_ok_def uuid_text_def dest!: spec [of _ n])

text \<open>The session lives for thirty days.\<close>

lemma login_session:
  assumes "redis_ok X" "mysql_ok X" "library_ok X" and "run (Login X req) w = (Inr lr, w')"
    and "t < now w + sessionTTL"
  shows "\<exists>s. session_of X (w'\<lparr>now := t\<rparr>) (lr_SessionID lr) = Some s"
proof -
  obtain u :: user and w1 where w1: "same_world X w w1"
    and c: "run (Session_Create X (us_ID u) (us_Email u)) w1 = (Inr (lr_SessionID lr, lr_ExpiresAt lr), w')"
    using Login_cases(1) [OF assms(1,2,4) refl] by blast
  note S = Session_Create_session_at [OF assms(1,3) c]
  have "lr_SessionID lr \<noteq> []"
    using Session_Create_cases(1) [OF assms(1) c refl] library_uuid [OF assms(3), of "draws w1"] by auto
  with S(1) S(2) [of t] assms(5) show ?thesis
    by (simp add: session_of_def same_world_reads(8) [OF w1])
qed

lemma authorize_request_with_session:
  assumes "redis_spec True X" "mysql_spec True X" "library_ok X" "validator_ok H"
    and req: "req = ParseAuthorizeRequest (url_query r)" and "Authorize_Validate H req = None"
    and "parse_url (ip_literal H) (aq_RedirectURI req) = Some ru" "short_query ru"
    and "decide (client_at X w (aq_ClientID req)) (session_of X w (CookieValue r ''session_id'')) req = Issue c s"
    and "rand32 X (draws w) \<noteq> None" "time_text X (now w) \<noteq> None"
    and "run (Recoverer (AuthorizeHandler H (NewAuthHandler X key_N key_E secure url) r)) w = (resp, w')"
  shows "\<exists>res. run (Authorize X req (CookieValue r ''session_id'')) w = (Inr res, w')
    \<and> az_Action res = ActionIssueCode \<and> hp_Status resp = Some 302
    \<and> target_param resp ''code'' = az_Code res \<and> target_param resp ''state'' = aq_State req"
proof -
  have ok: "backends_ok X"
    using spec_up_ok(1) [OF assms(1)] spec_up_ok(2) [OF assms(2)] assms(3) by (simp add: backends_ok_def)
  obtain ra w1 where run: "run (Authorize X req (CookieValue r ''session_id'')) w = (ra, w1)" by fastforce
  obtain res where res: "ra = Inr res" "az_Action res = ActionIssueCode"
    using Authorize_issues [OF assms(1,2) run assms(9-11)] by blast
  note law = authorize_laws [OF ok run [unfolded res(1)]]
  have resp: "resp = answer_authorize H url r res" "w1 = w'"
    using assms(12,6) run res(1)
    by (simp_all add: AuthorizeHandler_def Let_def NewAuthHandler_def run_Recoverer run_call req [symmetric]
        SessionCookieName_def)
  with law(1,2) res(2) have "resp = RedirectWith (ip_literal H) r (aq_RedirectURI req)
      [''code'', az_Code res, ''state'', aq_State req] new_response"
    by (simp add: answer_authorize_def)
  from redirect_params [OF assms(4,6-8) _ _ this] law(2) res run resp(2) show ?thesis by simp
qed

lemma token_request_granted:
  assumes "validator_ok H" "presented r = Some req" "token_faults req = {}"
    and "result_of (Exchange X req) w = Inr tr"
    and "run (Recoverer (TokenHandler H (NewAuthHandler X key_N key_E secure url) r)) w = (resp, w')"
  shows "hp_Status resp = Some 200 \<and> hp_Body resp = json_text (token_response_json tr) @ [CHR 0x0A]"
proof -
  have v: "Token_Validate H req = None"
    using reported_None [OF assms(1)] token_reported [OF assms(1), of req] assms(3) by (simp add: Token_Validate_def)
  obtain form where form: "hr_PostForm r = Some form"
    using assms(2) by (auto simp: presented_def split: option.splits)
  obtain i s where c: "resolveClient r (ParseTokenRequest form) = Inr (i, s)"
    using resolveClient_cases(2) [OF form] assms(2) by (cases "resolveClient r (ParseTokenRequest form)") auto
  have req: "req = (ParseTokenRequest form)\<lparr>tq_ClientID := i, tq_ClientSecret := s\<rparr>"
    using resolveClient_cases(1) [OF form c] assms(2) by simp
  obtain w1 where "run (Exchange X req) w = (Inr tr, w1)"
    using assms(4) by (cases "run (Exchange X req) w") simp
  with assms(5) v form c show ?thesis
    by (auto simp: TokenHandler_def Let_def NewAuthHandler_def run_Recoverer run_call req [symmetric] noStore_def)
qed

section \<open>From the password to the tokens\<close>

text \<open>C3: Signing in works, over HTTP and from start to end: with the servers up, in any state the service
  can reach, a user who posts the right email and password gets a 200 and a session cookie; when
  the browser brings this cookie, within thirty days, with a valid authorization request for a registered client,
  redirect URI and scope, the answer is a 302 that hands the state and a code to the client; and
  when the client posts this code within sixty seconds with the verifier of its challenge, and its secret
  if it has one, the answer is a 200 with an access token for that user, client and scope, and a
  refresh token.  Each request is made only from what the responses before it contained.\<close>

theorem sign_in_flow:
  assumes "redis_spec True X" "mysql_spec True X" "columns_ok X" "library_ok X" "validator_ok H"
    and "reachable X w0" "h = NewAuthHandler X key_N key_E secure url"
    \<comment> \<open>the login\<close>
    and "decode_login (hr_Body r1) = Some lreq" "lq_Email lreq \<noteq> []" "lq_Password lreq \<noteq> []"
    and "authenticates X w0 lreq u" "time_text X (now w0) \<noteq> None"
    and "run (Recoverer (LoginHandler X H h r1)) w0 = (resp1, w1)"
    \<comment> \<open>the authorization request\<close>
    and "now w0 \<le> t1" "t1 < now w0 + 30 * 24 * 3600 * second" "CookieValue r2 ''session_id'' = browser_cookie resp1"
    and areq: "areq = ParseAuthorizeRequest (url_query r2)" and "Authorize_Validate H areq = None"
    and "parse_url (ip_literal H) (aq_RedirectURI areq) = Some ru" "short_query ru"
    and "client_at X w0 (aq_ClientID areq) = Some c" "aq_RedirectURI areq \<in> set (elems (cl_RedirectURIs c))"
    and "scope_granted c (aq_Scope areq)" "prompt_none areq \<longrightarrow> length (Fields (aq_Prompt areq)) = 1"
    and "rand32 X (draws w1) \<noteq> None" "time_text X t1 \<noteq> None"
    and "run (Recoverer (AuthorizeHandler H h r2)) (w1\<lparr>now := t1\<rparr>) = (resp2, w2)"
    \<comment> \<open>the token request\<close>
    and "t1 \<le> t2" "t2 < t1 + 60 * second" "43 \<le> length (runes verifier)" "length (runes verifier) \<le> 128"
    and "aq_CodeChallenge areq = base64_raw_url (sha256 verifier)"
    and "cl_ClientSecretHash c = [] \<or> bcrypt_matches X (cl_ClientSecretHash c) secret"
    and treq: "presented r3 = Some \<lparr>tq_GrantType = ''authorization_code'', tq_Code = target_param resp2 ''code'',
      tq_RedirectURI = aq_RedirectURI areq, tq_CodeVerifier = verifier, tq_RefreshToken = [], tq_Scope = [],
      tq_ClientID = cl_ID c, tq_ClientSecret = secret\<rparr>"
    and "token_id_unused X w2"
    and "jwt_sign X \<lparr>ic_UserID = us_ID u, ic_Email = us_Email u, ic_ClientID = cl_ID c,
      ic_Scope = join (Fields (aq_Scope areq)) '' '', ic_ID = new_uuid X (draws w2),
      ic_IssuedAt = t2, ic_ExpiresAt = t2 + 15 * 60 * second\<rparr> = Some tok"
    and "run (Recoverer (TokenHandler H h r3)) (w2\<lparr>now := t2\<rparr>) = (resp3, w3)"
  shows "hp_Status resp1 = Some 200
    \<and> hp_Status resp2 = Some 302 \<and> target_param resp2 ''state'' = aq_State areq
    \<and> hp_Status resp3 = Some 200
    \<and> hp_Body resp3 = json_text (token_response_json \<lparr>tr_AccessToken = tok, tr_TokenType = ''Bearer'',
        tr_ExpiresIn = 900, tr_Scope = join (Fields (aq_Scope areq)) '' '',
        tr_RefreshToken = new_uuid X (draws w2 + 1)\<rparr>) @ [CHR 0x0A]"
proof -
  note ok = spec_up_ok(1) [OF assms(1)] spec_up_ok(2) [OF assms(2)]
  let ?w1 = "w1\<lparr>now := t1\<rparr>"
  obtain lr where login: "run (Login X lreq) w0 = (Inr lr, w1)"
    and resp1: "browser_cookie resp1 = lr_SessionID lr" "hp_Status resp1 = Some 200"
    using login_request [OF assms(1,2,4,8-12) assms(13) [unfolded assms(7)]] by blast
  obtain s where s: "session_of X ?w1 (lr_SessionID lr) = Some s"
    using login_session [OF ok assms(4) login] assms(15) by (auto simp: sessionTTL_def)
  have t1: "tables_of X ?w1 = tables_of X w0"
    by (rule login_stored [OF ok assms(4) login]) (simp add: tables_of_def)
  have "decide (client_at X ?w1 (aq_ClientID areq)) (session_of X ?w1 (CookieValue r2 ''session_id'')) areq = Issue c s"
    using assms(16,21-24) s by (simp add: decide_def client_at_cong [OF t1] resp1(1))
  from authorize_request_with_session [OF assms(1,2,4,5,17,18-20) this _ _ assms(27) [unfolded assms(7)]]
  obtain res where auth: "run (Authorize X areq (lr_SessionID lr)) ?w1 = (Inr res, w2)"
    and act: "az_Action res = ActionIssueCode" and resp2: "hp_Status resp2 = Some 302"
      "target_param resp2 ''code'' = az_Code res" "target_param resp2 ''state'' = aq_State areq"
    using assms(16,25,26) resp1(1) by auto
  have c2: "client_at X w2 (aq_ClientID areq) = Some c"
    using assms(21) client_at_cong [OF t1] client_at_cong [OF Authorize_bounds(1) [OF ok auth]] by simp
  note A = assms(18) [unfolded authorize_valid_iff [OF assms(5)]]
  let ?req = "\<lparr>tq_GrantType = ''authorization_code'', tq_Code = az_Code res,
      tq_RedirectURI = aq_RedirectURI areq, tq_CodeVerifier = verifier, tq_RefreshToken = [], tq_Scope = [],
      tq_ClientID = cl_ID c, tq_ClientSecret = secret\<rparr>"
  obtain u' where "authenticates X w0 lreq u'" and ex: "result_of (Exchange X ?req) (w2\<lparr>now := t2\<rparr>) =
    (case jwt_sign X \<lparr>ic_UserID = us_ID u', ic_Email = us_Email u', ic_ClientID = cl_ID c,
        ic_Scope = join (Fields (aq_Scope areq)) '' '', ic_ID = new_uuid X (draws w2),
        ic_IssuedAt = t2, ic_ExpiresAt = t2 + 15 * 60 * second\<rparr> of
       None \<Rightarrow> Inl (wrap ''TokenGrantService.authorizationCodeGrant'' (ErrNew ''signing''))
     | Some tok \<Rightarrow> Inr \<lparr>tr_AccessToken = tok, tr_TokenType = ''Bearer'', tr_ExpiresIn = 900,
         tr_Scope = join (Fields (aq_Scope areq)) '' '', tr_RefreshToken = new_uuid X (draws w2 + 1)\<rparr>)"
    using login_authorize_exchange [OF assms(1-4,6) login assms(14) auth act assms(28,29) c2 assms(33) _ assms(32,35)] A
    by blast
  with assms(11) have "u' = u" by (simp add: authenticates_def)
  have "az_Code res \<noteq> []" "verifier \<noteq> []"
    using authorize_laws(2) [OF _ auth act] ok assms(4,30) by (auto simp: backends_ok_def runes.simps [of "[]"])
  then have "token_faults ?req = {}" using A assms(30,31) by (auto simp: token_faults_def Let_def)
  from token_request_granted [OF assms(5) treq [unfolded resp2(2)] this _ assms(37) [unfolded assms(7)]] ex
  show ?thesis using assms(36) resp1(2) resp2 \<open>u' = u\<close> by simp
qed

text \<open>A public client for \<open>https://a/cb\<close> and a verifier of 43 characters.\<close>

definition flow_verifier :: gostring where
  "flow_verifier = replicate 43 CHR ''a''"

definition flow_query :: "gostring \<Rightarrow> vals" where
  "flow_query i = [(''response_type'', [''code'']), (''client_id'', [i]), (''redirect_uri'', [''https://a/cb'']),
     (''scope'', [''read'']), (''state'', [''12345678'']),
     (''code_challenge'', [base64_raw_url (sha256 flow_verifier)]), (''code_challenge_method'', [''S256''])]"

definition flow_login :: http_request where
  "flow_login = login_post ''secret''"

definition flow_authorize :: "gostring \<Rightarrow> gostring \<Rightarrow> http_request" where
  "flow_authorize i cookie = authorize_get\<lparr>hr_Cookies := [(''session_id'', cookie)],
     hr_URL := (hr_URL authorize_get)\<lparr>u_RawQuery := vals_encode (flow_query i)\<rparr>\<rparr>"

definition flow_token :: "gostring \<Rightarrow> gostring \<Rightarrow> http_request" where
  "flow_token i code = token_post\<lparr>hr_PostForm := Some [(''grant_type'', [''authorization_code'']), (''code'', [code]),
     (''redirect_uri'', [''https://a/cb'']), (''code_verifier'', [flow_verifier]), (''client_id'', [i])]\<rparr>"

lemma flow_login_decodes: "decode_login (hr_Body flow_login) = Some sample_login"
proof -
  have "to_valid ''a@b.c'' = ''a@b.c''" "to_valid ''secret'' = ''secret''" by (rule to_valid_ascii, simp)+
  then show ?thesis by (simp add: flow_login_def login_post_def decode_login_body sample_login_def)
qed

lemma flow_authorize_parses:
  "ParseAuthorizeRequest (url_query (flow_authorize i cookie)) = authorize_get_request
     \<lparr>aq_ClientID := i, aq_CodeChallenge := base64_raw_url (sha256 flow_verifier)\<rparr>"
proof -
  have "length (vals_pairs (flow_query i)) \<le> max_params" "distinct (map fst (flow_query i))"
    by (simp_all add: length_pairs flow_query_def max_params_def)
  from parse_encode [OF this(2,1)] show ?thesis
    by (simp add: ParseAuthorizeRequest_def url_query_def flow_authorize_def vals_get_of authorize_get_request_def)
      (simp add: flow_query_def)
qed

lemma flow_authorize_valid:
  assumes "uuid_text i"
  shows "Authorize_Validate ref_web (authorize_get_request
    \<lparr>aq_ClientID := i, aq_CodeChallenge := base64_raw_url (sha256 flow_verifier)\<rparr>) = None"
proof -
  have i: "i \<noteq> []" "length (runes i) = 36"
    using assms uuid_plain [OF assms] by (auto simp: runes_ascii uuid_text_def)
  have "length (base64_raw_url (sha256 flow_verifier)) = 43" by (simp add: length_base64)
  then have c: "base64_raw_url (sha256 flow_verifier) \<noteq> []"
    "length (runes (base64_raw_url (sha256 flow_verifier))) = 43"
    by (auto simp: runes_ascii)
  from authorize_get_valid i c show ?thesis
    by (simp add: authorize_valid_iff [OF ref_web_ok])
qed

lemma flow_token_presents:
  "i \<noteq> [] \<Longrightarrow> presented (flow_token i code) = Some \<lparr>tq_GrantType = ''authorization_code'', tq_Code = code,
     tq_RedirectURI = ''https://a/cb'', tq_CodeVerifier = flow_verifier, tq_RefreshToken = [], tq_Scope = [],
     tq_ClientID = i, tq_ClientSecret = []\<rparr>"
  by (simp add: presented_def flow_token_def token_post_def vals_get_def ParseTokenRequest_def)

lemma flow_redirect: "\<exists>u. parse_url (ip_literal ref_web) ''https://a/cb'' = Some u \<and> short_query u"
proof -
  have "case parse_url (ip_literal ref_web) ''https://a/cb'' of None \<Rightarrow> False | Some u \<Rightarrow> u_RawQuery u = []"
    by code_simp
  then show ?thesis by (auto simp: short_query_def max_params_def split: option.splits)
qed

lemma flow_tables:
  assumes "reachable ref_ext w0" "now w0 = 0" "client_at ref_ext w0 (cl_ID c) = Some c" "authenticates ref_ext w0 sample_login u"
    and "run (Recoverer (LoginHandler ref_ext ref_web (NewAuthHandler ref_ext 15 3 True ''/login'') flow_login)) w0 = (resp1, w1)"
    and "run (Recoverer (AuthorizeHandler ref_web (NewAuthHandler ref_ext 15 3 True ''/login'')
        (flow_authorize (cl_ID c) (browser_cookie resp1)))) (w1\<lparr>now := 0\<rparr>) = (resp2, w2)"
    and "Authorize_Validate ref_web (authorize_get_request
        \<lparr>aq_ClientID := cl_ID c, aq_CodeChallenge := base64_raw_url (sha256 flow_verifier)\<rparr>) = None"
  shows "tables_of ref_ext w2 = tables_of ref_ext w0"
proof -
  have "lq_Email sample_login \<noteq> []" "lq_Password sample_login \<noteq> []" "time_text ref_ext (now w0) \<noteq> None"
    using ref_time_text_0 assms(2) by (simp_all add: sample_login_def)
  from login_request [OF ref_ok(1,2,4) flow_login_decodes this(1,2) assms(4) this(3) assms(5)]
  obtain lr where "run (Login ref_ext sample_login) w0 = (Inr lr, w1)" by blast
  then have t1: "tables_of ref_ext (w1\<lparr>now := 0\<rparr>) = tables_of ref_ext w0"
    by (rule login_stored [OF ref_ok(1,2,4)]) (simp add: tables_of_def)
  obtain ra where "run (Authorize ref_ext (authorize_get_request
      \<lparr>aq_ClientID := cl_ID c, aq_CodeChallenge := base64_raw_url (sha256 flow_verifier)\<rparr>)
      (CookieValue (flow_authorize (cl_ID c) (browser_cookie resp1)) SessionCookieName)) (w1\<lparr>now := 0\<rparr>) = (ra, w2)"
    using assms(6,7) by (auto simp: AuthorizeHandler_def Let_def NewAuthHandler_def run_Recoverer run_call
        flow_authorize_parses split: prod.splits)
  then have "tables_of ref_ext w2 = tables_of ref_ext (w1\<lparr>now := 0\<rparr>)"
    using Authorize_bounds(1) [OF ref_ok(1,2)] by blast
  with t1 show ?thesis by simp
qed

theorem sign_in_flow_witness:
  "\<exists>i resp1 w0 w1 resp2 w2 resp3 w3. reachable ref_ext w0
     \<and> run (Recoverer (LoginHandler ref_ext ref_web (NewAuthHandler ref_ext 15 3 True ''/login'') flow_login)) w0
         = (resp1, w1)
     \<and> run (Recoverer (AuthorizeHandler ref_web (NewAuthHandler ref_ext 15 3 True ''/login'')
         (flow_authorize i (browser_cookie resp1)))) (w1\<lparr>now := 0\<rparr>) = (resp2, w2)
     \<and> run (Recoverer (TokenHandler ref_web (NewAuthHandler ref_ext 15 3 True ''/login'')
         (flow_token i (target_param resp2 ''code'')))) (w2\<lparr>now := 0\<rparr>) = (resp3, w3)
     \<and> hp_Status resp1 = Some 200 \<and> hp_Status resp2 = Some 302 \<and> hp_Status resp3 = Some 200"
proof -
  let ?h = "NewAuthHandler ref_ext 15 3 True ''/login''"
  obtain c w0 where w0: "reachable ref_ext w0" "now w0 = 0" "client_at ref_ext w0 (cl_ID c) = Some c"
    "cl_ClientSecretHash c = []" "cl_RedirectURIs c = Some [''https://a/cb'']"
    "cl_Scopes c = Some [''read'']" "t_tokens (tables_of ref_ext w0) = []"
    "\<exists>u. authenticates ref_ext w0 sample_login u"
    by (rule ref_registered)
  then obtain u where u: "authenticates ref_ext w0 sample_login u" by blast
  have "env_ok ref_ext" using ref_ok by (simp add: env_ok_def)
  then have i: "uuid_text (cl_ID c)" by (rule inv_ids(1) [OF reachable_inv [OF w0(1)] ref_ok(4) w0(3)])
  let ?areq = "authorize_get_request\<lparr>aq_ClientID := cl_ID c, aq_CodeChallenge := base64_raw_url (sha256 flow_verifier)\<rparr>"
  note parses = flow_authorize_parses [of "cl_ID c", symmetric] and valid = flow_authorize_valid [OF i]
  obtain resp1 w1 where 1: "run (Recoverer (LoginHandler ref_ext ref_web ?h flow_login)) w0 = (resp1, w1)" by fastforce
  let ?r2 = "flow_authorize (cl_ID c) (browser_cookie resp1)"
  obtain resp2 w2 where 2: "run (Recoverer (AuthorizeHandler ref_web ?h ?r2)) (w1\<lparr>now := 0\<rparr>) = (resp2, w2)" by fastforce
  let ?r3 = "flow_token (cl_ID c) (target_param resp2 ''code'')"
  obtain resp3 w3 where 3: "run (Recoverer (TokenHandler ref_web ?h ?r3)) (w2\<lparr>now := 0\<rparr>) = (resp3, w3)" by fastforce
  obtain ru where ru: "parse_url (ip_literal ref_web) (aq_RedirectURI ?areq) = Some ru" "short_query ru"
    using flow_redirect by (auto simp: authorize_get_request_def)
  have l: "lq_Email sample_login \<noteq> []" "lq_Password sample_login \<noteq> []" "time_text ref_ext (now w0) \<noteq> None"
    "time_text ref_ext 0 \<noteq> None" "now w0 \<le> 0" "0 < now w0 + 30 * 24 * 3600 * second" "(0::int) \<le> 0" "0 < 0 + 60 * second"
    using ref_time_text_0 w0(2) by (simp_all add: sample_login_def second_def)
  have k: "CookieValue ?r2 ''session_id'' = browser_cookie resp1"
    by (simp add: CookieValue_def flow_authorize_def)
  have a: "client_at ref_ext w0 (aq_ClientID ?areq) = Some c" "aq_RedirectURI ?areq \<in> set (elems (cl_RedirectURIs c))"
    "scope_granted c (aq_Scope ?areq)" "prompt_none ?areq \<longrightarrow> length (Fields (aq_Prompt ?areq)) = 1"
    "rand32 ref_ext (draws w1) \<noteq> None" "aq_CodeChallenge ?areq = base64_raw_url (sha256 flow_verifier)"
    "cl_ClientSecretHash c = [] \<or> bcrypt_matches ref_ext (cl_ClientSecretHash c) []"
    using w0(3-6) by (simp_all add: authorize_get_request_def scope_granted_def prompt_none_def fields_read)
  have v: "43 \<le> length (runes flow_verifier)" "length (runes flow_verifier) \<le> 128"
    by (simp_all add: flow_verifier_def runes_ascii ascii_def)
  have "cl_ID c \<noteq> []" using i by (auto simp: uuid_text_def)
  from flow_token_presents [OF this, of "target_param resp2 ''code''"]
  have p: "presented ?r3 = Some \<lparr>tq_GrantType = ''authorization_code'', tq_Code = target_param resp2 ''code'',
      tq_RedirectURI = aq_RedirectURI ?areq, tq_CodeVerifier = flow_verifier, tq_RefreshToken = [], tq_Scope = [],
      tq_ClientID = cl_ID c, tq_ClientSecret = []\<rparr>"
    by (simp add: authorize_get_request_def)
  have t: "token_id_unused ref_ext w2"
    using flow_tables [OF w0(1-3) u 1 2 valid] w0(7) by (simp add: token_id_unused_def)
  obtain tok where j: "jwt_sign ref_ext \<lparr>ic_UserID = us_ID u, ic_Email = us_Email u, ic_ClientID = cl_ID c,
      ic_Scope = join (Fields (aq_Scope ?areq)) '' '', ic_ID = new_uuid ref_ext (draws w2),
      ic_IssuedAt = 0, ic_ExpiresAt = 0 + 15 * 60 * second\<rparr> = Some tok"
    by (simp add: ref_jwt_sign_def ref_time_text_def numeric_date_def second_def)
  have "hp_Status resp1 = Some 200 \<and> hp_Status resp2 = Some 302 \<and> hp_Status resp3 = Some 200"
    using sign_in_flow [OF ref_ok(1-4) ref_web_ok w0(1) refl flow_login_decodes l(1,2) u l(3) 1 l(5,6) k parses valid ru
        a(1-5) l(4) 2 l(7,8) v a(6,7) p t j 3] by blast
  with w0(1) 1 2 3 show ?thesis by blast
qed

end
