(* ===== verification/LogoutFinal.thy ===== *)
theory LogoutFinal
  imports Server
begin

text \<open>
  After a logout: what the authorization endpoint answers to a browser whose session has ended, for
  the server with any number of requests in progress.
\<close>

section \<open>Requests without a session\<close>

text \<open>The answers that give no code: an error page, the login page, or an error for the client.\<close>

definition sent_away :: "web \<Rightarrow> gostring \<Rightarrow> http_request \<Rightarrow> http_response \<Rightarrow> bool" where
  "sent_away H url r resp \<longleftrightarrow> hp_Status resp = Some 400 \<or> hp_Status resp = Some 500
     \<or> resp = RedirectWith (ip_literal H) r url [''next'', RequestURI (hr_URL r)] new_response
     \<or> (\<exists>e \<in> {''invalid_scope'', ''invalid_request'', ''login_required''}.
          resp = RedirectWith (ip_literal H) r (aq_RedirectURI (ParseAuthorizeRequest (url_query r)))
            [''error'', e, ''state'', aq_State (ParseAuthorizeRequest (url_query r))] new_response)"

definition turned_down :: "authorize_request \<Rightarrow> goerr + authorize_result \<Rightarrow> bool" where
  "turned_down req res \<longleftrightarrow> (case res of
     Inl err \<Rightarrow> True
   | Inr a \<Rightarrow> az_Action a \<in> {ActionRejectDirect, ActionRequireLogin}
       \<or> (\<exists>e \<in> {''invalid_scope'', ''invalid_request'', ''login_required''}. a = errorToClient req e))"

abbreviation no_session :: "('r, 'd) ext \<Rightarrow> gostring \<Rightarrow> ('r, 'd) world \<Rightarrow> bool" where
  "no_session X i w \<equiv> session_of X w i = None"

lemma Authorize_turned_down:
  assumes "redis_ok X"
  shows "promises (\<lambda>w w'. no_session X i w) (turned_down req) (Authorize_thread X req i)"
proof -
  have s: "so = None" if "run (SessionByID X i) w = (Inr so, w')" "no_session X i w" for w w' so
    using SessionByID_cases(2) [OF assms that(1)] that(2) by simp
  show ?thesis
    unfolding Authorize_thread_def Let_def
    by (auto simp: turned_down_def plain_result_def dest!: s intro!: promises_perform split: option.split sum.split)
qed

lemma answer_sent_away:
  assumes "turned_down (ParseAuthorizeRequest (url_query r)) (Inr a)"
  shows "sent_away H url r (answer_authorize H url r a)"
  using assms by (auto simp: turned_down_def answer_authorize_def errorToClient_def plain_result_def sent_away_def)

lemma refused_sent_away [simp]:
  "sent_away H url r (WriteHeader 500 new_response)" "sent_away H url r internal_error"
  "sent_away H url r (writeValidationError errs new_response)"
  by (simp_all add: sent_away_def internal_error_def writeValidationError_def)

lemma authorize_handler_sends_away:
  assumes "redis_ok X" "CookieValue r SessionCookieName = i"
  shows "promises (\<lambda>w w'. no_session X i w) (sent_away H (ah_loginURL h) r) (AuthorizeHandler_thread X H h r)"
proof (cases "Authorize_Validate H (ParseAuthorizeRequest (url_query r))")
  case None
  have a: "promises (\<lambda>w w'. no_session X i w) (turned_down (ParseAuthorizeRequest (url_query r)))
      (Authorize_thread X (ParseAuthorizeRequest (url_query r)) (CookieValue r SessionCookieName))"
    using Authorize_turned_down [OF assms(1)] assms(2) by simp
  with None show ?thesis
    unfolding AuthorizeHandler_thread_def Let_def call_thread_def
    by (auto simp: answer_sent_away intro!: promises_andthen [OF a] split: sum.split goerr.split)
qed (simp add: AuthorizeHandler_thread_def)

section \<open>The server after a logout\<close>

text \<open>A successful logout leaves no session.\<close>

lemma logout_ends_session:
  assumes "redis_ok X" "map_of (hr_Cookies r) ''session_id'' = Some i"
    and "run (alone (LogoutHandler_thread X h r)) w = (resp, w')" "hp_Status resp = Some 204"
  shows "no_session X i w'"
proof -
  obtain res where "run (Logout X i) w = (res, w')"
    and "resp = recovered (\<lambda>res. case res of Inl err \<Rightarrow> internal_error
      | Inr _ \<Rightarrow> logged_out (ah_secureCookies h)) res"
    using assms(2,3) by (auto simp: LogoutHandler_thread_def SessionCookieName_def call_thread_def recovered_def
        split: prod.splits)
  with assms(4) have "run (Logout X i) w = (Inr (), w')"
    by (cases res) (auto simp: recovered_def internal_error_def split: goerr.splits)
  then show ?thesis
    using sessions.destroy_Inr [OF assms(1)] by (auto simp: Logout_def session_of_def split: if_splits)
qed

text \<open>A step after which the session is still gone: no later login stored it anew.\<close>

definition step_without_session ::
  "('r, 'd) ext \<Rightarrow> web \<Rightarrow> host \<Rightarrow> gostring \<Rightarrow> ('r, 'd) process \<Rightarrow> ('r, 'd) process \<Rightarrow> bool" where
  "step_without_session X H os i p p' \<longleftrightarrow> main_step X H os p p' \<and> no_session X i (pr_World p')"

definition sends_away :: "('r, 'd) ext \<Rightarrow> web \<Rightarrow> gostring \<Rightarrow> gostring \<Rightarrow> ('r, 'd) conn \<Rightarrow> bool" where
  "sends_away X H url i c \<longleftrightarrow>
     (snd (fst c) = ''/oauth/authorize'' \<and> CookieValue (fst (snd c)) SessionCookieName = i
       \<longrightarrow> promises (\<lambda>w w'. no_session X i w) (sent_away H url (fst (snd c))) (snd (snd c)))"

definition later_sent_away ::
  "('r, 'd) ext \<Rightarrow> web \<Rightarrow> app \<Rightarrow> gostring \<Rightarrow> nat \<Rightarrow> ('r, 'd) process \<Rightarrow> bool" where
  "later_sent_away X H a i n p \<longleftrightarrow> no_session X i (pr_World p)
     \<and> (\<forall>a'. in_service (pr_Phase p) = Some a' \<longrightarrow> a' = a) \<and> pr_Phase p \<noteq> Booting
     \<and> (\<forall>c \<in> set (drop n (pr_Conns p)). sends_away X H (ah_loginURL (main_handler X a)) i c)"

lemma route_sends_away:
  assumes "redis_ok X" "(route, t) \<in> set (http_routes X H h)"
  shows "sends_away X H (ah_loginURL h) i (route, r, t r)"
proof -
  have "t = AuthorizeHandler_thread X H h" if "snd route = ''/oauth/authorize''"
    using assms(2) that by (auto simp: http_routes_def)
  with authorize_handler_sends_away [OF assms(1)] show ?thesis by (auto simp: sends_away_def)
qed

lemma sends_away_turn:
  "sends_away X H url i (route, r, Act f) \<Longrightarrow> f w = (q, w') \<Longrightarrow> no_session X i w
    \<Longrightarrow> sends_away X H url i (route, r, q)"
  by (auto simp: sends_away_def promises_Act dest: spec [of _ w])

lemma drop_filter_subset: "set (drop n (filter P xs)) \<subseteq> set (drop n xs)"
proof (induction xs arbitrary: n)
  case (Cons x xs)
  from Cons.IH [of n] Cons.IH [of "n - 1"] set_drop_subset_set_drop [of "n - 1" n xs] show ?case
    by (cases n) auto
qed simp

lemma later_sent_away_step:
  assumes "redis_ok X" "step_without_session X H os i p p'" "later_sent_away X H a i n p"
  shows "later_sent_away X H a i n p'"
proof -
  let ?url = "ah_loginURL (main_handler X a)"
  note I = assms(3) [unfolded later_sent_away_def]
  have s: "main_step X H os p p'" "no_session X i (pr_World p')"
    using assms(2) by (auto simp: step_without_session_def)
  have fatal: "later_sent_away X H a i n (fatal p)"
    using I drop_filter_subset [of n conn_done "pr_Conns p"] by (auto simp: later_sent_away_def)
  show ?thesis
    using s(1)
  proof (cases rule: main_step.cases)
    case own
    then show ?thesis
    proof (cases rule: process_step.cases)
      case (accept a' m route t r)
      with I have "a' = a" by blast
      with I accept route_sends_away [OF assms(1) accept(4), of i r] show ?thesis
        by (auto simp: later_sent_away_def drop_Cons' split: if_splits)
    next
      case (turn cs route r f ds q w)
      have "sends_away X H ?url i c" if "c \<in> set (drop n (cs @ (route, r, q) # ds))" for c
      proof (cases "n \<le> length cs")
        case True
        moreover have "sends_away X H ?url i (route, r, q)" if "sends_away X H ?url i (route, r, Act f)"
          by (rule sends_away_turn [where f = f, OF that turn(4)]) (use I in simp)
        ultimately show ?thesis using I turn(3) that by auto
      next
        case False
        with I turn(3) that show ?thesis by (auto simp: drop_Cons' split: if_splits)
      qed
      with I s(2) turn show ?thesis by (simp add: later_sent_away_def)
    qed (use I fatal in \<open>auto simp: later_sent_away_def\<close>)
  next
    case (other w)
    with I s(2) show ?thesis by (simp add: later_sent_away_def)
  qed
qed

text \<open>C12: A logout is final.  Once a logout with the cookie of a session is answered with 204, no request
  to the authorization endpoint that arrives later with this cookie is ever answered with a code, whatever
  requests are in progress and however they are interleaved, as long as no later login stores a
  session under the same identifier: the answer is the login page, an error for the
  client (a scope or a prompt that is refused, or \<open>login_required\<close>), or an error page.\<close>

theorem logout_is_final:
  assumes "redis_ok X" "pr_Phase p = Serving a" "map_of (hr_Cookies lr) ''session_id'' = Some i"
    and "run (alone (LogoutHandler_thread X h lr)) w = (resp, pr_World p)" "hp_Status resp = Some 204"
    and "(step_without_session X H os i)\<^sup>*\<^sup>* p p'"
    and "((''GET'', ''/oauth/authorize''), r, Done answer) \<in> set (drop (length (pr_Conns p)) (pr_Conns p'))"
    and "CookieValue r ''session_id'' = i"
  shows "sent_away H (ah_loginURL (main_handler X a)) r answer"
proof -
  have "later_sent_away X H a i (length (pr_Conns p)) p'"
    using assms(6)
  proof (induction rule: rtranclp_induct)
    case base
    from logout_ends_session [OF assms(1,3-5)] assms(2) show ?case by (auto simp: later_sent_away_def)
  qed (rule later_sent_away_step [OF assms(1)])
  with assms(7) have "sends_away X H (ah_loginURL (main_handler X a)) i ((''GET'', ''/oauth/authorize''), r, Done answer)"
    by (auto simp: later_sent_away_def)
  with assms(8) show ?thesis by (simp add: sends_away_def SessionCookieName_def)
qed

text \<open>A browser that logs out, and comes back with the cookie of the session it had.\<close>

lemma call_perform: "call_thread (perform m g) k = perform m (\<lambda>x. call_thread (g x) k)"
  unfolding call_thread_def andthen_assoc ..

lemma turn_perform:
  assumes "alive (pr_Phase p)" "pr_Conns p = cs @ (route, r, perform m g) # ds" "run m (pr_World p) = (x, w)"
  shows "main_step X H os p (p\<lparr>pr_Conns := cs @ (route, r, g x) # ds, pr_World := w\<rparr>)"
  by (rule main_turn [OF assms(1) assms(2) [unfolded atomic_def andthen.simps]]) (simp add: assms(3))

lemma only_turn:
  assumes "run m w = (x, w')" "no_session X i w'"
  shows "step_without_session X H os i
    \<lparr>pr_Phase = Serving a, pr_Pools = ps, pr_Open = n, pr_Conns = [(route, r, perform m g)], pr_World = w\<rparr>
    \<lparr>pr_Phase = Serving a, pr_Pools = ps, pr_Open = n, pr_Conns = [(route, r, g x)], pr_World = w'\<rparr>"
  using turn_perform [where p = "\<lparr>pr_Phase = Serving a, pr_Pools = ps, pr_Open = n, pr_Conns = [(route, r, perform m g)], pr_World = w\<rparr>"
      and cs = "[]" and ds = "[]" and m = m and g = g and route = route and r = r and X = X and H = H and os = os] assms
  by (simp add: step_without_session_def)

definition returning :: http_request where
  "returning = authorize_get\<lparr>hr_Cookies := [(''session_id'', ''s1'')]\<rparr>"

lemma returning_parses: "ParseAuthorizeRequest (url_query returning) = authorize_get_request"
  "CookieValue returning SessionCookieName = ''s1''"
  using authorize_get_parses by (simp_all add: returning_def url_query_def CookieValue_def SessionCookieName_def)

lemma returning_valid: "Authorize_Validate ref_web (ParseAuthorizeRequest (url_query returning)) = None"
  using authorize_get_valid by (simp add: returning_parses)

lemma returning_thread:
  "\<exists>f g. AuthorizeHandler_thread ref_ext ref_web h returning = perform (Client_GetByID ref_ext ''c1'') f
     \<and> f (Inr (Some (sample_client\<lparr>cl_CreatedAt := 0\<rparr>))) = perform (SessionByID ref_ext ''s1'') g
     \<and> g (Inr None) = Done (answer_authorize ref_web (ah_loginURL h) returning (plain_result ActionRequireLogin))"
proof -
  have r: "aq_ClientID authorize_get_request = ''c1''" "aq_RedirectURI authorize_get_request = ''https://a/cb''"
    "Fields (aq_Scope authorize_get_request) = [''read'']" "Fields (aq_Prompt authorize_get_request) = []"
    by (simp_all add: authorize_get_request_def fields_read)
  have c: "''https://a/cb'' \<in> set (elems (cl_RedirectURIs sample_client))" "''read'' \<in> set (elems (cl_Scopes sample_client))"
    by (simp_all add: sample_client_def)
  show ?thesis
    unfolding AuthorizeHandler_thread_def Let_def returning_valid option.case
    unfolding Authorize_thread_def call_perform returning_parses r
    by (intro exI conjI, rule refl) (use c in \<open>simp add: call_perform\<close>, simp add: call_thread_def)
qed

definition fresh_world :: "(redis_store, tables) world \<Rightarrow> bool" where
  "fresh_world w \<longleftrightarrow> store ref_ext w = Map.empty \<and> tables_of ref_ext w = tables_of ref_ext service_world"

lemma fresh_reads:
  assumes "fresh_world w"
  shows "\<exists>w'. run (Client_GetByID ref_ext ''c1'') w = (Inr (Some (sample_client\<lparr>cl_CreatedAt := 0\<rparr>)), w')
      \<and> fresh_world w'"
    "\<exists>w'. run (SessionByID ref_ext ''s1'') w = (Inr None, w') \<and> fresh_world w'"
    "\<exists>w'. run (alone (LogoutHandler_thread ref_ext h returning)) w = (logged_out (ah_secureCookies h), w')
      \<and> fresh_world w'"
    "no_session ref_ext ''s1'' w"
proof -
  have w: "store ref_ext w = Map.empty" "tables_of ref_ext w = tables_of ref_ext service_world"
    using assms by (simp_all add: fresh_world_def)
  obtain r w' where c: "run (Client_GetByID ref_ext ''c1'') w = (r, w')" by fastforce
  have "client_rows ref_ext w ''c1'' = Some sample_client_row" using w(2) by (simp add: sample_client_row_def)
  from Client_GetByID_cases(6) [OF ref_mysql [where up = True] c TrueI this scan_sample] sql_reads(1) [OF ref_mysql c]
  show "\<exists>w'. run (Client_GetByID ref_ext ''c1'') w = (Inr (Some (sample_client\<lparr>cl_CreatedAt := 0\<rparr>)), w')
      \<and> fresh_world w'"
    using c w by (simp add: same_world_def fresh_world_def)
  obtain r' w'' where s: "run (SessionByID ref_ext ''s1'') w = (r', w'')" by fastforce
  have none: "cached ref_ext w (sessionKeyPrefix @ ''s1'') = None" using w(1) by (simp add: cached_def live_def)
  then show "no_session ref_ext ''s1'' w" by (simp add: session_of_def session_at_def)
  from SessionByID_cases(4) [OF ref_redis [where up = True] s] SessionByID_same [OF ref_redis s] s none w
  show "\<exists>w'. run (SessionByID ref_ext ''s1'') w = (Inr None, w') \<and> fresh_world w'"
    by (simp add: same_world_def fresh_world_def)
  obtain u wl where l: "run (Logout ref_ext ''s1'') w = (u, wl)" by fastforce
  then have "run (Session_Destroy ref_ext ''s1'') w = (u, wl)" by (simp add: Logout_def)
  from Session_Destroy_cases [OF ref_redis [where up = True] this]
  have "u = Inr ()" "store ref_ext wl = Map.empty" using w(1) by auto
  moreover have "tables_of ref_ext wl = tables_of ref_ext w"
    using keeps_field_runD [OF Auth_frame(5) l] by (simp add: tables_of_def)
  ultimately show "\<exists>w'. run (alone (LogoutHandler_thread ref_ext h returning)) w = (logged_out (ah_secureCookies h), w')
      \<and> fresh_world w'"
    using l w(2) by (simp add: LogoutHandler_thread_def returning_def SessionCookieName_def call_thread_def fresh_world_def)
qed

theorem logout_is_final_witness:
  "\<exists>(p :: (redis_store, tables) process) p' resp answer h.
     map_of (hr_Cookies returning) ''session_id'' = Some ''s1''
     \<and> run (alone (LogoutHandler_thread ref_ext h returning)) service_world = (resp, pr_World p)
     \<and> hp_Status resp = Some 204
     \<and> (step_without_session ref_ext ref_web ref_host ''s1'')\<^sup>*\<^sup>* p p'
     \<and> ((''GET'', ''/oauth/authorize''), returning, Done answer) \<in> set (drop (length (pr_Conns p)) (pr_Conns p'))
     \<and> sent_away ref_web (ah_loginURL h) returning answer"
proof -
  obtain a where "run (New ref_host (Load ref_host)) [] = (Inr a, [RedisPool, SqlPool])"
    using ref_host_starts by blast
  let ?h = "main_handler ref_ext a" and ?R = "(''GET'', ''/oauth/authorize'')"
  let ?t = "AuthorizeHandler_thread ref_ext ref_web ?h"
  let ?p = "\<lambda>n cs w.
    \<lparr>pr_Phase = Serving a, pr_Pools = [RedisPool, SqlPool], pr_Open = n, pr_Conns = cs, pr_World = w\<rparr>"
  let ?step = "step_without_session ref_ext ref_web ref_host ''s1''"
  have "fresh_world service_world" by (simp add: fresh_world_def)
  from fresh_reads(3) [OF this, of ?h] obtain w0 where l: "run (alone (LogoutHandler_thread ref_ext ?h returning)) service_world
      = (logged_out (ah_secureCookies ?h), w0)" and w0: "fresh_world w0" by blast
  obtain f g where t: "?t returning = perform (Client_GetByID ref_ext ''c1'') f"
    and f: "f (Inr (Some (sample_client\<lparr>cl_CreatedAt := 0\<rparr>))) = perform (SessionByID ref_ext ''s1'') g"
    and g: "g (Inr None) = Done (answer_authorize ref_web (ah_loginURL ?h) returning (plain_result ActionRequireLogin))"
    using returning_thread by blast
  obtain w1 where c: "run (Client_GetByID ref_ext ''c1'') w0 = (Inr (Some (sample_client\<lparr>cl_CreatedAt := 0\<rparr>)), w1)"
    and w1: "fresh_world w1" using fresh_reads(1) [OF w0] by blast
  obtain w2 where s: "run (SessionByID ref_ext ''s1'') w1 = (Inr None, w2)" and w2: "fresh_world w2"
    using fresh_reads(2) [OF w1] by blast
  let ?first = "?p 1 [] w0"
  have "main_step ref_ext ref_web ref_host ?first
      (?first\<lparr>pr_Open := 0, pr_Conns := pr_Conns ?first @ [(?R, returning, ?t returning)]\<rparr>)"
  proof (rule main_accept)
    show "(?R, ?t) \<in> set (http_routes ref_ext ref_web ?h)" by (simp add: http_routes_def)
    show "?R = (hr_Method returning, u_Path (hr_URL returning))" by (simp add: returning_def authorize_get_def)
  qed simp_all
  then have 1: "?step ?first (?p 0 [(?R, returning, ?t returning)] w0)"
    using fresh_reads(4) [OF w0] by (simp add: step_without_session_def)
  have 2: "?step (?p 0 [(?R, returning, ?t returning)] w0) (?p 0 [(?R, returning, perform (SessionByID ref_ext ''s1'') g)] w1)"
    unfolding t f [symmetric] by (rule only_turn [OF c fresh_reads(4) [OF w1]])
  have 3: "?step (?p 0 [(?R, returning, perform (SessionByID ref_ext ''s1'') g)] w1) (?p 0 [(?R, returning, g (Inr None))] w2)"
    by (rule only_turn [OF s fresh_reads(4) [OF w2]])
  from 1 2 3 have steps: "?step\<^sup>*\<^sup>* (?p 1 [] w0) (?p 0 [(?R, returning, g (Inr None))] w2)"
    by (rule rtranclp.rtrancl_into_rtrancl [OF rtranclp.rtrancl_into_rtrancl [OF r_into_rtranclp]])
  have m: "map_of (hr_Cookies returning) ''session_id'' = Some ''s1''" by (simp add: returning_def)
  have 204: "hp_Status (logged_out (ah_secureCookies ?h)) = Some 204"
    by (simp add: logged_out_def WriteHeader_def SetCookie_def new_response_def)
  let ?answer = "answer_authorize ref_web (ah_loginURL ?h) returning (plain_result ActionRequireLogin)"
  have "pr_Phase (?p 1 [] w0) = Serving a"
    "run (alone (LogoutHandler_thread ref_ext ?h returning)) service_world
       = (logged_out (ah_secureCookies ?h), pr_World (?p 1 [] w0))"
    "(?R, returning, Done ?answer) \<in> set (drop (length (pr_Conns (?p 1 [] w0)))
       (pr_Conns (?p 0 [(?R, returning, g (Inr None))] w2)))"
    using l g by (simp_all only: process.simps list.size drop0 list.set insertI1)
  moreover from returning_parses(2) have "CookieValue returning ''session_id'' = ''s1''"
    by (simp add: SessionCookieName_def)
  note logout_is_final [OF ref_ok(1) calculation(1) m calculation(2) 204 steps calculation(3) this]
  ultimately show ?thesis using m 204 steps by (intro exI conjI)
qed

end
