(* ===== verification/Migrate.thy ===== *)
theory Migrate
  imports Prelude "HOL-Library.Monad_Syntax"
begin

text \<open>
  \<open>cmd/migrate\<close>: the command line around goose.  The state is the trace of the calls made to
  goose and to \<open>database/sql\<close>, whose answers are the parameter \<open>tools\<close>; the value of a run is
  the exit code with what was printed at the end.  \<open>flag\<close> is spelled out for the sets of string
  flags the program declares.
\<close>

datatype tool_call =
    SetDialect gostring
  | SqlOpen gostring
  | PingDB
  | GooseRun gostring gostring "gostring list"
  | GooseCreate gostring gostring gostring
  | CloseDB

record tools =
  tl_Getenv :: "gostring \<Rightarrow> gostring"
  tl_fails :: "tool_call \<Rightarrow> gostring option" \<comment> \<open>the text of the error a call returns\<close>

datatype exit = Exit nat gostring

type_synonym 'a cmd = "(tool_call list, exit + 'a) state"

definition invoke :: "tools \<Rightarrow> gostring \<Rightarrow> tool_call \<Rightarrow> unit cmd" where
  "invoke T what c = State (\<lambda>trace. (case tl_fails T c of
     None \<Rightarrow> Inr ()
   | Some err \<Rightarrow> Inl (Exit 1 (what @ '': '' @ err)), trace @ [c]))"

lemma run_invoke [simp]: "run (invoke T what c) trace = (case tl_fails T c of
     None \<Rightarrow> Inr () | Some err \<Rightarrow> Inl (Exit 1 (what @ '': '' @ err)), trace @ [c])"
  by (simp add: invoke_def)

definition and_then :: "unit cmd \<Rightarrow> 'a cmd \<Rightarrow> 'a cmd" where
  "and_then m k = do {
     r \<leftarrow> m;
     case r of Inl e \<Rightarrow> ret (Inl e) | Inr _ \<Rightarrow> k
   }"

section \<open>Flags\<close>

text \<open>
  \<open>FlagSet.Parse\<close> with \<open>ExitOnError\<close> for string flags: the values set and the arguments left,
  or the exit code.
\<close>

function parse_flags :: "(gostring \<times> gostring) list \<Rightarrow> gostring list
    \<Rightarrow> exit + (gostring \<times> gostring) list \<times> gostring list" where
  "parse_flags vals [] = Inr (vals, [])"
| "parse_flags vals (s # rest) =
    (if length s < 2 \<or> hd s \<noteq> CHR ''-'' then Inr (vals, s # rest)
     else if s = ''--'' then Inr (vals, rest)
     else let name = (if s ! 1 = CHR ''-'' then drop 2 s else drop 1 s) in
       if name = [] \<or> hd name = CHR ''-'' \<or> hd name = CHR ''='' then Inl (Exit 2 ''bad flag syntax'')
       else let key = takeWhile (\<lambda>c. c \<noteq> CHR ''='') name in
         if key \<notin> fst ` set vals
         then Inl (Exit (if key = ''help'' \<or> key = ''h'' then 0 else 2) ''flag not defined'')
         else if CHR ''='' \<in> set name
         then parse_flags (map (\<lambda>(k, v). if k = key then (k, drop (length key + 1) name) else (k, v)) vals) rest
         else (case rest of
           [] \<Rightarrow> Inl (Exit 2 ''flag needs an argument'')
         | v # rest' \<Rightarrow> parse_flags (map (\<lambda>(k, w). if k = key then (k, v) else (k, w)) vals) rest'))"
  by pat_completeness auto
termination
  by (relation "measure (length \<circ> snd)") auto

definition flag_value :: "(gostring \<times> gostring) list \<Rightarrow> gostring \<Rightarrow> gostring" where
  "flag_value vals k = (case map_of vals k of Some v \<Rightarrow> v | None \<Rightarrow> [])"

definition default_dir :: gostring where
  "default_dir = ''database/migrations''"

section \<open>main.go\<close>

definition envOrDefault :: "tools \<Rightarrow> gostring \<Rightarrow> gostring \<Rightarrow> gostring" where
  "envOrDefault T key def = (let v = tl_Getenv T key in if v \<noteq> [] then v else def)"

definition migrate_dsn :: "tools \<Rightarrow> gostring" where
  "migrate_dsn T = envOrDefault T ''DB_USER'' ''iam'' @ '':'' @ envOrDefault T ''DB_PASSWORD'' ''secret''
     @ ''@tcp('' @ envOrDefault T ''DB_HOST'' ''localhost'' @ '':'' @ envOrDefault T ''DB_PORT'' ''3306''
     @ '')/'' @ envOrDefault T ''DB_NAME'' ''iam_db''
     @ ''?parseTime=true&charset=utf8mb4&multiStatements=true''"

text \<open>\<open>log.Fatalf\<close> ends the process, so the deferred \<open>Close\<close> runs only after a success.\<close>

definition runWithDB :: "tools \<Rightarrow> gostring \<Rightarrow> gostring \<Rightarrow> gostring list \<Rightarrow> unit cmd" where
  "runWithDB T command dir args =
     and_then (invoke T ''sql.Open'' (SqlOpen (migrate_dsn T)))
    (and_then (invoke T ''db.Ping'' PingDB)
    (and_then (invoke T (''goose.Run('' @ command @ '')'') (GooseRun command dir args))
      (State (\<lambda>trace. (Inr (), trace @ [CloseDB])))))"

definition run_command :: "tools \<Rightarrow> gostring \<Rightarrow> gostring list \<Rightarrow> exit cmd" where
  "run_command T command args = (case parse_flags [(''dir'', default_dir)] args of
     Inl e \<Rightarrow> ret (Inl e)
   | Inr (vals, rest) \<Rightarrow>
       and_then (runWithDB T command (flag_value vals ''dir'') rest) (ret (Inr (Exit 0 []))))"

definition create_command :: "tools \<Rightarrow> gostring list \<Rightarrow> exit cmd" where
  "create_command T args = (case parse_flags [(''dir'', default_dir), (''type'', ''sql'')] args of
     Inl e \<Rightarrow> ret (Inl e)
   | Inr (vals, []) \<Rightarrow> ret (Inl (Exit 1 ''usage: create [flags] <migration_name>''))
   | Inr (vals, name # _) \<Rightarrow>
       and_then (invoke T ''goose.Create'' (GooseCreate (flag_value vals ''dir'') name (flag_value vals ''type'')))
         (ret (Inr (Exit 0 ''Migration created successfully''))))"

text \<open>\<open>os.Args\<close> without the name of the program.\<close>

definition migrate_main :: "tools \<Rightarrow> gostring list \<Rightarrow> exit cmd" where
  "migrate_main T argv = (case argv of
     [] \<Rightarrow> ret (Inl (Exit 1 (''expected '' @ [CHR 0x27] @ ''up'' @ [CHR 0x27] @ '', '' @ [CHR 0x27] @ ''down''
       @ [CHR 0x27] @ '', or '' @ [CHR 0x27] @ ''create'' @ [CHR 0x27] @ '' subcommands'')))
   | c # args \<Rightarrow> and_then (invoke T ''goose.SetDialect'' (SetDialect ''mysql''))
       (if c = ''up'' \<or> c = ''down'' then run_command T c args
        else if c = ''create'' then create_command T args
        else ret (Inl (Exit 1 (''unknown command: '' @ c)))))"

definition exit_code :: "exit + exit \<Rightarrow> nat" where
  "exit_code r = (case r of Inl (Exit n _) \<Rightarrow> n | Inr (Exit n _) \<Rightarrow> n)"

section \<open>What a run does\<close>

lemma run_and_then [simp]: "run (and_then m k) s = (case run m s of
     (Inl e, s') \<Rightarrow> (Inl e, s') | (Inr _, s') \<Rightarrow> run k s')"
  by (simp add: and_then_def split: prod.split sum.split)

lemma runWithDB_trace:
  "\<exists>n. snd (run (runWithDB T c d args) s)
    = s @ take n [SqlOpen (migrate_dsn T), PingDB, GooseRun c d args, CloseDB]"
proof -
  let ?all = "[SqlOpen (migrate_dsn T), PingDB, GooseRun c d args, CloseDB]"
  have "\<exists>n \<in> {1, 2, 3, 4}. snd (run (runWithDB T c d args) s) = s @ take n ?all"
    by (auto simp: runWithDB_def split: option.split)
  then show ?thesis by blast
qed

lemma create_trace: "GooseRun c d a \<notin> set (snd (run (create_command T args) s)) \<or> GooseRun c d a \<in> set s"
  by (auto simp: create_command_def split: option.split sum.split prod.split list.split)

text \<open>C35: The migration tool touches the schema only when asked to: goose runs only for a command line
  that starts with \<open>up\<close> or \<open>down\<close>, with that command, with the directory of the flags and the
  remaining arguments, and only after the dialect was set and the database has answered.\<close>

theorem migrate_only_on_command:
  assumes "GooseRun cmd dir args \<in> set (snd (run (migrate_main T argv) []))"
  shows "cmd \<in> {''up'', ''down''} \<and> argv \<noteq> [] \<and> hd argv = cmd
    \<and> (\<exists>vals. parse_flags [(''dir'', default_dir)] (tl argv) = Inr (vals, args) \<and> dir = flag_value vals ''dir'')
    \<and> take 3 (snd (run (migrate_main T argv) []))
      = [SetDialect ''mysql'', SqlOpen (migrate_dsn T), PingDB]"
proof (cases argv)
  case (Cons c as)
  have set_dialect: "tl_fails T (SetDialect ''mysql'') = None"
    using assms by (auto simp: Cons migrate_main_def split: option.splits)
  have not_create: "GooseRun cmd dir args \<notin> set (snd (run (create_command T as) [SetDialect ''mysql'']))"
    using create_trace [of cmd dir args T as "[SetDialect ''mysql'']"] by auto
  have c: "c = ''up'' \<or> c = ''down''"
    using assms not_create set_dialect by (auto simp: Cons migrate_main_def split: if_splits)
  have main: "snd (run (migrate_main T argv) []) = snd (run (run_command T c as) [SetDialect ''mysql''])"
    using c set_dialect by (auto simp: Cons migrate_main_def)
  obtain vals rest where flags: "parse_flags [(''dir'', default_dir)] as = Inr (vals, rest)"
    using assms unfolding main by (auto simp: run_command_def split: sum.splits)
  let ?dir = "flag_value vals ''dir''"
  have db: "snd (run (run_command T c as) [SetDialect ''mysql''])
      = snd (run (runWithDB T c ?dir rest) [SetDialect ''mysql''])"
    by (simp add: run_command_def flags split: prod.split sum.split)
  obtain n where n: "snd (run (migrate_main T argv) []) = [SetDialect ''mysql'']
      @ take n [SqlOpen (migrate_dsn T), PingDB, GooseRun c ?dir rest, CloseDB]"
    using runWithDB_trace [of T c ?dir rest "[SetDialect ''mysql'']"] unfolding main db by blast
  have "GooseRun cmd dir args \<in> set (take n [SqlOpen (migrate_dsn T), PingDB, GooseRun c ?dir rest, CloseDB])"
    using assms unfolding n by simp
  then have "2 < n \<and> cmd = c \<and> dir = ?dir \<and> args = rest"
    by (cases n; cases "n - 1"; cases "n - 2") (auto simp: take_Cons' split: if_splits)
  with n c flags Cons show ?thesis by (auto simp: take_Cons')
qed (use assms in \<open>simp add: migrate_main_def\<close>)

theorem migrate_only_on_command_witness:
  "GooseRun ''up'' ''m'' [] \<in> set (snd (run (migrate_main \<lparr>tl_Getenv = \<lambda>_. [], tl_fails = \<lambda>_. None\<rparr>
      [''up'', ''-dir=m'']) []))
    \<and> take 1 (snd (run (migrate_main \<lparr>tl_Getenv = \<lambda>_. [], tl_fails = \<lambda>_. None\<rparr> [''up'', ''-dir=m'']) []))
      = [SetDialect ''mysql'']"
proof -
  let ?T = "\<lparr>tl_Getenv = \<lambda>_. [], tl_fails = \<lambda>_. None\<rparr>"
  have "parse_flags [(''dir'', default_dir)] [''-dir=m''] = Inr ([(''dir'', ''m'')], [])"
    by (simp add: Let_def)
  then have run: "GooseRun ''up'' ''m'' [] \<in> set (snd (run (migrate_main ?T [''up'', ''-dir=m'']) []))"
    by (simp add: migrate_main_def run_command_def runWithDB_def flag_value_def)
  from migrate_only_on_command [OF this]
  have "take 1 (take 3 (snd (run (migrate_main ?T [''up'', ''-dir=m'']) []))) = [SetDialect ''mysql'']"
    by simp
  with run show ?thesis by simp
qed

end
