(* ===== verification/Spec2Isabelle.thy ===== *)
theory Spec2Isabelle
  imports CodeOnce Concurrent Conformance Flow LogoutFinal Migrate
begin

text \<open>
  A verification development of the IAM service: an OAuth 2.0 authorization server in Go (code
  grant with PKCE) over MySQL and Redis, with sessions, client registration and RS256 tokens.

  \<^bold>\<open>The parts and how they interact.\<close>  A request reaches a handler (\<open>internal/handler\<close>), which
  decodes and validates it (\<open>internal/dtos\<close>, \<open>internal/validator\<close>) and calls a service
  (\<open>internal/service\<close>).  The services keep users, clients and refresh tokens in MySQL and
  sessions and authorization codes in Redis, through one repository each
  (\<open>internal/repository\<close>, \<open>internal/cache\<close>), and mint tokens with the keys loaded at
  start-up (\<open>internal/app\<close>).  The flow the properties follow: \<open>POST /login\<close> opens a session,
  \<open>GET /oauth/authorize\<close> turns it into a code of sixty seconds bound to client, redirect URI,
  scope and challenge, \<open>POST /oauth/token\<close> redeems the code once for an access and a refresh
  token, \<open>GET /.well-known/jwks.json\<close> publishes the key.

  \<^bold>\<open>Theories, from the bottom.\<close>
  \<^item> \<open>Prelude\<close>: strings as bytes, Go errors as a datatype (\<open>err_is\<close> is \<open>errors.Is\<close>), the state
    monad in which every stateful function is written, and the rules for what a computation keeps.
  \<^item> \<open>GoText\<close>, \<open>Strconv\<close>, \<open>Base64\<close>, \<open>Sha256\<close>, \<open>Json\<close>, \<open>JsonParse\<close>, \<open>Url\<close>: the parts of
    the Go library the source computes with, as executable functions: UTF-8, \<open>strings.Fields\<close>,
    decimal numbers, unpadded base64url, SHA-256 on 32-bit words, \<open>encoding/json\<close>, \<open>net/url\<close> and
    \<open>path.Clean\<close>.  Each has its round trip: \<open>base64_roundtrip\<close>, \<open>json_roundtrip\<close>,
    \<open>unescape_escape\<close>, \<open>parse_encode\<close>, \<open>atoi_itoa\<close>.
  \<^item> \<open>Models\<close>: \<open>internal/models\<close>, \<open>internal/oauth\<close>, the structures of \<open>internal/dtos\<close>, the JSON
    stored in Redis and in JSON columns.
  \<^item> \<open>World\<close>: everything outside the repository as one parameter, the record \<open>ext\<close>: a function
    per call of go-redis, sqlx, bcrypt, uuid, \<open>crypto/rand\<close> and the JWT library.  The state of a
    run, \<open>world\<close>, is the clock, the number of random draws and the states of the two servers,
    whose types are left open.
  \<^item> \<open>Cache\<close>, \<open>RedisRepos\<close>, \<open>SqlRepos\<close>: \<open>internal/cache/redis.go\<close> and the five repositories.
    \<open>Ports\<close> states as locales what the services expect of them (\<open>internal/service/ports.go\<close>);
    the repository theories interpret every locale on their own definitions.
  \<^item> \<open>TokenService\<close>, \<open>ClientService\<close>, \<open>AuthService\<close>, \<open>TokenGrant\<close>: the four services, one
    definition per method, with the case lemmas that describe every outcome of a run.
  \<^item> \<open>Service\<close>: the service as a transition system (\<open>step\<close>, \<open>reachable\<close>) and its invariant \<open>inv\<close>,
    kept by every operation whether or not a server fails in the middle.
  \<^item> \<open>Concurrent\<close>: the code grant cut at its calls of MySQL and Redis, and the interleavings of any
    number of such requests with each other and with the rest of the service.
  \<^item> \<open>Threads\<close>, \<open>Interleaved\<close>, \<open>Interference\<close>: requests in progress.  A thread is an answer or the
    next atomic action; every service method is written once more as a thread, and
    \<open>serve_alone\<close> shows that uninterrupted it is the method.  \<open>interleaved\<close> lets any number of
    requests act in any order, with the clock, evictions and maintenance in between.
    \<open>Interference\<close> is the rely-guarantee argument: every action of every thread keeps the
    invariant \<open>sound\<close>, whatever the others did since the last one.
  \<^item> \<open>Reference\<close>: one concrete world in which everything assumed of the outside holds; the
    witnesses of the properties run in it.
  \<^item> \<open>Url\<close>, \<open>Http\<close>, \<open>Validator\<close>, \<open>Handlers\<close>: requests and responses, \<open>internal/httpx\<close>, the
    validator with the custom redirect rule, and the seven endpoints of \<open>cmd/api/main.go\<close>; a
    response is a status, headers, cookies and a body, written in the order the code writes them.
    \<open>Redirects\<close> holds the facts about \<open>url.Parse\<close>, \<open>URL.String\<close> and \<open>http.Redirect\<close>.
  \<^item> \<open>App\<close>, \<open>Migrate\<close>: start-up (configuration, keys, pools) and the migration command line.
  \<^item> \<open>Gateway\<close>, \<open>Server\<close>: the seven routes with requests in progress, and \<open>main\<close> of
    \<open>cmd/api/main.go\<close> as a step relation on the process (\<open>process_step\<close>; \<open>main_step\<close> adds what
    happens around it): its phase, its open pools, the connections that send nothing at the moment,
    the requests it has read and the world behind it.  A connection that is open when the signal
    comes can still send its request; \<open>log.Fatalf\<close> drops every request that is not answered.
    \<open>http_alone\<close> shows that uninterrupted the routes are those of \<open>Handlers\<close>.
  \<^item> \<open>CodeOnce\<close>, \<open>LogoutFinal\<close>, \<open>Conformance\<close>: what threads \<open>promises\<close> as long as their own actions
    are of a kind, applied three times: a token request that takes no code out of Redis gets no
    tokens, a request that finds no session gets no code, and every request gets a response of the
    type of its route, given as \<open>shape\<close>s of JSON read off \<open>internal/dtos\<close>.
  \<^item> \<open>Flow\<close>: the three requests of a sign-in, each made from what the response before it held.
  \<^item> \<open>RepoProperties\<close>, \<open>ServiceProperties\<close>, \<open>TokenProperties\<close>, \<open>SystemProperties\<close>,
    \<open>InterleavedProperties\<close>, \<open>HttpProperties\<close>, \<open>Endpoints\<close>: the properties, by layer; each is followed by a theorem that applies it at a
    concrete input.

  \<^bold>\<open>What is assumed.\<close>  \<open>redis_spec\<close> and \<open>mysql_spec\<close>: a call either answers as documented on
  the abstract store or tables, or (unless its argument \<open>up\<close> holds) fails with an error of its
  own, its effect applied or not.  A command that go-redis sends again after a lost reply may also
  answer as the second of two executions, so a \<open>GETDEL\<close> can miss a key that it deleted
  (\<open>redis_complies\<close>).  How Redis rounds the reply of \<open>TTL\<close> is left open within a second
  (\<open>ttl_reply\<close>).  \<open>Recoverer\<close> of chi is written out as documented.  \<open>columns_ok\<close>: the collation is an equivalence that separates
  lower-case hexadecimal, JSON columns keep arrays of strings, DATETIME rounds to the second.
  \<open>library_ok\<close>, \<open>jwt_ok\<close>, \<open>validator_ok\<close>: bcrypt, random bytes, UUIDs, the text of an instant,
  the JWT library and the validation engine behave as documented.  \<open>ref_ok\<close> and \<open>ref_web_ok\<close> show
  that all of it holds of the reference.  Uniqueness of random values is never assumed, except as
  the hypothesis \<open>token_id_unused\<close> where a primary key could clash.

  \<^bold>\<open>What the properties show.\<close>  Tokens come only out of a live code of the presenting client
  with its verifier, once, with the scope that was granted (\<open>exchange_only_when_entitled\<close>,
  \<open>one_token_response\<close>); the three OAuth operations refine pure
  decision rules (\<open>authorize_refines_rules\<close>, \<open>exchange_refines_rules\<close>, \<open>token_endpoint_by_rules\<close>);
  the invariants of every state of the interleaved service (\<open>interleaved_grants\<close>,
  \<open>lifetimes_bounded\<close>) and what its answers promise; the server process over
  it (\<open>server_refines_service\<close>, \<open>server_answers_honoured\<close>, \<open>main_lifecycle\<close>), whose
  shutdown terminates within a bound read off its connections and drops a request only after its
  deadline (\<open>shutdown_terminates\<close>); signing in
  over HTTP from the password to the tokens (\<open>sign_in_flow\<close>); sessions from
  login to logout, which is final (\<open>logout_is_final\<close>); the type of every response (\<open>responses_conform\<close>);
  redirects go only to registered lawful targets or to the login page and back
  (\<open>authorize_endpoint_redirects\<close>, \<open>safeNext_stays_here\<close>, \<open>login_resumes_authorization\<close>);
  round trips of stored values, tokens and keys; and the error behaviour of each operation.

  \<^bold>\<open>Bounds and fuel.\<close>  The JSON parser runs on fuel \<open>json_fuel\<close>, linear in the text, and
  \<open>pval_fuel\<close> shows that more changes nothing; its nesting limit is that of \<open>encoding/json\<close>
  (10000).  No request needs more than ten actions (\<open>requests_finish\<close>, \<open>handlers_within\<close>), so the
  threads need no fuel; this is also the ten in the bound of \<open>shutdown_terminates\<close>, where each step
  uses up one of \<open>turns_left\<close> or a connection.  A query string of more than 10000 pairs is ignored, as by \<open>net/url\<close>; \<open>short_query\<close>
  keeps a redirect URI two pairs below that.  Every other recursion is structural or has a measure.

  \<^bold>\<open>What modelling found.\<close>  A revoked refresh token keeps working until it expires
  (\<open>refresh_ignores_revocation\<close>); \<open>TTL\<close> misses both of its special cases (\<open>ttl_of_missing_key\<close>);
  the grant answers a deleted user with a wrapped database error because its test for a nil
  user is dead (\<open>get_user_by_id_never_nil\<close>); a pool whose first ping fails is not closed
  (\<open>start_up_pools\<close>); the error codes \<open>unauthorized_client\<close> and \<open>invalid_scope\<close> cannot occur
  (\<open>token_endpoint_by_rules\<close>); a logout may answer 500 (\<open>logout_endpoint\<close>);
  \<open>log.Fatalf\<close> skips the deferred \<open>Close\<close>, so an abnormal end leaves both pools open
  (\<open>main_lifecycle\<close>) and may drop requests; the loser of a race for an email is not told so (\<open>registration_race\<close>).

  \<^bold>\<open>Not modelled.\<close>  The sizes of connection pools, the timeouts of connections and pings and the
  cancellation of contexts (a call of a server that one of them cuts short is one of the calls that fail,
  with or without its effect), log output, the logging and request-identifier middleware, what chi
  answers to an unknown route, and the Set-Cookie and HTTP wire formats, all of which are I/O of the
  Go library; of the deadlines only that of the shutdown is kept.  In \<open>Interleaved\<close> a call of a
  server, a reading of the clock and a drawing of random values are one action each (the two
  drawings of a client secret together are one), and what lies between two of them is computed
  without looking at the shared state.  The mocks of the handler tests are generated.
\<close>

end
